(* ===== verification/Prelude.thy ===== *)
theory Prelude
  imports "HOL-Library.Word"
begin

text \<open>
  Shared notions of the development: machine words and byte strings under the names the Rust
  code gives them, the outcome of a fallible Rust computation, sequencing of such outcomes, and
  the generic facts about lists, options and words that the component theories share.

  A computation of type \<open>('e, 'a) res\<close> ends in \<open>Inr x\<close> (the Rust \<open>Ok(x)\<close>, or a plain return),
  in \<open>Inl (Fail e)\<close> (the Rust \<open>Err(e)\<close>) or in \<open>Inl Panic\<close> (an unwinding panic: an index out of
  range, an \<open>unwrap\<close> of an error, an arithmetic overflow, a failed capacity check).
\<close>

section \<open>Collections of facts\<close>

named_theorems res_simps \<open>evaluation of outcome combinators\<close>
named_theorems rd_simps \<open>evaluation of byte readers\<close>
named_theorems width_intros \<open>readers that consume a fixed number of bytes\<close>

section \<open>Words and bytes\<close>

type_synonym u8 = "8 word"
type_synonym u16 = "16 word"
type_synonym u32 = "32 word"
type_synonym u64 = "64 word"
type_synonym bytes = "u8 list"

text \<open>The Rust byte string literal \<open>b"..."\<close>: the bytes of an ASCII string.\<close>

definition bstr :: "string \<Rightarrow> bytes" where
  "bstr s = map (\<lambda>c. of_nat (of_char c)) s"

lemma bstr_Nil [simp]: "bstr [] = []"
  by (simp add: bstr_def)

lemma bstr_Cons [simp]: "bstr (c # s) = of_nat (of_char c) # bstr s"
  by (simp add: bstr_def)

lemma length_bstr [simp]: "length (bstr s) = length s"
  by (simp add: bstr_def)

section \<open>Outcomes\<close>

datatype 'e fault = Fail 'e | Panic

type_synonym ('e, 'a) res = "'e fault + 'a"

definition bind_res :: "('e, 'a) res \<Rightarrow> ('a \<Rightarrow> ('e, 'b) res) \<Rightarrow> ('e, 'b) res" where
  "bind_res m f = (case m of Inl e \<Rightarrow> Inl e | Inr x \<Rightarrow> f x)"

lemma bind_res_Inl [simp, res_simps]: "bind_res (Inl e) f = Inl e"
  and bind_res_Inr [simp, res_simps]: "bind_res (Inr x) f = f x"
  by (simp_all add: bind_res_def)

lemma bind_res_eq_Inr: "bind_res m f = Inr y \<longleftrightarrow> (\<exists>x. m = Inr x \<and> f x = Inr y)"
  by (cases m) auto

lemma bind_res_eq_Inl:
  "bind_res m f = Inl e \<longleftrightarrow> m = Inl e \<or> (\<exists>x. m = Inr x \<and> f x = Inl e)"
  by (cases m) auto

lemma bind_res_cong [fundef_cong]:
  "m = m' \<Longrightarrow> (\<And>x. m' = Inr x \<Longrightarrow> f x = g x) \<Longrightarrow> bind_res m f = bind_res m' g"
  by (cases m') auto

lemma bind_res_assoc: "bind_res (bind_res m f) g = bind_res m (\<lambda>x. bind_res (f x) g)"
  by (cases m) auto

text \<open>The conversion a \<open>?\<close> applies to the error it returns.\<close>

definition map_fail :: "('e \<Rightarrow> 'f) \<Rightarrow> ('e, 'a) res \<Rightarrow> ('f, 'a) res" where
  "map_fail g m = (case m of Inl (Fail e) \<Rightarrow> Inl (Fail (g e)) | Inl Panic \<Rightarrow> Inl Panic
                   | Inr x \<Rightarrow> Inr x)"

lemma map_fail_simps [simp, res_simps]:
  "map_fail g (Inl (Fail e)) = Inl (Fail (g e))"
  "map_fail g (Inl Panic) = Inl Panic"
  "map_fail g (Inr x) = Inr x"
  by (simp_all add: map_fail_def)

lemma map_fail_eq_Inr [simp]: "map_fail g m = Inr x \<longleftrightarrow> m = Inr x"
  by (auto simp: map_fail_def split: sum.splits fault.splits)

lemma map_fail_eq_Panic [simp]: "map_fail g m = Inl Panic \<longleftrightarrow> m = Inl Panic"
  by (auto simp: map_fail_def split: sum.splits fault.splits)

text \<open>A loop that maps every element and stops at the first failure.\<close>

fun map_res :: "('a \<Rightarrow> ('e, 'b) res) \<Rightarrow> 'a list \<Rightarrow> ('e, 'b list) res" where
  "map_res f [] = Inr []"
| "map_res f (x # xs) = bind_res (f x) (\<lambda>y. bind_res (map_res f xs) (\<lambda>ys. Inr (y # ys)))"

lemma map_res_eq_Inr: "map_res f xs = Inr ys \<longleftrightarrow> list_all2 (\<lambda>x y. f x = Inr y) xs ys"
proof (induction xs arbitrary: ys)
  case Nil
  then show ?case by auto
next
  case (Cons x xs)
  then show ?case by (cases ys) (auto simp: bind_res_eq_Inr)
qed

lemma map_res_all_Inr: "(\<And>x. x \<in> set xs \<Longrightarrow> f x = Inr (g x)) \<Longrightarrow> map_res f xs = Inr (map g xs)"
  by (induction xs) auto

lemma map_res_eq_Inl: "map_res f xs = Inl e \<Longrightarrow> \<exists>x \<in> set xs. f x = Inl e"
  by (induction xs) (auto simp: bind_res_eq_Inl)

lemma map_res_Panic_iff:
  assumes "\<And>x e. x \<in> set xs \<Longrightarrow> f x \<noteq> Inl (Fail e)"
  shows "map_res f xs = Inl Panic \<longleftrightarrow> (\<exists>x \<in> set xs. f x = Inl Panic)"
  using assms
proof (induction xs)
  case Nil
  then show ?case by simp
next
  case (Cons x xs)
  show ?case
  proof (cases "f x")
    case (Inl e)
    with Cons.prems[of x] have "e = Panic" by (cases e) auto
    with Inl show ?thesis by simp
  next
    case (Inr y)
    have "map_res f xs = Inl Panic \<longleftrightarrow> (\<exists>x \<in> set xs. f x = Inl Panic)"
      using Cons by auto
    with Inr show ?thesis by (auto simp: bind_res_eq_Inl)
  qed
qed

section \<open>Lists\<close>

lemma takeWhile_neq_notin [simp]: "x \<notin> set (takeWhile (\<lambda>c. c \<noteq> x) xs)"
  by (auto dest: set_takeWhileD)

lemma takeWhile_neq_append:
  "x \<notin> set xs \<Longrightarrow> takeWhile (\<lambda>c. c \<noteq> x) (xs @ x # ys) = xs"
  by (induction xs) auto

lemma drop_append_eq: "n = length xs \<Longrightarrow> drop n (xs @ ys) = ys"
  by simp

lemma take_append_eq: "n = length xs \<Longrightarrow> take n (xs @ ys) = xs"
  by simp

end
