(* ===== verification/RustStd.thy ===== *)
theory RustStd
  imports Prelude
begin

text \<open>
  The parts of the Rust standard library the program reads bytes with: \<open>std::io::Error\<close>,
  \<open>Read::read_exact\<close> on a byte slice, \<open>Seek\<close>, slicing, \<open>split\<close>, the conversion between
  integers and their bytes, and \<open>swap_bytes\<close>. A reader takes the bytes that are left and returns
  what it read together with the rest.
\<close>

section \<open>Errors of std::io\<close>

datatype io_error =
    UnexpectedEof
  | InvalidData
  | InvalidInput
  | OsError nat

definition EPERM :: nat where "EPERM = 1"
definition ENOENT :: nat where "ENOENT = 2"
definition EINVAL :: nat where "EINVAL = 22"

section \<open>Readers\<close>

type_synonym ('e, 'a) reader = "bytes \<Rightarrow> ('e, 'a \<times> bytes) res"

definition rd_return :: "'a \<Rightarrow> ('e, 'a) reader" where
  "rd_return x = (\<lambda>bs. Inr (x, bs))"

definition rd_fail :: "'e \<Rightarrow> ('e, 'a) reader" where
  "rd_fail e = (\<lambda>bs. Inl (Fail e))"

definition rd_bind :: "('e, 'a) reader \<Rightarrow> ('a \<Rightarrow> ('e, 'b) reader) \<Rightarrow> ('e, 'b) reader" where
  "rd_bind m f = (\<lambda>bs. case m bs of Inl e \<Rightarrow> Inl e | Inr (x, bs') \<Rightarrow> f x bs')"

text \<open>The conversion of \<open>?\<close> at the end of a read whose caller has another error type.\<close>

definition rd_map_fail :: "('e \<Rightarrow> 'f) \<Rightarrow> ('e, 'a) reader \<Rightarrow> ('f, 'a) reader" where
  "rd_map_fail g m = (\<lambda>bs. map_fail g (m bs))"

text \<open>The idiom \<open>match opt { Some(v) => v, None => return Err(e) }\<close>.\<close>

definition rd_option :: "'e \<Rightarrow> 'a option \<Rightarrow> ('e, 'a) reader" where
  "rd_option e m = (case m of None \<Rightarrow> rd_fail e | Some x \<Rightarrow> rd_return x)"

text \<open>The idiom \<open>if bad { return Err(e) }\<close>.\<close>

definition rd_require :: "bool \<Rightarrow> 'e \<Rightarrow> ('e, unit) reader" where
  "rd_require b e = (if b then rd_return () else rd_fail e)"

text \<open>\<open>Read::read_exact\<close> into a buffer of \<open>n\<close> bytes.\<close>

definition read_exact :: "nat \<Rightarrow> (io_error, bytes) reader" where
  "read_exact n = (\<lambda>bs. if n \<le> length bs then Inr (take n bs, drop n bs)
                         else Inl (Fail UnexpectedEof))"

text \<open>The loop \<open>for _ in 0..n { v.push(read(io)?) }\<close>.\<close>

fun read_many :: "nat \<Rightarrow> ('e, 'a) reader \<Rightarrow> ('e, 'a list) reader" where
  "read_many 0 m = rd_return []"
| "read_many (Suc n) m = rd_bind m (\<lambda>x. rd_bind (read_many n m) (\<lambda>xs. rd_return (x # xs)))"

lemma rd_bind_apply: "rd_bind m f bs = (case m bs of Inl e \<Rightarrow> Inl e | Inr (x, bs') \<Rightarrow> f x bs')"
  by (simp add: rd_bind_def)

lemma rd_bind_Inr: "m bs = Inr (x, bs') \<Longrightarrow> rd_bind m f bs = f x bs'"
  by (simp add: rd_bind_def)

lemma rd_bind_Inl: "m bs = Inl e \<Longrightarrow> rd_bind m f bs = Inl e"
  by (simp add: rd_bind_def)

lemma rd_basic [simp, rd_simps]:
  "rd_return x bs = Inr (x, bs)"
  "rd_fail e bs = Inl (Fail e)"
  "rd_option e None bs = Inl (Fail e)"
  "rd_option e (Some x) bs = Inr (x, bs)"
  "rd_require True e bs = Inr ((), bs)"
  "rd_require False e bs = Inl (Fail e)"
  by (simp_all add: rd_return_def rd_fail_def rd_option_def rd_require_def)

lemma rd_bind_basic [simp, rd_simps]:
  "rd_bind (rd_return x) f = f x"
  "rd_bind (rd_fail e) f = rd_fail e"
  "rd_bind (rd_option e None) f = rd_fail e"
  "rd_bind (rd_option e (Some x)) f = f x"
  "rd_bind (rd_require True e) g = g ()"
  "rd_bind (rd_require False e) g = rd_fail e"
  by (auto simp: rd_bind_def rd_return_def rd_fail_def rd_option_def rd_require_def fun_eq_iff)

lemma rd_bind_eq_Inr:
  "rd_bind m f bs = Inr (y, r) \<longleftrightarrow> (\<exists>x bs'. m bs = Inr (x, bs') \<and> f x bs' = Inr (y, r))"
  by (auto simp: rd_bind_def split: sum.splits)

lemma rd_bind_eq_Panic:
  "rd_bind m f bs = Inl Panic \<longleftrightarrow>
    m bs = Inl Panic \<or> (\<exists>x bs'. m bs = Inr (x, bs') \<and> f x bs' = Inl Panic)"
  by (auto simp: rd_bind_def split: sum.splits)

lemma rd_bind_eq_Inl:
  "rd_bind m f bs = Inl e \<longleftrightarrow>
    m bs = Inl e \<or> (\<exists>x bs'. m bs = Inr (x, bs') \<and> f x bs' = Inl e)"
  by (auto simp: rd_bind_def split: sum.splits)

lemma rd_map_fail_eq_Fail [simp]:
  "rd_map_fail g m bs = Inl (Fail e) \<longleftrightarrow> (\<exists>x. m bs = Inl (Fail x) \<and> e = g x)"
  by (auto simp: rd_map_fail_def map_fail_def split: sum.splits fault.splits)

lemma rd_option_eq_Fail [simp]: "rd_option e m bs = Inl (Fail e') \<longleftrightarrow> m = None \<and> e' = e"
  by (cases m) auto

lemma rd_require_eq_Fail [simp]: "rd_require b e bs = Inl (Fail e') \<longleftrightarrow> \<not> b \<and> e' = e"
  by (cases b) auto

lemma rd_map_fail_eq_Inr [simp]: "rd_map_fail g m bs = Inr x \<longleftrightarrow> m bs = Inr x"
  by (simp add: rd_map_fail_def)

lemma rd_map_fail_eq_Panic [simp]: "rd_map_fail g m bs = Inl Panic \<longleftrightarrow> m bs = Inl Panic"
  by (simp add: rd_map_fail_def)

lemma rd_option_eq_Inr [simp]: "rd_option e m bs = Inr (x, r) \<longleftrightarrow> m = Some x \<and> r = bs"
  by (cases m) auto

lemma rd_require_eq_Inr [simp]: "rd_require b e bs = Inr (u, r) \<longleftrightarrow> b \<and> r = bs"
  by (cases b) auto

lemma map_sum_fst_eq_Inr [simp]: "map_sum id fst m = Inr x \<longleftrightarrow> (\<exists>r. m = Inr (x, r))"
  by (cases m) auto

lemma map_sum_fst_eq_Inl [simp]: "map_sum id fst m = Inl e \<longleftrightarrow> m = Inl e"
  by (cases m) auto

lemma read_exact_eq_Inr:
  "read_exact n bs = Inr (x, r) \<longleftrightarrow> n \<le> length bs \<and> x = take n bs \<and> r = drop n bs"
  by (auto simp: read_exact_def)

lemma read_exact_append [simp, rd_simps]:
  "length xs = n \<Longrightarrow> read_exact n (xs @ ys) = Inr (xs, ys)"
  by (simp add: read_exact_def)

lemma rd_bind_read_exact:
  "length xs = n \<Longrightarrow> rd_bind (rd_map_fail g (read_exact n)) k (xs @ ys) = k xs ys"
  by (simp add: rd_bind_apply rd_map_fail_def)

lemma read_exact_eq_Inl: "read_exact n bs = Inl e \<longleftrightarrow> length bs < n \<and> e = Fail UnexpectedEof"
  by (auto simp: read_exact_def)

lemma read_exact_short: "length bs < n \<Longrightarrow> read_exact n bs = Inl (Fail UnexpectedEof)"
  by (simp add: read_exact_def)

section \<open>Readers that never panic\<close>

definition total_reader :: "('e, 'a) reader \<Rightarrow> bool" where
  "total_reader m \<longleftrightarrow> (\<forall>bs. m bs \<noteq> Inl Panic)"

named_theorems total_intros \<open>readers that never panic\<close>

lemma total_readerD: "total_reader m \<Longrightarrow> m bs \<noteq> Inl Panic"
  by (simp add: total_reader_def)

lemma total_basic [total_intros]:
  "total_reader (rd_return x)"
  "total_reader (rd_fail e)"
  "total_reader (rd_option e opt)"
  "total_reader (rd_require b e)"
  "total_reader (read_exact n)"
  by (auto simp: total_reader_def rd_option_def rd_require_def read_exact_def split: option.splits)

lemma total_bind [total_intros]:
  "total_reader m \<Longrightarrow> (\<And>x. total_reader (f x)) \<Longrightarrow> total_reader (rd_bind m f)"
  by (auto simp: total_reader_def rd_bind_eq_Panic)

lemma total_map_fail [total_intros]: "total_reader m \<Longrightarrow> total_reader (rd_map_fail g m)"
  by (simp add: total_reader_def)

lemma total_read_many [total_intros]: "total_reader m \<Longrightarrow> total_reader (read_many n m)"
  by (induction n) (auto intro!: total_intros)

section \<open>Readers of a fixed width\<close>

text \<open>
  The contract between a table reader and the reader of one entry: an entry that is read
  consumes exactly \<open>width\<close> bytes. Every fixed-size structure of the ELF format provides it.
\<close>

locale fixed_width =
  fixes rd :: "('e, 'a) reader" and width :: nat
  assumes consumes: "rd bs = Inr (x, rest) \<Longrightarrow> width \<le> length bs \<and> rest = drop width bs"
begin

lemma many_consumes:
  "read_many n rd bs = Inr (xs, rest) \<Longrightarrow>
    length xs = n \<and> n * width \<le> length bs \<and> rest = drop (n * width) bs"
proof (induction n arbitrary: bs xs)
  case 0
  then show ?case by simp
next
  case (Suc n)
  then obtain x bs' xs' where x: "rd bs = Inr (x, bs')"
    and xs': "read_many n rd bs' = Inr (xs', rest)" and xs: "xs = x # xs'"
    by (auto simp: rd_bind_eq_Inr)
  from consumes[OF x] Suc.IH[OF xs'] xs show ?case
    by (auto simp: add.commute)
qed

lemma many_entry:
  assumes "read_many n rd bs = Inr (xs, rest)" and "i < n"
  shows "\<exists>r. rd (drop (i * width) bs) = Inr (xs ! i, r)"
  using assms
proof (induction n arbitrary: bs xs i)
  case 0
  then show ?case by simp
next
  case (Suc n)
  then obtain x bs' xs' where x: "rd bs = Inr (x, bs')"
    and xs': "read_many n rd bs' = Inr (xs', rest)" and xs: "xs = x # xs'"
    by (auto simp: rd_bind_eq_Inr)
  show ?case
  proof (cases i)
    case 0
    with x xs show ?thesis by simp
  next
    case (Suc j)
    with Suc.prems have "j < n" by simp
    with Suc.IH[OF xs'] obtain r where "rd (drop (j * width) bs') = Inr (xs' ! j, r)" by blast
    with consumes[OF x] Suc xs show ?thesis by (auto simp: add.commute)
  qed
qed

end

text \<open>How the width of a reader follows from its structure.\<close>

lemma fixed_width_basic [width_intros]:
  "fixed_width (rd_return x) 0"
  "fixed_width (rd_option e opt) 0"
  "fixed_width (rd_require b e) 0"
  "fixed_width (rd_fail e) n"
  "fixed_width (read_exact n) n"
  by unfold_locales (auto simp: read_exact_eq_Inr)

lemma fixed_width_map_fail [width_intros]:
  "fixed_width m n \<Longrightarrow> fixed_width (rd_map_fail g m) n"
  by (auto simp: fixed_width_def)

lemma fixed_width_bind [width_intros]:
  assumes m: "fixed_width m a" and f: "\<And>x. fixed_width (f x) b" and n: "a + b = n"
  shows "fixed_width (rd_bind m f) n"
proof
  fix bs y r
  assume "rd_bind m f bs = Inr (y, r)"
  then obtain x bs' where x: "m bs = Inr (x, bs')" and y: "f x bs' = Inr (y, r)"
    by (auto simp: rd_bind_eq_Inr)
  from fixed_width.consumes[OF m x] fixed_width.consumes[OF f y] n
  show "n \<le> length bs \<and> r = drop n bs" by (auto simp: add.commute)
qed

lemma fixed_width_map_map:
  assumes "fixed_width m n"
  shows "fixed_width (rd_bind m (\<lambda>x. rd_return (g x))) n"
  by (rule fixed_width_bind[OF assms fixed_width_basic(1)]) simp

section \<open>Encodings\<close>

text \<open>
  The contract of a structure with a byte encoding: reading an encoded, well-formed value
  yields that value and leaves what follows it.
\<close>

locale codec =
  fixes rd :: "('e, 'a) reader" and enc :: "'a \<Rightarrow> bytes" and wf :: "'a \<Rightarrow> bool"
  assumes decode: "wf x \<Longrightarrow> rd (enc x @ rest) = Inr (x, rest)"
begin

lemma decode_many:
  "list_all wf xs \<Longrightarrow> read_many (length xs) rd (concat (map enc xs) @ rest) = Inr (xs, rest)"
proof (induction xs)
  case Nil
  then show ?case by simp
next
  case (Cons x xs)
  then have "rd (enc x @ concat (map enc xs) @ rest) = Inr (x, concat (map enc xs) @ rest)"
    by (intro decode) simp
  with Cons show ?case by (simp add: rd_bind_def)
qed

lemma encoding_injective:
  assumes "wf x" "wf y" "enc x @ r = enc y @ s"
  shows "x = y \<and> r = s"
proof -
  have "Inr (x, r) = rd (enc x @ r)" by (rule decode[OF assms(1), symmetric])
  also have "\<dots> = rd (enc y @ s)" by (simp only: assms(3))
  also have "\<dots> = Inr (y, s)" by (rule decode[OF assms(2)])
  finally show ?thesis by simp
qed

end

section \<open>Integers and their bytes\<close>

fun le_nat :: "bytes \<Rightarrow> nat" where
  "le_nat [] = 0"
| "le_nat (b # bs) = unat b + 256 * le_nat bs"

fun to_le :: "nat \<Rightarrow> nat \<Rightarrow> bytes" where
  "to_le 0 n = []"
| "to_le (Suc k) n = of_nat n # to_le k (n div 256)"

lemma length_to_le [simp]: "length (to_le k n) = k"
  by (induction k arbitrary: n) auto

lemma le_nat_to_le: "le_nat (to_le k n) = n mod 256 ^ k"
proof (induction k arbitrary: n)
  case 0
  then show ?case by simp
next
  case (Suc k)
  have "n mod 256 + 256 * (n div 256 mod 256 ^ k) = n mod (256 * 256 ^ k)"
    by (simp add: mod_mult2_eq)
  then show ?case using Suc by (simp add: unat_of_nat)
qed

lemma le_nat_bound: "le_nat bs < 256 ^ length bs"
proof (induction bs)
  case Nil
  then show ?case by simp
next
  case (Cons b bs)
  have "unat b < 256" using unsigned_less[of b] by simp
  with Cons show ?case by auto
qed

lemma to_le_le_nat: "to_le (length bs) (le_nat bs) = bs"
proof (induction bs)
  case Nil
  then show ?case by simp
next
  case (Cons b bs)
  have b: "unat b < 256" using unsigned_less[of b] by simp
  then have "(unat b + 256 * le_nat bs) div 256 = le_nat bs" by simp
  moreover have "of_nat (unat b + 256 * le_nat bs) = b"
  proof -
    have "unat (of_nat (unat b + 256 * le_nat bs) :: u8) = (unat b + 256 * le_nat bs) mod 2 ^ 8"
      by (simp only: unat_of_nat) simp
    also have "\<dots> = unat b" using b by simp
    finally show ?thesis by (rule word_unat_eq_iff [THEN iffD2])
  qed
  ultimately show ?case using Cons by simp
qed

text \<open>\<open>u32::swap_bytes\<close>.\<close>

definition swap_bytes :: "u32 \<Rightarrow> u32" where
  "swap_bytes w = of_nat (le_nat (rev (to_le 4 (unat w))))"

lemma unat_lt_u32: "unat (w :: u32) < 256 ^ 4"
  using unsigned_less[of w] by simp

lemma swap_bytes_le: "length bs = 4 \<Longrightarrow> swap_bytes (of_nat (le_nat bs)) = of_nat (le_nat (rev bs))"
proof -
  assume len: "length bs = 4"
  then have "le_nat bs < 2 ^ 32" using le_nat_bound[of bs] by simp
  then have "unat (of_nat (le_nat bs) :: u32) = le_nat bs"
    by (simp add: unat_of_nat)
  with len show ?thesis by (simp add: swap_bytes_def to_le_le_nat[of bs, unfolded len])
qed

lemma swap_bytes_swap_bytes [simp]: "swap_bytes (swap_bytes w) = w"
proof -
  have "swap_bytes (of_nat (le_nat (rev (to_le 4 (unat w))))) = of_nat (le_nat (to_le 4 (unat w)))"
    by (subst swap_bytes_le) simp_all
  also have "\<dots> = w" using unat_lt_u32[of w] by (simp add: le_nat_to_le)
  finally show ?thesis by (simp add: swap_bytes_def)
qed

section \<open>Slices\<close>

text \<open>\<open>&xs[n..]\<close>: panics when the start lies beyond the end.\<close>

definition slice_from :: "'a list \<Rightarrow> nat \<Rightarrow> ('e, 'a list) res" where
  "slice_from xs n = (if n \<le> length xs then Inr (drop n xs) else Inl Panic)"

text \<open>\<open>xs.split(|b| *b == sep)\<close> as a list of its pieces; never empty.\<close>

fun split_on :: "'a \<Rightarrow> 'a list \<Rightarrow> 'a list list" where
  "split_on sep [] = [[]]"
| "split_on sep (x # xs) =
    (if x = sep then [] # split_on sep xs
     else case split_on sep xs of [] \<Rightarrow> [[x]] | p # ps \<Rightarrow> (x # p) # ps)"

lemma split_on_nonempty [simp]: "split_on sep xs \<noteq> []"
  by (induction xs) (auto split: list.splits)

lemma hd_split_on: "hd (split_on sep xs) = takeWhile (\<lambda>c. c \<noteq> sep) xs"
  by (induction xs) (auto split: list.splits simp: neq_Nil_conv hd_conv_nth)

lemma split_on_no_sep: "p \<in> set (split_on sep xs) \<Longrightarrow> sep \<notin> set p"
  by (induction xs arbitrary: p) (auto split: if_splits list.splits)

lemma split_on_clean: "sep \<notin> set xs \<Longrightarrow> split_on sep xs = [xs]"
  by (induction xs) auto

lemma split_on_append:
  "sep \<notin> set xs \<Longrightarrow> split_on sep (xs @ sep # ys) = xs # split_on sep ys"
  by (induction xs) auto

text \<open>The first piece of a split at NUL bytes, \<open>split(|b| *b == 0).next()\<close>.\<close>

definition first_nul_piece :: "bytes \<Rightarrow> bytes" where
  "first_nul_piece bs = hd (split_on 0 bs)"

lemma first_nul_piece_takeWhile: "first_nul_piece bs = takeWhile (\<lambda>b. b \<noteq> 0) bs"
  by (simp add: first_nul_piece_def hd_split_on)

section \<open>Files\<close>

text \<open>
  An open regular file is the bytes it holds. \<open>Seek::seek(SeekFrom::Start(off))\<close> passes the
  offset to \<open>lseek\<close> as a signed 64-bit value, which the kernel refuses when it is negative;
  \<open>vec![0; n]\<close> panics when \<open>n\<close> exceeds \<open>isize::MAX\<close>. \<open>seek_read\<close> is the idiom
  \<open>io.seek(Start(off))?; let mut b = vec![0; n]; io.read_exact(&mut b)?\<close>.
\<close>

definition isize_max :: nat where "isize_max = 2 ^ 63 - 1"

definition seek_read :: "bytes \<Rightarrow> u64 \<Rightarrow> nat \<Rightarrow> (io_error, bytes) res" where
  "seek_read file off n =
    (if unat off > isize_max then Inl (Fail (OsError EINVAL))
     else if n > isize_max then Inl Panic
     else map_sum id fst (read_exact n (drop (unat off) file)))"

lemma seek_read_eq_Inr:
  "seek_read file off n = Inr bs \<longleftrightarrow>
    unat off \<le> isize_max \<and> n \<le> isize_max \<and> n \<le> length file - unat off \<and>
    bs = take n (drop (unat off) file)"
  by (auto simp: seek_read_def read_exact_def)

lemma seek_read_Panic: "seek_read file off n = Inl Panic \<Longrightarrow> n > isize_max"
  by (auto simp: seek_read_def read_exact_def split: if_splits)

lemma seek_read_length: "seek_read file off n = Inr bs \<Longrightarrow> length bs = n"
  by (auto simp: seek_read_eq_Inr)

end
