(* ===== verification/Primitive.thy ===== *)
theory Primitive
  imports RustStd
begin

unbundle bit_operations_syntax

text \<open>
  What the attribute macros on the declarations of \<open>src/elfkit/types.rs\<close> provide.
  \<open>derive(Primitive)\<close> on a field-less enum gives \<open>FromPrimitive::from_u8\<close> and its kin: the
  variant with that discriminant, if there is one. \<open>bitflags!\<close> gives \<open>from_bits\<close>, which refuses
  a value with a bit that no flag declares, and \<open>from_bits_truncate\<close>, which clears such bits.
  An enum is given by its declaration, the table of its variants and discriminants.
\<close>

section \<open>Field-less enums\<close>

definition from_prim :: "('e \<times> 'w) list \<Rightarrow> 'w \<Rightarrow> 'e option" where
  "from_prim tbl d = map_of (map (\<lambda>(e, d). (d, e)) tbl) d"

definition to_prim :: "('e \<times> 'w) list \<Rightarrow> 'e \<Rightarrow> 'w" where
  "to_prim tbl e = the (map_of tbl e)"

text \<open>
  The contract between an enum and the parser of its discriminant: variants and discriminants
  are distinct, and the declaration lists every variant.
\<close>

locale primitive_enum =
  fixes tbl :: "('e \<times> 'w) list" and variant :: "'e \<Rightarrow> bool"
  assumes distinct_variants: "distinct (map fst tbl)"
    and distinct_discriminants: "distinct (map snd tbl)"
    and declared: "variant e \<longleftrightarrow> e \<in> fst ` set tbl"
begin

lemma swapped_distinct: "distinct (map fst (map (\<lambda>(e, d). (d, e)) tbl))"
  using distinct_discriminants by (simp add: comp_def case_prod_beta)

lemma from_prim_mem: "from_prim tbl d = Some e \<longleftrightarrow> (e, d) \<in> set tbl"
  unfolding from_prim_def using swapped_distinct by (subst map_of_eq_Some_iff) auto

lemma to_prim_mem: "variant e \<Longrightarrow> (e, to_prim tbl e) \<in> set tbl"
  using distinct_variants declared[of e] by (auto simp: to_prim_def map_of_eq_Some_iff)

lemma from_to: "variant e \<Longrightarrow> from_prim tbl (to_prim tbl e) = Some e"
  by (simp add: from_prim_mem to_prim_mem)

lemma from_eq_Some: "from_prim tbl d = Some e \<longleftrightarrow> variant e \<and> to_prim tbl e = d"
proof
  assume "from_prim tbl d = Some e"
  then have m: "(e, d) \<in> set tbl" by (simp add: from_prim_mem)
  then have "variant e" using declared by force
  moreover have "to_prim tbl e = d" using m distinct_variants by (simp add: to_prim_def)
  ultimately show "variant e \<and> to_prim tbl e = d" by simp
next
  assume "variant e \<and> to_prim tbl e = d"
  then show "from_prim tbl d = Some e" using from_to by blast
qed

lemma from_eq_None: "from_prim tbl d = None \<longleftrightarrow> d \<notin> snd ` set tbl"
proof -
  have "d \<in> snd ` set tbl \<longleftrightarrow> (\<exists>e. from_prim tbl d = Some e)"
    by (auto simp: from_prim_mem intro: rev_image_eqI)
  then show ?thesis by (cases "from_prim tbl d") auto
qed

lemma to_prim_inj: "variant a \<Longrightarrow> variant b \<Longrightarrow> to_prim tbl a = to_prim tbl b \<Longrightarrow> a = b"
  by (metis from_to option.inject)

end

text \<open>A declaration whose discriminants ascend lists no discriminant twice.\<close>

fun ascending :: "'a::linorder list \<Rightarrow> bool" where
  "ascending (x # y # xs) = (x < y \<and> ascending (y # xs))"
| "ascending _ = True"

lemma ascending_less: "ascending (x # xs) \<Longrightarrow> y \<in> set xs \<Longrightarrow> x < y"
  by (induction xs arbitrary: x) (auto dest: less_trans)

lemma ascending_distinct: "ascending xs \<Longrightarrow> distinct xs"
proof (induction xs rule: ascending.induct)
  case (1 x y xs)
  then show ?case using ascending_less[of x "y # xs"] by auto
qed auto

lemma distinct_newtype: "inj f \<Longrightarrow> distinct ds \<Longrightarrow> distinct (map f ds)"
  by (auto simp: distinct_map inj_on_def)

section \<open>Flag sets\<close>

definition flags_all :: "(string \<times> 'w::len word) list \<Rightarrow> 'w word" where
  "flags_all tbl = foldr (\<lambda>(n, b) acc. b OR acc) tbl 0"

definition flag :: "(string \<times> 'w::len word) list \<Rightarrow> string \<Rightarrow> 'w word" where
  "flag tbl n = the (map_of tbl n)"

definition from_bits :: "(string \<times> 'w::len word) list \<Rightarrow> 'w word \<Rightarrow> 'w word option" where
  "from_bits tbl bits = (if bits AND NOT (flags_all tbl) = 0 then Some bits else None)"

definition from_bits_truncate :: "(string \<times> 'w::len word) list \<Rightarrow> 'w word \<Rightarrow> 'w word" where
  "from_bits_truncate tbl bits = bits AND flags_all tbl"

lemma from_bits_eq_Some: "from_bits tbl b = Some v \<longleftrightarrow> v = b \<and> from_bits_truncate tbl b = b"
proof -
  have "b AND NOT (flags_all tbl) = 0 \<longleftrightarrow> b AND flags_all tbl = b"
    by (auto simp: bit_eq_iff bit_simps)
  then show ?thesis by (auto simp: from_bits_def from_bits_truncate_def)
qed

lemma from_bits_truncate_idem [simp]:
  "from_bits_truncate tbl (from_bits_truncate tbl b) = from_bits_truncate tbl b"
  by (simp add: from_bits_truncate_def ac_simps)

lemma from_bits_of_truncate [simp]:
  "from_bits tbl (from_bits_truncate tbl b) = Some (from_bits_truncate tbl b)"
  by (simp add: from_bits_eq_Some)

end
