(* ===== verification/ElfTypes.thy ===== *)
theory ElfTypes
  imports Primitive
begin

text \<open>
  The constants and enums of the ELF format as \<open>src/elfkit/types.rs\<close> declares them. An enum is
  a datatype with a table of its discriminants; a flag set is the word of its bits with the table
  of the flags it declares; \<open>SectionType\<close> is the newtype the source has. Each enum is an
  instance of the contract \<open>primitive_enum\<close>. The two large enums are in the theories
  \<open>ElfMachines\<close> and \<open>DynamicTypes\<close>.
\<close>

section \<open>Flag sets\<close>

definition section_flags :: "(string \<times> u64) list" where
  "section_flags = [
    (''WRITE'', 1), (''ALLOC'', push_bit 1 1), (''EXECINSTR'', push_bit 2 1),
    (''MERGE'', push_bit 4 1), (''STRINGS'', push_bit 5 1), (''INFO_LINK'', push_bit 6 1),
    (''LINK_ORDER'', push_bit 7 1), (''OS_NONCONFORMING'', push_bit 8 1),
    (''GROUP'', push_bit 9 1), (''TLS'', push_bit 10 1), (''COMPRESSED'', push_bit 11 1),
    (''MASKOS'', 0x0ff00000), (''MASKPROC'', 0xf0000000), (''MIPS_GPREL'', 0x10000000)]"

definition header_flags :: "(string \<times> u32) list" where
  "header_flags = [
    (''MIPS_NOREORDER'', 0x00000001), (''MIPS_PIC'', 0x00000002), (''MIPS_CPIC'', 0x00000004),
    (''MIPS_ARCH'', 0xf0000000), (''MIPS_ARCH_32'', 0x50000000),
    (''MIPS_ARCH_64'', 0x60000000), (''MIPS_ARCH_32R2'', 0x70000000),
    (''MIPS_ARCH_64R2'', 0x80000000), (''MIPS_ABI_O32'', 0x00001000),
    (''MIPS_ABI_O64'', 0x00002000), (''ARM_EABI_VER1'', 0x01000000),
    (''ARM_EABI_VER2'', 0x02000000), (''ARM_EABI_VER3'', 0x03000000),
    (''ARM_EABI_VER4'', 0x04000000), (''ARM_EABI_VER5'', 0x05000000),
    (''ARM_ABI_FLOAT_HARD'', 0x00000400), (''ARM_ABI_FLOAT_SOFT'', 0x00000200)]"

definition segment_flags :: "(string \<times> u64) list" where
  "segment_flags = [
    (''READABLE'', push_bit 2 1), (''WRITABLE'', push_bit 1 1), (''EXECUTABLE'', 1)]"

definition dynamic_flags1 :: "(string \<times> u64) list" where
  "dynamic_flags1 = [
    (''NOW'', 1), (''GLOBAL'', push_bit 1 1), (''GROUP'', push_bit 2 1),
    (''NODELETE'', push_bit 3 1), (''LOADFLTR'', push_bit 4 1), (''INITFIRST'', push_bit 5 1),
    (''NOOPEN'', push_bit 6 1), (''ORIGIN'', push_bit 7 1), (''DIRECT'', push_bit 8 1),
    (''TRANS'', push_bit 9 1), (''INTERPOSE'', push_bit 10 1), (''NODEFLIB'', push_bit 11 1),
    (''NODUMP'', push_bit 12 1), (''CONFALT'', push_bit 13 1), (''ENDFILTEE'', push_bit 14 1),
    (''DISPRELDNE'', push_bit 15 1), (''DISPRELPND'', push_bit 16 1),
    (''NODIRECT'', push_bit 17 1), (''IGNMULDEF'', push_bit 18 1),
    (''NOKSYMS'', push_bit 19 1), (''NOHDR'', push_bit 20 1), (''EDITED'', push_bit 21 1),
    (''NORELOC'', push_bit 22 1), (''SYMINTPOSE'', push_bit 23 1),
    (''GLOBAUDIT'', push_bit 24 1), (''SINGLETON'', push_bit 25 1), (''STUB'', push_bit 26 1),
    (''PIE'', push_bit 27 1)]"

text \<open>\<open>impl Display for SectionFlags\<close>: one letter per flag that is set, in this order.\<close>

definition section_flags_fmt :: "u64 \<Rightarrow> string" where
  "section_flags_fmt bits = concat (map (\<lambda>(n, s). if bits AND flag section_flags n > 0 then s else [])
    [(''WRITE'', ''W''),
     (''ALLOC'', ''A''),
     (''EXECINSTR'', ''X''),
     (''MERGE'', ''M''),
     (''STRINGS'', ''S''),
     (''INFO_LINK'', ''I''),
     (''LINK_ORDER'', ''L''),
     (''OS_NONCONFORMING'', ''O''),
     (''GROUP'', ''G''),
     (''TLS'', ''T''),
     (''COMPRESSED'', ''C''),
     (''MASKOS'', ''o''),
     (''MIPS_GPREL'', ''g'')])"

section \<open>Endianness and class\<close>

datatype endianness = LittleEndian | BigEndian

definition endianness_table :: "(endianness \<times> u8) list" where
  "endianness_table = [(LittleEndian, 1), (BigEndian, 2)]"

datatype elf_class = Class32 | Class64

definition class_table :: "(elf_class \<times> u8) list" where
  "class_table = [(Class32, 1), (Class64, 2)]"

section \<open>Section types\<close>

datatype section_type = SectionType u32

definition SHT_NULL :: section_type where "SHT_NULL = SectionType 0"
definition SHT_PROGBITS :: section_type where "SHT_PROGBITS = SectionType 1"
definition SHT_SYMTAB :: section_type where "SHT_SYMTAB = SectionType 2"
definition SHT_STRTAB :: section_type where "SHT_STRTAB = SectionType 3"
definition SHT_RELA :: section_type where "SHT_RELA = SectionType 4"
definition SHT_HASH :: section_type where "SHT_HASH = SectionType 5"
definition SHT_DYNAMIC :: section_type where "SHT_DYNAMIC = SectionType 6"
definition SHT_NOTE :: section_type where "SHT_NOTE = SectionType 7"
definition SHT_NOBITS :: section_type where "SHT_NOBITS = SectionType 8"
definition SHT_REL :: section_type where "SHT_REL = SectionType 9"
definition SHT_SHLIB :: section_type where "SHT_SHLIB = SectionType 10"
definition SHT_DYNSYM :: section_type where "SHT_DYNSYM = SectionType 11"
definition SHT_INIT_ARRAY :: section_type where "SHT_INIT_ARRAY = SectionType 14"
definition SHT_FINI_ARRAY :: section_type where "SHT_FINI_ARRAY = SectionType 15"
definition SHT_PREINIT_ARRAY :: section_type where "SHT_PREINIT_ARRAY = SectionType 16"
definition SHT_GROUP :: section_type where "SHT_GROUP = SectionType 17"
definition SHT_SYMTAB_SHNDX :: section_type where "SHT_SYMTAB_SHNDX = SectionType 18"
definition SHT_NUM :: section_type where "SHT_NUM = SectionType 19"
definition SHT_GNU_ATTRIBUTES :: section_type where "SHT_GNU_ATTRIBUTES = SectionType 0x6ffffff5"
definition SHT_GNU_HASH :: section_type where "SHT_GNU_HASH = SectionType 0x6ffffff6"
definition SHT_GNU_LIBLIST :: section_type where "SHT_GNU_LIBLIST = SectionType 0x6ffffff7"
definition SHT_CHECKSUM :: section_type where "SHT_CHECKSUM = SectionType 0x6ffffff8"
definition SHT_SUNW_MOVE :: section_type where "SHT_SUNW_MOVE = SectionType 0x6ffffffa"
definition SHT_SUNW_COMDAT :: section_type where "SHT_SUNW_COMDAT = SectionType 0x6ffffffb"
definition SHT_SUNW_SYMINFO :: section_type where "SHT_SUNW_SYMINFO = SectionType 0x6ffffffc"
definition SHT_GNU_VERDEF :: section_type where "SHT_GNU_VERDEF = SectionType 0x6ffffffd"
definition SHT_GNU_VERNEED :: section_type where "SHT_GNU_VERNEED = SectionType 0x6ffffffe"
definition SHT_GNU_VERSYM :: section_type where "SHT_GNU_VERSYM = SectionType 0x6fffffff"
definition SHT_ARM_EXIDX :: section_type where "SHT_ARM_EXIDX = SectionType 0x70000001"
definition SHT_ARM_PREEMPTMAP :: section_type where "SHT_ARM_PREEMPTMAP = SectionType 0x70000002"
definition SHT_ARM_ATTRIBUTES :: section_type where "SHT_ARM_ATTRIBUTES = SectionType 0x70000003"
definition SHT_ARM_DEBUGOVERLAY :: section_type where "SHT_ARM_DEBUGOVERLAY = SectionType 0x70000004"
definition SHT_ARM_OVERLAYSECTION :: section_type where "SHT_ARM_OVERLAYSECTION = SectionType 0x70000005"
definition SHT_MIPS_LIBLIST :: section_type where "SHT_MIPS_LIBLIST = SectionType 0x70000001"
definition SHT_MIPS_CONFLICT :: section_type where "SHT_MIPS_CONFLICT = SectionType 0x70000002"
definition SHT_MIPS_GPTAB :: section_type where "SHT_MIPS_GPTAB = SectionType 0x70000003"
definition SHT_MIPS_UCODE :: section_type where "SHT_MIPS_UCODE = SectionType 0x70000004"
definition SHT_MIPS_DEBUG :: section_type where "SHT_MIPS_DEBUG = SectionType 0x70000005"
definition SHT_MIPS_REGINFO :: section_type where "SHT_MIPS_REGINFO = SectionType 0x70000006"
definition SHT_RELINKABLE :: section_type where "SHT_RELINKABLE = SectionType 0x6fffff01"

section \<open>Small enums\<close>

datatype abi =
    ABI_SYSV | ABI_HPUX | ABI_NETBSD | ABI_GNU | ABI_SOLARIS | ABI_AIX | ABI_IRIX | ABI_FREEBSD
  | ABI_TRU64 | ABI_MODESTO | ABI_OPENBSD | ABI_ARM_AEABI | ABI_ARM | ABI_STANDALONE

definition abi_table :: "(abi \<times> u8) list" where
  "abi_table = [
    (ABI_SYSV, 0), (ABI_HPUX, 1), (ABI_NETBSD, 2), (ABI_GNU, 3), (ABI_SOLARIS, 6),
    (ABI_AIX, 7), (ABI_IRIX, 8), (ABI_FREEBSD, 9), (ABI_TRU64, 10), (ABI_MODESTO, 11),
    (ABI_OPENBSD, 12), (ABI_ARM_AEABI, 64), (ABI_ARM, 97), (ABI_STANDALONE, 255)]"

datatype elf_type =
    ET_NONE | ET_REL | ET_EXEC | ET_DYN | ET_CORE

definition elf_type_table :: "(elf_type \<times> u16) list" where
  "elf_type_table = [
    (ET_NONE, 0), (ET_REL, 1), (ET_EXEC, 2), (ET_DYN, 3), (ET_CORE, 4)]"

datatype symbol_type =
    STT_NOTYPE | STT_OBJECT | STT_FUNC | STT_SECTION | STT_FILE | STT_COMMON | STT_TLS
  | STT_NUM | STT_GNU_IFUNC

definition symbol_type_table :: "(symbol_type \<times> u8) list" where
  "symbol_type_table = [
    (STT_NOTYPE, 0), (STT_OBJECT, 1), (STT_FUNC, 2), (STT_SECTION, 3), (STT_FILE, 4),
    (STT_COMMON, 5), (STT_TLS, 6), (STT_NUM, 7), (STT_GNU_IFUNC, 10)]"

datatype symbol_bind =
    STB_LOCAL | STB_GLOBAL | STB_WEAK | STB_STB_GNU_UNIQUE

definition symbol_bind_table :: "(symbol_bind \<times> u8) list" where
  "symbol_bind_table = [
    (STB_LOCAL, 0), (STB_GLOBAL, 1), (STB_WEAK, 2), (STB_STB_GNU_UNIQUE, 10)]"

datatype symbol_vis =
    STV_DEFAULT | STV_INTERNAL | STV_HIDDEN | STV_PROTECTED

definition symbol_vis_table :: "(symbol_vis \<times> u8) list" where
  "symbol_vis_table = [
    (STV_DEFAULT, 0), (STV_INTERNAL, 1), (STV_HIDDEN, 2), (STV_PROTECTED, 3)]"

section \<open>Segment types\<close>

datatype segment_type =
    PT_NULL | PT_LOAD | PT_DYNAMIC | PT_INTERP | PT_NOTE | PT_SHLIB | PT_PHDR | PT_TLS | PT_NUM
  | PT_GNU_EH_FRAME | PT_GNU_STACK | PT_GNU_RELRO | PT_GNU_WHATEVER | PT_PAX_FLAGS
  | PT_SUNWBSS | PT_SUNWSTACK | PT_CPU0 | PT_CPU1 | PT_CPU2 | PT_CPU3

definition segment_type_table :: "(segment_type \<times> u32) list" where
  "segment_type_table = [
    (PT_NULL, 0), (PT_LOAD, 1), (PT_DYNAMIC, 2), (PT_INTERP, 3), (PT_NOTE, 4), (PT_SHLIB, 5),
    (PT_PHDR, 6), (PT_TLS, 7), (PT_NUM, 8), (PT_GNU_EH_FRAME, 1685382480),
    (PT_GNU_STACK, 1685382481), (PT_GNU_RELRO, 1685382482), (PT_GNU_WHATEVER, 1685382483),
    (PT_PAX_FLAGS, 1694766464), (PT_SUNWBSS, 1879048186), (PT_SUNWSTACK, 1879048187),
    (PT_CPU0, 1879048192), (PT_CPU1, 1879048193), (PT_CPU2, 1879048194),
    (PT_CPU3, 1879048195)]"

section \<open>The enums keep their contract\<close>

interpretation endianness: primitive_enum endianness_table "\<lambda>_. True"
proof unfold_locales
  fix e show "True \<longleftrightarrow> e \<in> fst ` set endianness_table"
    by (cases e) (simp_all add: endianness_table_def)
qed (simp_all add: endianness_table_def)

interpretation elf_class: primitive_enum class_table "\<lambda>_. True"
proof unfold_locales
  fix e show "True \<longleftrightarrow> e \<in> fst ` set class_table"
    by (cases e) (simp_all add: class_table_def)
qed (simp_all add: class_table_def)

interpretation abi: primitive_enum abi_table "\<lambda>_. True"
proof unfold_locales
  fix e show "True \<longleftrightarrow> e \<in> fst ` set abi_table"
    by (cases e) (simp_all add: abi_table_def)
qed (simp_all add: abi_table_def)

interpretation elf_type: primitive_enum elf_type_table "\<lambda>_. True"
proof unfold_locales
  fix e show "True \<longleftrightarrow> e \<in> fst ` set elf_type_table"
    by (cases e) (simp_all add: elf_type_table_def)
qed (simp_all add: elf_type_table_def)

interpretation symbol_type: primitive_enum symbol_type_table "\<lambda>_. True"
proof unfold_locales
  fix e show "True \<longleftrightarrow> e \<in> fst ` set symbol_type_table"
    by (cases e) (simp_all add: symbol_type_table_def)
qed (simp_all add: symbol_type_table_def)

interpretation symbol_bind: primitive_enum symbol_bind_table "\<lambda>_. True"
proof unfold_locales
  fix e show "True \<longleftrightarrow> e \<in> fst ` set symbol_bind_table"
    by (cases e) (simp_all add: symbol_bind_table_def)
qed (simp_all add: symbol_bind_table_def)

interpretation symbol_vis: primitive_enum symbol_vis_table "\<lambda>_. True"
proof unfold_locales
  fix e show "True \<longleftrightarrow> e \<in> fst ` set symbol_vis_table"
    by (cases e) (simp_all add: symbol_vis_table_def)
qed (simp_all add: symbol_vis_table_def)

interpretation segment_type: primitive_enum segment_type_table "\<lambda>_. True"
proof unfold_locales
  fix e show "True \<longleftrightarrow> e \<in> fst ` set segment_type_table"
    by (cases e) (simp_all add: segment_type_table_def)
qed (simp_all add: segment_type_table_def)

text \<open>\<open>SymbolBind\<close> derives \<open>Ord\<close>: variants compare by their position in the declaration.\<close>

instantiation symbol_bind :: linorder
begin

definition less_eq_symbol_bind :: "symbol_bind \<Rightarrow> symbol_bind \<Rightarrow> bool" where
  "a \<le> b \<longleftrightarrow> to_prim symbol_bind_table a \<le> to_prim symbol_bind_table b"

definition less_symbol_bind :: "symbol_bind \<Rightarrow> symbol_bind \<Rightarrow> bool" where
  "a < b \<longleftrightarrow> to_prim symbol_bind_table a < to_prim symbol_bind_table b"

instance
proof
  fix a b :: symbol_bind
  assume "a \<le> b" "b \<le> a"
  then have "to_prim symbol_bind_table a = to_prim symbol_bind_table b"
    by (simp add: less_eq_symbol_bind_def)
  then show "a = b" by (intro symbol_bind.to_prim_inj) simp_all
qed (auto simp: less_eq_symbol_bind_def less_symbol_bind_def)

end

end
