(* ===== verification/ElfRead.thy ===== *)
theory ElfRead
  imports ElfTypes
begin

text \<open>
  The endian- and class-dependent reads of \<open>src/elfkit/utils.rs\<close>. The crate \<open>byteorder\<close>, which
  decodes the bytes of an integer, is not part of the repository: its six decoding functions are
  the parameter \<open>bo\<close>, and \<open>byteorder_ok bo\<close> states what its documentation promises of them. The
  functions below dispatch on the endianness and the class of the header, as the trait
  \<open>ElfEndianReadExt\<close> and the macros \<open>elf_read_*\<close> and \<open>elf_dispatch_*\<close> do.
\<close>

section \<open>The byteorder crate\<close>

record byteorder =
  bo_le_u16 :: "bytes \<Rightarrow> u16"
  bo_be_u16 :: "bytes \<Rightarrow> u16"
  bo_le_u32 :: "bytes \<Rightarrow> u32"
  bo_be_u32 :: "bytes \<Rightarrow> u32"
  bo_le_u64 :: "bytes \<Rightarrow> u64"
  bo_be_u64 :: "bytes \<Rightarrow> u64"

definition byteorder_ok :: "byteorder \<Rightarrow> bool" where
  "byteorder_ok bo \<longleftrightarrow>
    (\<forall>b. length b = 2 \<longrightarrow> bo_le_u16 bo b = of_nat (le_nat b) \<and> bo_be_u16 bo b = of_nat (le_nat (rev b))) \<and>
    (\<forall>b. length b = 4 \<longrightarrow> bo_le_u32 bo b = of_nat (le_nat b) \<and> bo_be_u32 bo b = of_nat (le_nat (rev b))) \<and>
    (\<forall>b. length b = 8 \<longrightarrow> bo_le_u64 bo b = of_nat (le_nat b) \<and> bo_be_u64 bo b = of_nat (le_nat (rev b)))"

text \<open>A concrete instance of the documented behaviour, for evaluation.\<close>

definition byteorder_std :: byteorder where
  "byteorder_std = \<lparr>
    bo_le_u16 = (\<lambda>b. of_nat (le_nat b)), bo_be_u16 = (\<lambda>b. of_nat (le_nat (rev b))),
    bo_le_u32 = (\<lambda>b. of_nat (le_nat b)), bo_be_u32 = (\<lambda>b. of_nat (le_nat (rev b))),
    bo_le_u64 = (\<lambda>b. of_nat (le_nat b)), bo_be_u64 = (\<lambda>b. of_nat (le_nat (rev b)))\<rparr>"

lemma byteorder_std_ok: "byteorder_ok byteorder_std"
  by (simp add: byteorder_ok_def byteorder_std_def)

section \<open>Reads\<close>

definition elf_read_u16 :: "byteorder \<Rightarrow> endianness \<Rightarrow> (io_error, u16) reader" where
  "elf_read_u16 bo e = rd_bind (read_exact 2) (\<lambda>b. rd_return
    (case e of LittleEndian \<Rightarrow> bo_le_u16 bo b | BigEndian \<Rightarrow> bo_be_u16 bo b))"

definition elf_read_u32 :: "byteorder \<Rightarrow> endianness \<Rightarrow> (io_error, u32) reader" where
  "elf_read_u32 bo e = rd_bind (read_exact 4) (\<lambda>b. rd_return
    (case e of LittleEndian \<Rightarrow> bo_le_u32 bo b | BigEndian \<Rightarrow> bo_be_u32 bo b))"

definition elf_read_u64 :: "byteorder \<Rightarrow> endianness \<Rightarrow> (io_error, u64) reader" where
  "elf_read_u64 bo e = rd_bind (read_exact 8) (\<lambda>b. rd_return
    (case e of LittleEndian \<Rightarrow> bo_le_u64 bo b | BigEndian \<Rightarrow> bo_be_u64 bo b))"

definition elf_read_uclass :: "byteorder \<Rightarrow> endianness \<Rightarrow> elf_class \<Rightarrow> (io_error, u64) reader" where
  "elf_read_uclass bo e c = (case c of
      Class32 \<Rightarrow> rd_bind (elf_read_u32 bo e) (\<lambda>v. rd_return (ucast v))
    | Class64 \<Rightarrow> elf_read_u64 bo e)"

section \<open>Widths and totality\<close>

definition uclass_size :: "elf_class \<Rightarrow> nat" where
  "uclass_size c = (case c of Class32 \<Rightarrow> 4 | Class64 \<Rightarrow> 8)"

lemma elf_read_width [width_intros]:
  "fixed_width (elf_read_u16 bo e) 2"
  "fixed_width (elf_read_u32 bo e) 4"
  "fixed_width (elf_read_u64 bo e) 8"
  by (simp_all add: elf_read_u16_def elf_read_u32_def elf_read_u64_def
      fixed_width_map_map fixed_width_basic)

lemma elf_read_uclass_width [width_intros]: "fixed_width (elf_read_uclass bo e c) (uclass_size c)"
  by (cases c) (simp_all add: elf_read_uclass_def uclass_size_def fixed_width_map_map elf_read_width)

lemma elf_read_total [total_intros]:
  "total_reader (elf_read_u16 bo e)"
  "total_reader (elf_read_u32 bo e)"
  "total_reader (elf_read_u64 bo e)"
  "total_reader (elf_read_uclass bo e c)"
  by (auto simp: elf_read_u16_def elf_read_u32_def elf_read_u64_def elf_read_uclass_def
      intro!: total_intros split: elf_class.splits)

section \<open>Encodings of integers\<close>

definition in_order :: "endianness \<Rightarrow> bytes \<Rightarrow> bytes" where
  "in_order e b = (case e of LittleEndian \<Rightarrow> b | BigEndian \<Rightarrow> rev b)"

definition enc_u16 :: "endianness \<Rightarrow> u16 \<Rightarrow> bytes" where
  "enc_u16 e w = in_order e (to_le 2 (unat w))"

definition enc_u32 :: "endianness \<Rightarrow> u32 \<Rightarrow> bytes" where
  "enc_u32 e w = in_order e (to_le 4 (unat w))"

definition enc_u64 :: "endianness \<Rightarrow> u64 \<Rightarrow> bytes" where
  "enc_u64 e w = in_order e (to_le 8 (unat w))"

definition enc_uclass :: "endianness \<Rightarrow> elf_class \<Rightarrow> u64 \<Rightarrow> bytes" where
  "enc_uclass e c w = (case c of Class32 \<Rightarrow> enc_u32 e (ucast w) | Class64 \<Rightarrow> enc_u64 e w)"

definition fits_class :: "elf_class \<Rightarrow> u64 \<Rightarrow> bool" where
  "fits_class c w \<longleftrightarrow> (c = Class32 \<longrightarrow> unat w < 2 ^ 32)"

lemma length_in_order [simp]: "length (in_order e b) = length b"
  by (cases e) (simp_all add: in_order_def)

lemma length_enc [simp]:
  "length (enc_u16 e w16) = 2" "length (enc_u32 e w32) = 4" "length (enc_u64 e w64) = 8"
  "length (enc_uclass e c w) = uclass_size c"
  by (simp_all add: enc_u16_def enc_u32_def enc_u64_def enc_uclass_def uclass_size_def
      split: elf_class.splits)

lemma of_nat_le_nat_to_le:
  "256 ^ k = (2::nat) ^ LENGTH('w) \<Longrightarrow> of_nat (le_nat (to_le k (unat w))) = (w :: 'w::len word)"
proof -
  assume k: "256 ^ k = (2::nat) ^ LENGTH('w)"
  have "unat w < 2 ^ LENGTH('w)" by (rule unsigned_less)
  then have "unat w mod 256 ^ k = unat w" by (simp only: k mod_less)
  then show ?thesis by (simp add: le_nat_to_le)
qed

lemma elf_read_enc:
  assumes "byteorder_ok bo"
  shows "elf_read_u16 bo e (enc_u16 e w16 @ rest) = Inr (w16, rest)"
    and "elf_read_u32 bo e (enc_u32 e w32 @ rest) = Inr (w32, rest)"
    and "elf_read_u64 bo e (enc_u64 e w64 @ rest) = Inr (w64, rest)"
  using assms
  by (cases e; simp add: byteorder_ok_def elf_read_u16_def elf_read_u32_def elf_read_u64_def
      rd_bind_apply enc_u16_def enc_u32_def enc_u64_def in_order_def of_nat_le_nat_to_le)+

lemma ucast_ucast_32: "unat (w :: u64) < 2 ^ 32 \<Longrightarrow> ucast (ucast w :: u32) = w"
  by (rule word_unat_eq_iff[THEN iffD2]) (simp add: unsigned_ucast_eq unsigned_take_bit_eq take_bit_nat_eq_self)

lemma elf_read_uclass_enc:
  assumes "byteorder_ok bo" and "fits_class c w"
  shows "elf_read_uclass bo e c (enc_uclass e c w @ rest) = Inr (w, rest)"
  using assms
  by (cases c) (simp_all add: elf_read_uclass_def enc_uclass_def elf_read_enc rd_bind_apply
      fits_class_def ucast_ucast_32)

lemma elf_read_uclass_fits: "elf_read_uclass bo e c bs = Inr (w, r) \<Longrightarrow> fits_class c w"
proof (cases c)
  case Class32
  assume "elf_read_uclass bo e c bs = Inr (w, r)"
  with Class32 obtain v :: u32 where "w = ucast v"
    by (auto simp: elf_read_uclass_def rd_bind_eq_Inr)
  moreover have "unat v < 2 ^ 32" using unsigned_less[of v] by simp
  ultimately show ?thesis
    by (simp add: fits_class_def unsigned_ucast_eq unsigned_take_bit_eq take_bit_nat_eq_self)
qed (simp add: fits_class_def)

end
