(* ===== verification/ElfMachines.thy ===== *)
theory ElfMachines
  imports Primitive
begin

text \<open>
  The enum \<open>Machine\<close> of \<open>src/elfkit/types.rs\<close>. The program parses and stores its 178 variants and
  compares none of them, so a variant is represented by its discriminant; \<open>machine_variants\<close> is
  the declaration, and \<open>machine_variant\<close> singles out the values it declares.
\<close>

datatype machine = Machine u16

definition machine_variants_low :: "(string \<times> u16) list" where
  "machine_variants_low = [
    (''NONE'', 0), (''M32'', 1), (''SPARC'', 2), (''EM386'', 3), (''EM68K'', 4),
    (''EM88K'', 5), (''IAMCU'', 6), (''EM860'', 7), (''MIPS'', 8), (''S370'', 9),
    (''MIPS_RS3_LE'', 10), (''PARISC'', 15), (''VPP500'', 17), (''SPARC32PLUS'', 18),
    (''EM960'', 19), (''PPC'', 20), (''PPC64'', 21), (''S390'', 22), (''SPU'', 23),
    (''V800'', 36), (''FR20'', 37), (''RH32'', 38), (''RCE'', 39), (''ARM'', 40),
    (''FAKE_ALPHA'', 41), (''SH'', 42), (''SPARCV9'', 43), (''TRICORE'', 44), (''ARC'', 45),
    (''H8_300'', 46), (''H8_300H'', 47), (''H8S'', 48), (''H8_500'', 49), (''IA_64'', 50),
    (''MIPS_X'', 51), (''COLDFIRE'', 52), (''EM68HC12'', 53), (''MMA'', 54), (''PCP'', 55),
    (''NCPU'', 56), (''NDR1'', 57), (''STARCORE'', 58), (''ME16'', 59), (''ST100'', 60),
    (''TINYJ'', 61), (''X86_64'', 62), (''PDSP'', 63), (''PDP10'', 64), (''PDP11'', 65),
    (''FX66'', 66), (''ST9PLUS'', 67), (''ST7'', 68), (''EM68HC16'', 69), (''EM68HC11'', 70),
    (''EM68HC08'', 71), (''EM68HC05'', 72), (''SVX'', 73), (''ST19'', 74), (''VAX'', 75)]"

definition machine_variants_mid :: "(string \<times> u16) list" where
  "machine_variants_mid = [
    (''CRIS'', 76), (''JAVELIN'', 77), (''FIREPATH'', 78), (''ZSP'', 79), (''MMIX'', 80),
    (''HUANY'', 81), (''PRISM'', 82), (''AVR'', 83), (''FR30'', 84), (''D10V'', 85),
    (''D30V'', 86), (''V850'', 87), (''M32R'', 88), (''MN10300'', 89), (''MN10200'', 90),
    (''PJ'', 91), (''OPENRISC'', 92), (''ARC_COMPACT'', 93), (''XTENSA'', 94),
    (''VIDEOCORE'', 95), (''TMM_GPP'', 96), (''NS32K'', 97), (''TPC'', 98), (''SNP1K'', 99),
    (''ST200'', 100), (''IP2K'', 101), (''MAX'', 102), (''CR'', 103), (''F2MC16'', 104),
    (''MSP430'', 105), (''BLACKFIN'', 106), (''SE_C33'', 107), (''SEP'', 108), (''ARCA'', 109),
    (''UNICORE'', 110), (''EXCESS'', 111), (''DXP'', 112), (''ALTERA_NIOS2'', 113),
    (''CRX'', 114), (''XGATE'', 115), (''C166'', 116), (''M16C'', 117), (''DSPIC30F'', 118),
    (''CE'', 119), (''M32C'', 120), (''TSK3000'', 131), (''RS08'', 132), (''SHARC'', 133),
    (''ECOG2'', 134), (''SCORE7'', 135), (''DSP24'', 136), (''VIDEOCORE3'', 137),
    (''LATTICEMIC32'', 138), (''SE_C17'', 139), (''TI_C6000'', 140), (''TI_C2000'', 141),
    (''TI_C5500'', 142), (''TI_ARP32'', 143), (''TI_PRU'', 144), (''MMDSP_PLUS'', 160)]"

definition machine_variants_high :: "(string \<times> u16) list" where
  "machine_variants_high = [
    (''CYPRESS_M8C'', 161), (''R32C'', 162), (''TRIMEDIA'', 163), (''QDSP6'', 164),
    (''EM8051'', 165), (''STXP7X'', 166), (''NDS32'', 167), (''ECOG1X'', 168),
    (''MAXQ30'', 169), (''XIMO16'', 170), (''MANIK'', 171), (''CRAYNV2'', 172), (''RX'', 173),
    (''METAG'', 174), (''MCST_ELBRUS'', 175), (''ECOG16'', 176), (''CR16'', 177),
    (''ETPU'', 178), (''SLE9X'', 179), (''L10M'', 180), (''K10M'', 181), (''AARCH64'', 183),
    (''AVR32'', 185), (''STM8'', 186), (''TILE64'', 187), (''TILEPRO'', 188),
    (''MICROBLAZE'', 189), (''CUDA'', 190), (''TILEGX'', 191), (''CLOUDSHIELD'', 192),
    (''COREA_1ST'', 193), (''COREA_2ND'', 194), (''ARC_COMPACT2'', 195), (''OPEN8'', 196),
    (''RL78'', 197), (''VIDEOCORE5'', 198), (''EM78KOR'', 199), (''EM56800EX'', 200),
    (''BA1'', 201), (''BA2'', 202), (''XCORE'', 203), (''MCHP_PIC'', 204), (''KM32'', 210),
    (''KMX32'', 211), (''EMX16'', 212), (''EMX8'', 213), (''KVARC'', 214), (''CDP'', 215),
    (''COGE'', 216), (''COOL'', 217), (''NORC'', 218), (''CSR_KALIMBA'', 219), (''Z80'', 220),
    (''VISIUM'', 221), (''FT32'', 222), (''MOXIE'', 223), (''AMDGPU'', 224), (''RISCV'', 243),
    (''BPF'', 247)]"

definition machine_variants :: "(string \<times> u16) list" where
  "machine_variants = machine_variants_low @ machine_variants_mid @ machine_variants_high"

lemmas machine_variants_defs =
  machine_variants_def machine_variants_low_def machine_variants_mid_def machine_variants_high_def

definition machine_table :: "(machine \<times> u16) list" where
  "machine_table = map (\<lambda>(n, d). (Machine d, d)) machine_variants"

definition machine_variant :: "machine \<Rightarrow> bool" where
  "machine_variant t \<longleftrightarrow> t \<in> fst ` set machine_table"

lemma machine_ascending: "ascending (map snd machine_variants)"
  by (simp add: machine_variants_defs)

lemma machine_table_fst: "map fst machine_table = map Machine (map snd machine_variants)"
  and machine_table_snd: "map snd machine_table = map snd machine_variants"
  by (simp_all add: machine_table_def comp_def case_prod_beta)

interpretation machine: primitive_enum machine_table machine_variant
proof unfold_locales
  show "distinct (map snd machine_table)"
    unfolding machine_table_snd by (rule ascending_distinct[OF machine_ascending])
  show "distinct (map fst machine_table)"
    unfolding machine_table_fst
    by (rule distinct_newtype[OF _ ascending_distinct[OF machine_ascending]]) (simp add: inj_def)
qed (simp add: machine_variant_def)

lemma machine_table_mem: "(Machine d, d) \<in> set machine_table \<longleftrightarrow> d \<in> snd ` set machine_variants"
  unfolding machine_table_def by (force simp: image_iff)

lemma from_prim_machine:
  "from_prim machine_table d =
    (if d \<in> snd ` set machine_variants then Some (Machine d) else None)"
proof (cases "d \<in> snd ` set machine_variants")
  case True
  then have "(Machine d, d) \<in> set machine_table" by (simp only: machine_table_mem)
  with True show ?thesis by (simp only: machine.from_prim_mem if_True)
next
  case False
  then have "d \<notin> snd ` set machine_table"
    by (simp only: set_map[symmetric] machine_table_snd) simp
  with False show ?thesis by (simp only: machine.from_eq_None if_False simp_thms)
qed

end
