(* ===== verification/DynamicTypes.thy ===== *)
theory DynamicTypes
  imports Primitive
begin

text \<open>
  The enum \<open>DynamicType\<close> of \<open>src/elfkit/types.rs\<close>: the tags of the entries of a dynamic section.
  A variant is represented by its discriminant; \<open>dynamic_type_variants\<close> is the declaration.
\<close>

datatype dynamic_type = DynamicType u64

definition dynamic_type_variants :: "(string \<times> u64) list" where
  "dynamic_type_variants = [
    (''NULL'', 0), (''NEEDED'', 1), (''PLTRELSZ'', 2), (''PLTGOT'', 3), (''HASH'', 4),
    (''STRTAB'', 5), (''SYMTAB'', 6), (''RELA'', 7), (''RELASZ'', 8), (''RELAENT'', 9),
    (''STRSZ'', 10), (''SYMENT'', 11), (''INIT'', 12), (''FINI'', 13), (''SONAME'', 14),
    (''RPATH'', 15), (''SYMBOLIC'', 16), (''REL'', 17), (''RELSZ'', 18), (''RELENT'', 19),
    (''PLTREL'', 20), (''DEBUG'', 21), (''TEXTREL'', 22), (''JMPREL'', 23), (''BIND_NOW'', 24),
    (''INIT_ARRAY'', 25), (''FINI_ARRAY'', 26), (''INIT_ARRAYSZ'', 27), (''FINI_ARRAYSZ'', 28),
    (''RUNPATH'', 29), (''FLAGS'', 30), (''PREINIT_ARRAY'', 32), (''PREINIT_ARRAYSZ'', 33),
    (''NUM'', 34), (''UNKNOWN'', 65535), (''GNU_PRELINKED'', 1879047669),
    (''GNU_CONFLICTSZ'', 1879047670), (''GNU_LIBLISTSZ'', 1879047671),
    (''CHECKSUM'', 1879047672), (''PLTPADSZ'', 1879047673), (''MOVEENT'', 1879047674),
    (''MOVESZ'', 1879047675), (''FEATURE_1'', 1879047676), (''POSFLAG_1'', 1879047677),
    (''SYMINSZ'', 1879047678), (''SYMINENT'', 1879047679), (''GNU_HASH'', 1879047925),
    (''TLSDESC_PLT'', 1879047926), (''TLSDESC_GOT'', 1879047927),
    (''GNU_CONFLICT'', 1879047928), (''GNU_LIBLIST'', 1879047929), (''CONFIG'', 1879047930),
    (''DEPAUDIT'', 1879047931), (''AUDIT'', 1879047932), (''PLTPAD'', 1879047933),
    (''MOVETAB'', 1879047934), (''SYMINFO'', 1879047935), (''VERSYM'', 1879048176),
    (''RELACOUNT'', 1879048185), (''RELCOUNT'', 1879048186), (''FLAGS_1'', 1879048187),
    (''VERDEF'', 1879048188), (''VERDEFNUM'', 1879048189), (''VERNEED'', 1879048190),
    (''VERNEEDNUM'', 1879048191), (''PPC64_GLINK'', 1879048192),
    (''MIPS_RLD_VERSION'', 1879048193), (''MIPS_TIME_STAMP'', 1879048194),
    (''MIPS_ICHECKSUM'', 1879048195), (''MIPS_IVERSION'', 1879048196),
    (''MIPS_FLAGS'', 1879048197), (''MIPS_BASE_ADDRESS'', 1879048198),
    (''MIPS_CONFLICT'', 1879048200), (''MIPS_LIBLIST'', 1879048201),
    (''MIPS_LOCAL_GOTNO'', 1879048202), (''MIPS_CONFLICTNO'', 1879048203),
    (''MIPS_LIBLISTNO'', 1879048208), (''MIPS_SYMTABNO'', 1879048209),
    (''MIPS_UNREFEXTNO'', 1879048210), (''MIPS_GOTSYM'', 1879048211),
    (''MIPS_HIPAGENO'', 1879048212), (''MIPS_RLD_MAP'', 1879048214),
    (''MIPS_RLD_MAP_REL'', 1879048245), (''AUXILIARY'', 2147483645), (''FILTER'', 2147483647)]"

definition dynamic_type_table :: "(dynamic_type \<times> u64) list" where
  "dynamic_type_table = map (\<lambda>(n, d). (DynamicType d, d)) dynamic_type_variants"

definition dynamic_type_variant :: "dynamic_type \<Rightarrow> bool" where
  "dynamic_type_variant t \<longleftrightarrow> t \<in> fst ` set dynamic_type_table"

text \<open>The tags the reader of dynamic sections and the dependency search name.\<close>

definition DT_NULL :: dynamic_type where "DT_NULL = DynamicType 0"
definition DT_NEEDED :: dynamic_type where "DT_NEEDED = DynamicType 1"
definition DT_RPATH :: dynamic_type where "DT_RPATH = DynamicType 15"
definition DT_RUNPATH :: dynamic_type where "DT_RUNPATH = DynamicType 29"
definition DT_FLAGS_1 :: dynamic_type where "DT_FLAGS_1 = DynamicType 1879048187"
definition DT_UNKNOWN :: dynamic_type where "DT_UNKNOWN = DynamicType 65535"

lemmas DT_defs = DT_NULL_def DT_NEEDED_def DT_RPATH_def DT_RUNPATH_def DT_FLAGS_1_def DT_UNKNOWN_def

lemma dynamic_type_ascending: "ascending (map snd dynamic_type_variants)"
  by (simp add: dynamic_type_variants_def)

lemma dynamic_type_table_fst: "map fst dynamic_type_table = map DynamicType (map snd dynamic_type_variants)"
  and dynamic_type_table_snd: "map snd dynamic_type_table = map snd dynamic_type_variants"
  by (simp_all add: dynamic_type_table_def comp_def case_prod_beta)

interpretation dynamic_type: primitive_enum dynamic_type_table dynamic_type_variant
proof unfold_locales
  show "distinct (map snd dynamic_type_table)"
    unfolding dynamic_type_table_snd by (rule ascending_distinct[OF dynamic_type_ascending])
  show "distinct (map fst dynamic_type_table)"
    unfolding dynamic_type_table_fst
    by (rule distinct_newtype[OF _ ascending_distinct[OF dynamic_type_ascending]]) (simp add: inj_def)
qed (simp add: dynamic_type_variant_def)

lemma dynamic_type_table_mem: "(DynamicType d, d) \<in> set dynamic_type_table \<longleftrightarrow> d \<in> snd ` set dynamic_type_variants"
  unfolding dynamic_type_table_def by (force simp: image_iff)

lemma from_prim_dynamic_type:
  "from_prim dynamic_type_table d =
    (if d \<in> snd ` set dynamic_type_variants then Some (DynamicType d) else None)"
proof (cases "d \<in> snd ` set dynamic_type_variants")
  case True
  then have "(DynamicType d, d) \<in> set dynamic_type_table" by (simp only: dynamic_type_table_mem)
  with True show ?thesis by (simp only: dynamic_type.from_prim_mem if_True)
next
  case False
  then have "d \<notin> snd ` set dynamic_type_table"
    by (simp only: set_map[symmetric] dynamic_type_table_snd) simp
  with False show ?thesis by (simp only: dynamic_type.from_eq_None if_False simp_thms)
qed

end
