(* ===== verification/ElfData.thy ===== *)
theory ElfData
  imports ElfRead ElfMachines DynamicTypes
begin

text \<open>
  The data of the ELF reader: string tables (\<open>strtab.rs\<close>), dynamic entries (\<open>dynamic.rs\<close>),
  section contents and sections (\<open>section.rs\<close>), the error type (\<open>error.rs\<close>), the file header
  (\<open>header.rs\<close>), segment headers (\<open>segment.rs\<close>) and a whole file (\<open>elf.rs\<close>). Record fields carry
  the customary prefixes of the ELF structures, because the source reuses names between structs.
\<close>

section \<open>Contents\<close>

text \<open>The field \<open>hash\<close> of \<open>Strtab\<close> is written as \<open>None\<close> and never read.\<close>

datatype strtab = Strtab (strtab_hash: "(bytes \<rightharpoonup> nat) option") (strtab_data: bytes)

datatype dynamic_content =
    DC_None
  | DC_String bytes "u64 option"
  | DC_Address u64
  | DC_Flags1 u64

record dynamic =
  dhtype :: dynamic_type
  dcontent :: dynamic_content

datatype section_content =
    SC_None
  | Unloaded
  | SC_Dynamic "dynamic list"
  | SC_Strtab strtab

fun as_dynamic :: "section_content \<Rightarrow> dynamic list option" where
  "as_dynamic (SC_Dynamic v) = Some v"
| "as_dynamic _ = None"

fun as_strtab :: "section_content \<Rightarrow> strtab option" where
  "as_strtab (SC_Strtab v) = Some v"
| "as_strtab _ = None"

section \<open>Errors\<close>

datatype elf_error =
    Io io_error
  | InvalidMagic
  | InvalidIdentClass u8
  | InvalidEndianness u8
  | InvalidIdentVersion u8
  | InvalidVersion u32
  | InvalidAbi u8
  | InvalidElfType u16
  | InvalidMachineType u16
  | InvalidHeaderFlags u32
  | InvalidSectionFlags u64
  | InvalidSegmentType u32
  | InvalidSectionType u32
  | UnsupportedMachineTypeForRelocation machine
  | InvalidSymbolType u8
  | InvalidSymbolBind u8
  | InvalidSymbolVis u8
  | InvalidDynamicType u64
  | MissingShstrtabSection
  | LinkedSectionIsNotStrtab string "section_content option"
  | InvalidDynamicFlags1 u64
  | FirstSectionOffsetCanNotBeLargerThanAddress
  | MissingSymtabSection
  | LinkedSectionIsNotSymtab
  | UnexpectedSectionContent
  | InvalidSymbolShndx string u16
  | DynsymInStaticLibrary
  | SymbolSectionIndexExtendedCannotBeWritten
  | WritingNotSynced
  | SyncingUnloadedSection
  | WritingUnloadedSection
  | NoSymbolsInObject
  | MultipleSymbolSections
  | ConflictingSymbol string string string string string
  | UndefinedReference string string
  | MovingLockedSection string u64 u64 string

text \<open>\<open>?\<close> on an \<open>io::Result\<close> in a function that returns this error type.\<close>

abbreviation io :: "(io_error, 'a) reader \<Rightarrow> (elf_error, 'a) reader" where
  "io \<equiv> rd_map_fail Io"

lemma rd_bind_io_enc:
  assumes "byteorder_ok bo"
  shows "rd_bind (io (elf_read_u16 bo e)) k (enc_u16 e w16 @ rest) = k w16 rest"
    and "rd_bind (io (elf_read_u32 bo e)) k' (enc_u32 e w32 @ rest) = k' w32 rest"
    and "rd_bind (io (elf_read_u64 bo e)) k'' (enc_u64 e w64 @ rest) = k'' w64 rest"
    and "fits_class c w \<Longrightarrow>
      rd_bind (io (elf_read_uclass bo e c)) k'' (enc_uclass e c w @ rest) = k'' w rest"
  by (simp_all add: rd_bind_apply rd_map_fail_def elf_read_enc[OF assms]
      elf_read_uclass_enc[OF assms])

section \<open>Headers\<close>

record header =
  ident_magic :: bytes
  ident_class :: elf_class
  ident_endianness :: endianness
  ident_version :: u8
  ident_abi :: abi
  ident_abiversion :: u8
  e_type :: elf_type
  e_machine :: machine
  e_version :: u32
  e_entry :: u64
  e_phoff :: u64
  e_shoff :: u64
  e_flags :: u32
  e_ehsize :: u16
  e_phentsize :: u16
  e_phnum :: u16
  e_shentsize :: u16
  e_shnum :: u16
  e_shstrndx :: u16

definition elf_magic :: bytes where "elf_magic = [0x7F, 0x45, 0x4c, 0x46]"

definition header_default :: header where
  "header_default = \<lparr>
    ident_magic = elf_magic, ident_class = Class64, ident_endianness = LittleEndian,
    ident_version = 1, ident_abi = ABI_SYSV, ident_abiversion = 0,
    e_type = ET_NONE, e_machine = Machine 0, e_version = 1, e_entry = 0, e_phoff = 0, e_shoff = 0,
    e_flags = 0, e_ehsize = 0, e_phentsize = 0, e_phnum = 0, e_shentsize = 0, e_shnum = 0,
    e_shstrndx = 0\<rparr>"

record segment_header =
  p_type :: segment_type
  p_flags :: u64
  p_offset :: u64
  p_vaddr :: u64
  p_paddr :: u64
  p_filesz :: u64
  p_memsz :: u64
  p_align :: u64

record section_header =
  sh_name :: u32
  sh_type :: section_type
  sh_flags :: u64
  sh_addr :: u64
  sh_offset :: u64
  sh_size :: u64
  sh_link :: u32
  sh_info :: u32
  sh_addralign :: u64
  sh_entsize :: u64

definition section_header_default :: section_header where
  "section_header_default = \<lparr>
    sh_name = 0, sh_type = SHT_NULL, sh_flags = 0, sh_addr = 0, sh_offset = 0, sh_size = 0,
    sh_link = 0, sh_info = 0, sh_addralign = 0, sh_entsize = 0\<rparr>"

section \<open>Sections and files\<close>

record elf_section =
  sec_header :: section_header
  sec_name :: bytes
  sec_content :: section_content
  sec_addrlock :: bool

definition section_default :: elf_section where
  "section_default = \<lparr>sec_header = section_header_default, sec_name = [], sec_content = SC_None,
    sec_addrlock = False\<rparr>"

record elf =
  elf_header :: header
  elf_segments :: "segment_header list"
  elf_sections :: "elf_section list"

end
