(* ===== verification/ElfTables.thy ===== *)
theory ElfTables
  imports ElfData
begin

text \<open>
  The entries of the program header table (\<open>src/elfkit/segment.rs\<close>) and of the section header
  table (\<open>src/elfkit/section.rs\<close>), their layout in the ELF specification, and the contracts
  \<open>fixed_width\<close> and \<open>codec\<close> that the table reader of \<open>elf.rs\<close> relies on.
\<close>

section \<open>Segment headers\<close>

definition segment_header_from_reader ::
  "byteorder \<Rightarrow> header \<Rightarrow> (elf_error, segment_header) reader" where
  "segment_header_from_reader bo eh =
    (let e = ident_endianness eh; u32 = io (elf_read_u32 bo e); u64 = io (elf_read_u64 bo e);
         u32_64 = rd_bind u32 (\<lambda>v. rd_return (ucast v))
     in rd_bind u32 (\<lambda>reb.
        rd_bind (rd_option (InvalidSegmentType reb) (from_prim segment_type_table reb)) (\<lambda>ty.
        case ident_class eh of
          Class64 \<Rightarrow>
            rd_bind u32_64 (\<lambda>fl.
            rd_bind u64 (\<lambda>off. rd_bind u64 (\<lambda>va. rd_bind u64 (\<lambda>pa.
            rd_bind u64 (\<lambda>fsz. rd_bind u64 (\<lambda>msz. rd_bind u64 (\<lambda>al.
            rd_return \<lparr>p_type = ty, p_flags = from_bits_truncate segment_flags fl, p_offset = off,
              p_vaddr = va, p_paddr = pa, p_filesz = fsz, p_memsz = msz, p_align = al\<rparr>)))))))
        | Class32 \<Rightarrow>
            rd_bind u32_64 (\<lambda>off. rd_bind u32_64 (\<lambda>va. rd_bind u32_64 (\<lambda>pa.
            rd_bind u32_64 (\<lambda>fsz. rd_bind u32_64 (\<lambda>msz.
            rd_bind u32_64 (\<lambda>fl.
            rd_bind u32_64 (\<lambda>al.
            rd_return \<lparr>p_type = ty, p_flags = from_bits_truncate segment_flags fl, p_offset = off,
              p_vaddr = va, p_paddr = pa, p_filesz = fsz, p_memsz = msz, p_align = al\<rparr>))))))))))"

definition encode_segment_header :: "header \<Rightarrow> segment_header \<Rightarrow> bytes" where
  "encode_segment_header eh p =
    (let e = ident_endianness eh; w32 = (\<lambda>v. enc_u32 e (ucast v))
     in enc_u32 e (to_prim segment_type_table (p_type p)) @
        (case ident_class eh of
          Class64 \<Rightarrow> w32 (p_flags p) @ enc_u64 e (p_offset p) @ enc_u64 e (p_vaddr p) @
            enc_u64 e (p_paddr p) @ enc_u64 e (p_filesz p) @ enc_u64 e (p_memsz p) @
            enc_u64 e (p_align p)
        | Class32 \<Rightarrow> w32 (p_offset p) @ w32 (p_vaddr p) @ w32 (p_paddr p) @ w32 (p_filesz p) @
            w32 (p_memsz p) @ w32 (p_flags p) @ w32 (p_align p)))"

definition segment_header_wf :: "header \<Rightarrow> segment_header \<Rightarrow> bool" where
  "segment_header_wf eh p \<longleftrightarrow>
    from_bits_truncate segment_flags (p_flags p) = p_flags p \<and>
    list_all (fits_class (ident_class eh))
      [p_offset p, p_vaddr p, p_paddr p, p_filesz p, p_memsz p, p_align p]"

definition segment_header_size :: "elf_class \<Rightarrow> nat" where
  "segment_header_size c = (case c of Class32 \<Rightarrow> 32 | Class64 \<Rightarrow> 56)"

section \<open>Section headers\<close>

definition section_header_from_reader ::
  "byteorder \<Rightarrow> header \<Rightarrow> (elf_error, section_header) reader" where
  "section_header_from_reader bo eh =
    (let e = ident_endianness eh; u32 = io (elf_read_u32 bo e);
         uclass = io (elf_read_uclass bo e (ident_class eh))
     in rd_bind u32 (\<lambda>name. rd_bind u32 (\<lambda>ty.
        rd_bind uclass (\<lambda>reb.
        rd_bind (rd_option (InvalidSectionFlags reb) (from_bits section_flags reb)) (\<lambda>fl.
        rd_bind uclass (\<lambda>addr. rd_bind uclass (\<lambda>off. rd_bind uclass (\<lambda>sz.
        rd_bind u32 (\<lambda>link. rd_bind u32 (\<lambda>info.
        rd_bind uclass (\<lambda>al. rd_bind uclass (\<lambda>es.
        rd_return \<lparr>sh_name = name, sh_type = SectionType ty, sh_flags = fl, sh_addr = addr,
          sh_offset = off, sh_size = sz, sh_link = link, sh_info = info, sh_addralign = al,
          sh_entsize = es\<rparr>))))))))))))"

fun section_type_u32 :: "section_type \<Rightarrow> u32" where
  "section_type_u32 (SectionType w) = w"

definition encode_section_header :: "header \<Rightarrow> section_header \<Rightarrow> bytes" where
  "encode_section_header eh s =
    (let e = ident_endianness eh; uc = enc_uclass e (ident_class eh)
     in enc_u32 e (sh_name s) @ enc_u32 e (section_type_u32 (sh_type s)) @ uc (sh_flags s) @
        uc (sh_addr s) @ uc (sh_offset s) @ uc (sh_size s) @ enc_u32 e (sh_link s) @
        enc_u32 e (sh_info s) @ uc (sh_addralign s) @ uc (sh_entsize s))"

definition section_header_wf :: "header \<Rightarrow> section_header \<Rightarrow> bool" where
  "section_header_wf eh s \<longleftrightarrow>
    from_bits_truncate section_flags (sh_flags s) = sh_flags s \<and>
    list_all (fits_class (ident_class eh))
      [sh_flags s, sh_addr s, sh_offset s, sh_size s, sh_addralign s, sh_entsize s]"

definition section_header_size :: "elf_class \<Rightarrow> nat" where
  "section_header_size c = 16 + 6 * uclass_size c"

section \<open>The contracts\<close>

lemma section_type_u32_inv [simp]: "SectionType (section_type_u32 t) = t"
  by (cases t) simp

lemma segment_flags_fit:
  "from_bits_truncate segment_flags f = f \<Longrightarrow> ucast (ucast f :: u32) = f"
proof -
  assume "from_bits_truncate segment_flags f = f"
  then have "f = f AND 7" by (simp add: from_bits_truncate_def flags_all_def segment_flags_def)
  then have "unat f \<le> unat (7 :: u64)" by (metis word_and_le1 word_le_nat_alt)
  then show ?thesis by (intro ucast_ucast_32) simp
qed

lemma rd_bind_io_u32_64:
  assumes "byteorder_ok bo" and "unat (w :: u64) < 2 ^ 32"
  shows "rd_bind (rd_bind (io (elf_read_u32 bo e)) (\<lambda>v. rd_return (ucast v))) k
    (enc_u32 e (ucast w) @ rest) = k w rest"
  by (simp add: rd_bind_apply rd_map_fail_def elf_read_enc[OF assms(1)] ucast_ucast_32[OF assms(2)])

lemma rd_bind_io_u32_flags:
  assumes "byteorder_ok bo" and "from_bits_truncate segment_flags w = w"
  shows "rd_bind (rd_bind (io (elf_read_u32 bo e)) (\<lambda>v. rd_return (ucast v))) k
    (enc_u32 e (ucast w) @ rest) = k w rest"
  by (simp add: rd_bind_apply rd_map_fail_def elf_read_enc[OF assms(1)]
      segment_flags_fit[OF assms(2)])

interpretation segment_width: fixed_width "segment_header_from_reader bo eh"
    "segment_header_size (ident_class eh)" for bo eh
  unfolding segment_header_from_reader_def Let_def segment_header_size_def
  by (cases "ident_class eh"; simp only: elf_class.case; (rule width_intros | (simp; fail))+)

interpretation section_width: fixed_width "section_header_from_reader bo eh"
    "section_header_size (ident_class eh)" for bo eh
  unfolding section_header_from_reader_def Let_def section_header_size_def
  by (rule width_intros | (simp; fail))+

interpretation segment_codec: codec "segment_header_from_reader bo eh" "encode_segment_header eh"
    "\<lambda>p. byteorder_ok bo \<and> segment_header_wf eh p" for bo eh
proof
  fix p rest
  assume wf: "byteorder_ok bo \<and> segment_header_wf eh p"
  then have bo: "byteorder_ok bo" by simp
  from wf show "segment_header_from_reader bo eh (encode_segment_header eh p @ rest) = Inr (p, rest)"
    by (cases p; cases "ident_class eh")
      (simp_all add: segment_header_from_reader_def encode_segment_header_def Let_def
        segment_header_wf_def fits_class_def rd_bind_io_enc[OF bo] rd_bind_io_u32_64[OF bo]
        rd_bind_io_u32_flags[OF bo] segment_type.from_to)
qed

interpretation section_codec: codec "section_header_from_reader bo eh" "encode_section_header eh"
    "\<lambda>s. byteorder_ok bo \<and> section_header_wf eh s" for bo eh
proof
  fix s rest
  assume wf: "byteorder_ok bo \<and> section_header_wf eh s"
  then have bo: "byteorder_ok bo" by simp
  from wf show "section_header_from_reader bo eh (encode_section_header eh s @ rest) = Inr (s, rest)"
    by (cases s)
      (simp add: section_header_from_reader_def encode_section_header_def Let_def
        section_header_wf_def rd_bind_io_enc[OF bo] from_bits_eq_Some[THEN iffD2])
qed

lemma segment_header_total [total_intros]: "total_reader (segment_header_from_reader bo eh)"
  unfolding segment_header_from_reader_def Let_def
  by (cases "ident_class eh"; simp only: elf_class.case; intro total_intros)

lemma section_header_total [total_intros]: "total_reader (section_header_from_reader bo eh)"
  unfolding section_header_from_reader_def Let_def by (intro total_intros)

lemma length_encode_segment_header [simp]:
  "length (encode_segment_header eh p) = segment_header_size (ident_class eh)"
  by (simp add: encode_segment_header_def segment_header_size_def Let_def split: elf_class.splits)

lemma length_encode_section_header [simp]:
  "length (encode_section_header eh s) = section_header_size (ident_class eh)"
  by (simp add: encode_section_header_def section_header_size_def Let_def)

end
