(* ===== verification/ElfContent.thy ===== *)
theory ElfContent
  imports ElfTables
begin

text \<open>
  The contents of sections: string tables (\<open>src/elfkit/strtab.rs\<close>), dynamic sections
  (\<open>src/elfkit/dynamic.rs\<close>) and \<open>Section::from_reader\<close> (\<open>src/elfkit/section.rs\<close>). The entry loop
  of a dynamic section ends at the first entry it cannot read a tag for or at \<open>DT_NULL\<close>, and
  terminates because each entry takes bytes off the input.
\<close>

section \<open>String tables\<close>

definition strtab_from_reader ::
  "bytes \<Rightarrow> section_content option \<Rightarrow> header \<Rightarrow> (elf_error, section_content) res" where
  "strtab_from_reader b linked eh = Inr (SC_Strtab (Strtab None b))"

definition strtab_get :: "strtab \<Rightarrow> nat \<Rightarrow> bytes" where
  "strtab_get s i =
    (if i \<ge> length (strtab_data s) then bstr ''<corrupt>''
     else first_nul_piece (drop i (strtab_data s)))"

lemma strtab_get_at:
  assumes "strtab_data s = pre @ str @ 0 # post" and "0 \<notin> set str"
  shows "strtab_get s (length pre) = str"
  using assms by (simp add: strtab_get_def first_nul_piece_takeWhile takeWhile_neq_append)

lemma strtab_get_no_nul: "0 \<notin> set (strtab_get s i)"
  by (simp add: strtab_get_def first_nul_piece_takeWhile)

section \<open>Dynamic sections\<close>

text \<open>The content of \<open>DT_RPATH\<close>, \<open>DT_RUNPATH\<close> and \<open>DT_NEEDED\<close> entries.\<close>

definition string_content :: "strtab option \<Rightarrow> u64 \<Rightarrow> dynamic_content" where
  "string_content tab val = (case tab of
      None \<Rightarrow> DC_String [] None
    | Some s \<Rightarrow> DC_String (strtab_get s (unat val)) (Some val))"

text \<open>The entry the loop pushes for one tag and value.\<close>

definition dynamic_entry :: "strtab option \<Rightarrow> u64 \<Rightarrow> u64 \<Rightarrow> (elf_error, dynamic) res" where
  "dynamic_entry tab tag val = (case from_prim dynamic_type_table tag of
      None \<Rightarrow> Inr \<lparr>dhtype = DT_UNKNOWN, dcontent = DC_None\<rparr>
    | Some x \<Rightarrow>
        if x = DT_NULL then Inr \<lparr>dhtype = DT_NULL, dcontent = DC_None\<rparr>
        else if x = DT_RPATH then Inr \<lparr>dhtype = DT_RPATH, dcontent = string_content tab val\<rparr>
        else if x = DT_RUNPATH then Inr \<lparr>dhtype = DT_RUNPATH, dcontent = string_content tab val\<rparr>
        else if x = DT_NEEDED then Inr \<lparr>dhtype = DT_NEEDED, dcontent = string_content tab val\<rparr>
        else if x = DT_FLAGS_1 then
          (case from_bits dynamic_flags1 val of
            Some v \<Rightarrow> Inr \<lparr>dhtype = DT_FLAGS_1, dcontent = DC_Flags1 v\<rparr>
          | None \<Rightarrow> Inl (Fail (InvalidDynamicFlags1 val)))
        else Inr \<lparr>dhtype = x, dcontent = DC_Address val\<rparr>)"

lemma read_uclass_shrinks:
  "elf_read_uclass bo e c bs = Inr (w, r) \<Longrightarrow> length r < length bs"
  using fixed_width.consumes[OF elf_read_uclass_width, of bo e c bs w r]
  by (auto simp: uclass_size_def split: elf_class.splits)

function dynamic_loop ::
  "byteorder \<Rightarrow> header \<Rightarrow> strtab option \<Rightarrow> bytes \<Rightarrow> (elf_error, dynamic list) res" where
  "dynamic_loop bo eh tab bs =
    (case elf_read_uclass bo (ident_endianness eh) (ident_class eh) bs of
      Inl _ \<Rightarrow> Inr []
    | Inr (tag, bs1) \<Rightarrow>
        (case io (elf_read_uclass bo (ident_endianness eh) (ident_class eh)) bs1 of
          Inl e \<Rightarrow> Inl e
        | Inr (val, bs2) \<Rightarrow>
            bind_res (dynamic_entry tab tag val) (\<lambda>d.
              if from_prim dynamic_type_table tag = Some DT_NULL then Inr [d]
              else bind_res (dynamic_loop bo eh tab bs2) (\<lambda>ds. Inr (d # ds)))))"
  by pat_completeness auto
termination
  by (relation "measure (\<lambda>(bo, eh, tab, bs). length bs)")
    (auto dest!: read_uclass_shrinks)

declare dynamic_loop.simps [simp del]

definition dynamic_from_reader ::
  "byteorder \<Rightarrow> bytes \<Rightarrow> section_content option \<Rightarrow> header \<Rightarrow> (elf_error, section_content) res" where
  "dynamic_from_reader bo b linked eh =
    bind_res (case linked of
        None \<Rightarrow> Inr None
      | Some (SC_Strtab s) \<Rightarrow> Inr (Some s)
      | other \<Rightarrow> Inl (Fail (LinkedSectionIsNotStrtab ''reading dynamic'' other)))
    (\<lambda>strtab. bind_res (dynamic_loop bo eh strtab b) (\<lambda>r. Inr (SC_Dynamic r)))"

section \<open>Sections\<close>

definition section_from_reader ::
  "byteorder \<Rightarrow> bytes \<Rightarrow> elf_section option \<Rightarrow> header \<Rightarrow> elf_section \<Rightarrow> (elf_error, elf_section) res" where
  "section_from_reader bo file linked eh sec =
    (if sec_content sec \<noteq> Unloaded then Inr sec
     else if sh_type (sec_header sec) = SHT_NOBITS then Inr (sec\<lparr>sec_content := SC_None\<rparr>)
     else bind_res (map_fail Io (seek_read file (sh_offset (sec_header sec))
                                  (unat (sh_size (sec_header sec))))) (\<lambda>bb.
          bind_res
            (if sh_type (sec_header sec) = SHT_STRTAB then
               strtab_from_reader bb (map_option sec_content linked) eh
             else if sh_type (sec_header sec) = SHT_DYNAMIC then
               dynamic_from_reader bo bb (map_option sec_content linked) eh
             else Inr Unloaded) (\<lambda>c.
          Inr (sec\<lparr>sec_content := c\<rparr>))))"

section \<open>Facts about the entry loop\<close>

lemma dynamic_entry_total: "dynamic_entry tab tag val \<noteq> Inl Panic"
  by (simp add: dynamic_entry_def split: option.splits)

lemma dynamic_loop_total: "dynamic_loop bo eh tab bs \<noteq> Inl Panic"
proof (induction bo eh tab bs rule: dynamic_loop.induct)
  case (1 bo eh tab bs)
  let ?rd = "elf_read_uclass bo (ident_endianness eh) (ident_class eh)"
  show ?case
  proof (cases "?rd bs")
    case (Inl e)
    then show ?thesis by (simp add: dynamic_loop.simps[of bo eh tab bs])
  next
    case (Inr p)
    obtain tag bs1 where p: "p = (tag, bs1)" by fastforce
    show ?thesis
    proof (cases "io ?rd bs1")
      case Inl': (Inl e)
      have "io ?rd bs1 \<noteq> Inl Panic" using total_readerD[OF elf_read_total(4)] by simp
      with Inr p Inl' show ?thesis by (simp add: dynamic_loop.simps[of bo eh tab bs])
    next
      case Inr': (Inr q)
      obtain val bs2 where q: "q = (val, bs2)" by fastforce
      show ?thesis
      proof (cases "dynamic_entry tab tag val")
        case (Inl e)
        with Inr Inr' p q dynamic_entry_total[of tab tag val] show ?thesis
          by (simp add: dynamic_loop.simps[of bo eh tab bs] del: rd_map_fail_eq_Inr)
      next
        case (Inr d)
        with "1.IH"[OF \<open>?rd bs = Inr p\<close> p[symmetric] Inr' q[symmetric] Inr] \<open>?rd bs = Inr p\<close> Inr' p q show ?thesis
          by (auto simp: dynamic_loop.simps[of bo eh tab bs] bind_res_eq_Inl
              simp del: rd_map_fail_eq_Inr)
      qed
    qed
  qed
qed

text \<open>A string entry is one the dependency search reads.\<close>

lemma dynamic_entry_string:
  assumes "dynamic_entry tab tag val = Inr d" and "dcontent d = DC_String name off"
  shows "dhtype d \<in> {DT_RPATH, DT_RUNPATH, DT_NEEDED} \<and> DC_String name off = string_content tab val"
  using assms
  by (auto simp: dynamic_entry_def split: option.splits if_splits)

text \<open>Reading one encoded entry in front of the rest.\<close>

definition encode_dynamic :: "header \<Rightarrow> u64 \<times> u64 \<Rightarrow> bytes" where
  "encode_dynamic eh = (\<lambda>(tag, val).
    enc_uclass (ident_endianness eh) (ident_class eh) tag @
    enc_uclass (ident_endianness eh) (ident_class eh) val)"

lemma dynamic_loop_step:
  assumes "byteorder_ok bo" and "fits_class (ident_class eh) tag" and "fits_class (ident_class eh) val"
  shows "dynamic_loop bo eh tab (encode_dynamic eh (tag, val) @ rest) =
    bind_res (dynamic_entry tab tag val) (\<lambda>d.
      if from_prim dynamic_type_table tag = Some DT_NULL then Inr [d]
      else bind_res (dynamic_loop bo eh tab rest) (\<lambda>ds. Inr (d # ds)))"
  using elf_read_uclass_enc[OF assms(1,2)] elf_read_uclass_enc[OF assms(1,3)]
  by (subst dynamic_loop.simps) (simp add: encode_dynamic_def rd_map_fail_def)

lemma from_prim_NULL [simp]: "from_prim dynamic_type_table tag = Some DT_NULL \<longleftrightarrow> tag = 0"
  by (auto simp: from_prim_dynamic_type DT_NULL_def dynamic_type_variants_def)

lemma dynamic_entry_NULL: "dynamic_entry tab 0 val = Inr \<lparr>dhtype = DT_NULL, dcontent = DC_None\<rparr>"
proof -
  have "from_prim dynamic_type_table 0 = Some DT_NULL" by simp
  then show ?thesis by (simp only: dynamic_entry_def option.case simp_thms if_True)
qed

lemma fits_class_0 [simp]: "fits_class c 0"
  by (simp add: fits_class_def)

lemma dynamic_loop_entries:
  assumes bo: "byteorder_ok bo" and v0: "fits_class (ident_class eh) v0"
    and fits: "list_all (\<lambda>(t, v). fits_class (ident_class eh) t \<and> fits_class (ident_class eh) v) es"
    and ok: "list_all2 (\<lambda>(t, v) d. t \<noteq> 0 \<and> dynamic_entry tab t v = Inr d) es ds"
  shows "dynamic_loop bo eh tab (concat (map (encode_dynamic eh) (es @ [(0, v0)])) @ rest) =
    Inr (ds @ [\<lparr>dhtype = DT_NULL, dcontent = DC_None\<rparr>])"
  using ok fits
proof (induction es ds rule: list_all2_induct)
  case Nil
  show ?case using dynamic_loop_step[OF bo, of eh 0 v0 tab rest] v0
    by (simp add: dynamic_entry_NULL)
next
  case (Cons e es d ds)
  obtain t v where e: "e = (t, v)" by fastforce
  with Cons show ?case
    using dynamic_loop_step[OF bo, of eh t v tab
        "concat (map (encode_dynamic eh) (es @ [(0, v0)])) @ rest"]
    by simp
qed

section \<open>Facts about sections\<close>

text \<open>
  What the content of a section can be, given its type. A \<open>None\<close> content belongs to a section
  without bytes in the file or to the default section that \<open>mem::take\<close> leaves behind, never to a
  dynamic section.
\<close>

definition section_ok :: "elf_section \<Rightarrow> bool" where
  "section_ok s \<longleftrightarrow> (case sec_content s of
      Unloaded \<Rightarrow> True
    | SC_None \<Rightarrow> sh_type (sec_header s) \<noteq> SHT_DYNAMIC
    | SC_Dynamic _ \<Rightarrow> sh_type (sec_header s) = SHT_DYNAMIC
    | SC_Strtab _ \<Rightarrow> sh_type (sec_header s) = SHT_STRTAB)"

lemma SHT_distinct [simp]:
  "SHT_NOBITS \<noteq> SHT_DYNAMIC" "SHT_DYNAMIC \<noteq> SHT_NOBITS" "SHT_STRTAB \<noteq> SHT_DYNAMIC"
  "SHT_DYNAMIC \<noteq> SHT_STRTAB" "SHT_NULL \<noteq> SHT_DYNAMIC" "SHT_STRTAB \<noteq> SHT_NOBITS"
  by (simp_all add: SHT_NOBITS_def SHT_DYNAMIC_def SHT_STRTAB_def SHT_NULL_def)

lemma section_ok_default [simp]: "section_ok section_default"
  by (simp add: section_ok_def section_default_def section_header_default_def)

lemma section_from_reader_loaded:
  "sec_content sec \<noteq> Unloaded \<Longrightarrow> section_from_reader bo file linked eh sec = Inr sec"
  by (simp add: section_from_reader_def)

lemma dynamic_from_reader_SC:
  "dynamic_from_reader bo b linked eh = Inr c \<Longrightarrow> \<exists>ds. c = SC_Dynamic ds"
  by (auto simp: dynamic_from_reader_def bind_res_eq_Inr)

lemma strtab_from_reader_SC: "strtab_from_reader b linked eh = Inr c \<longleftrightarrow> c = SC_Strtab (Strtab None b)"
  by (auto simp: strtab_from_reader_def)

lemma section_from_reader_frame:
  "section_from_reader bo file linked eh sec = Inr s \<Longrightarrow>
    sec_header s = sec_header sec \<and> sec_name s = sec_name sec \<and> sec_addrlock s = sec_addrlock sec"
  by (auto simp: section_from_reader_def bind_res_eq_Inr split: if_splits)

lemma section_from_reader_ok:
  assumes "section_from_reader bo file linked eh sec = Inr s" and "section_ok sec"
  shows "section_ok s"
proof (cases "sec_content sec = Unloaded")
  case True
  with assms(1) show ?thesis
    by (auto simp: section_from_reader_def bind_res_eq_Inr section_ok_def strtab_from_reader_SC
        dest!: dynamic_from_reader_SC split: if_splits)
next
  case False
  with assms show ?thesis by (simp add: section_from_reader_loaded)
qed

lemma section_from_reader_dynamic:
  assumes "section_from_reader bo file linked eh sec = Inr s" and "section_ok sec"
    and "sh_type (sec_header sec) = SHT_DYNAMIC"
  shows "\<exists>ds. sec_content s = SC_Dynamic ds"
proof (cases "sec_content sec")
  case Unloaded
  with assms show ?thesis
    by (auto simp: section_from_reader_def bind_res_eq_Inr dest!: dynamic_from_reader_SC)
qed (use assms in \<open>auto simp: section_from_reader_loaded section_ok_def\<close>)

text \<open>A section of the file can only panic on a size no vector can have.\<close>

lemma section_from_reader_Panic:
  "section_from_reader bo file linked eh sec = Inl Panic \<Longrightarrow>
    unat (sh_size (sec_header sec)) > isize_max"
  by (auto simp: section_from_reader_def bind_res_eq_Inl strtab_from_reader_def
      dynamic_from_reader_def dynamic_loop_total dest: seek_read_Panic
      split: if_splits option.splits section_content.splits)

section \<open>Properties\<close>



end
