(* ===== verification/ElfHeader.thy ===== *)
theory ElfHeader
  imports ElfData
begin

text \<open>
  \<open>Header::from_reader\<close> of \<open>src/elfkit/header.rs\<close>. The identification is decoded from the first
  16 bytes, then the remaining fields are read in the endianness and class it announces. Each
  check returns the error the source returns for it. The encoding \<open>encode_header\<close> is the layout
  of the ELF specification, and serves as the reference for the reader.
\<close>

section \<open>The reader\<close>

text \<open>Lines up to the ABI version: what the 16 identification bytes say.\<close>

definition header_ident :: "bytes \<Rightarrow> (elf_error, header) reader" where
  "header_ident b =
    rd_bind (rd_require (take 4 b = elf_magic) InvalidMagic) (\<lambda>_.
    rd_bind (rd_option (InvalidIdentClass (b ! 4)) (from_prim class_table (b ! 4))) (\<lambda>cls.
    rd_bind (rd_option (InvalidEndianness (b ! 5)) (from_prim endianness_table (b ! 5))) (\<lambda>en.
    rd_bind (rd_require (b ! 6 = 1) (InvalidIdentVersion (b ! 6))) (\<lambda>_.
    rd_bind (rd_option (InvalidAbi (b ! 7)) (from_prim abi_table (b ! 7))) (\<lambda>abi.
    rd_return (header_default\<lparr>
      ident_magic := take 4 b, ident_class := cls, ident_endianness := en,
      ident_version := b ! 6, ident_abi := abi, ident_abiversion := b ! 8\<rparr>))))))"

text \<open>The part inside \<open>elf_dispatch_endianness!\<close>.\<close>

definition header_rest :: "byteorder \<Rightarrow> header \<Rightarrow> (elf_error, header) reader" where
  "header_rest bo r =
    (let e = ident_endianness r; c = ident_class r;
         u16 = io (elf_read_u16 bo e); u32 = io (elf_read_u32 bo e);
         uclass = io (elf_read_uclass bo e c)
     in rd_bind u16 (\<lambda>reb. rd_bind (rd_option (InvalidElfType reb) (from_prim elf_type_table reb)) (\<lambda>et.
        rd_bind u16 (\<lambda>reb. rd_bind (rd_option (InvalidMachineType reb) (from_prim machine_table reb)) (\<lambda>mach.
        rd_bind u32 (\<lambda>ver. rd_bind (rd_require (ver = 1) (InvalidVersion ver)) (\<lambda>_.
        rd_bind uclass (\<lambda>entry. rd_bind uclass (\<lambda>phoff. rd_bind uclass (\<lambda>shoff.
        rd_bind u32 (\<lambda>reb.
        rd_bind u16 (\<lambda>ehsize. rd_bind u16 (\<lambda>phentsize. rd_bind u16 (\<lambda>phnum.
        rd_bind u16 (\<lambda>shentsize. rd_bind u16 (\<lambda>shnum. rd_bind u16 (\<lambda>shstrndx.
        rd_return (r\<lparr>
          e_type := et, e_machine := mach, e_version := ver,
          e_entry := entry, e_phoff := phoff, e_shoff := shoff,
          e_flags := from_bits_truncate header_flags reb,
          e_ehsize := ehsize, e_phentsize := phentsize, e_phnum := phnum,
          e_shentsize := shentsize, e_shnum := shnum, e_shstrndx := shstrndx\<rparr>))))))))))))))))))"

definition header_from_reader :: "byteorder \<Rightarrow> (elf_error, header) reader" where
  "header_from_reader bo =
    rd_bind (rd_map_fail (\<lambda>_. InvalidMagic) (read_exact 16)) (\<lambda>b.
    rd_bind (header_ident b) (header_rest bo))"

section \<open>The layout\<close>

definition encode_ident :: "header \<Rightarrow> bytes" where
  "encode_ident h = ident_magic h @
    [to_prim class_table (ident_class h), to_prim endianness_table (ident_endianness h),
     ident_version h, to_prim abi_table (ident_abi h), ident_abiversion h] @ replicate 7 0"

definition encode_rest :: "header \<Rightarrow> bytes" where
  "encode_rest h =
    (let e = ident_endianness h; c = ident_class h
     in enc_u16 e (to_prim elf_type_table (e_type h)) @
        enc_u16 e (to_prim machine_table (e_machine h)) @
        enc_u32 e (e_version h) @
        enc_uclass e c (e_entry h) @ enc_uclass e c (e_phoff h) @ enc_uclass e c (e_shoff h) @
        enc_u32 e (e_flags h) @
        enc_u16 e (e_ehsize h) @ enc_u16 e (e_phentsize h) @ enc_u16 e (e_phnum h) @
        enc_u16 e (e_shentsize h) @ enc_u16 e (e_shnum h) @ enc_u16 e (e_shstrndx h))"

definition encode_header :: "header \<Rightarrow> bytes" where
  "encode_header h = encode_ident h @ encode_rest h"

definition header_wf :: "header \<Rightarrow> bool" where
  "header_wf h \<longleftrightarrow>
    ident_magic h = elf_magic \<and> ident_version h = 1 \<and> e_version h = 1 \<and>
    machine_variant (e_machine h) \<and>
    from_bits_truncate header_flags (e_flags h) = e_flags h \<and>
    fits_class (ident_class h) (e_entry h) \<and> fits_class (ident_class h) (e_phoff h) \<and>
    fits_class (ident_class h) (e_shoff h)"

definition header_size :: "elf_class \<Rightarrow> nat" where
  "header_size c = 40 + 3 * uclass_size c"

section \<open>Properties of the parts\<close>

lemma header_ident_total [total_intros]: "total_reader (header_ident b)"
  unfolding header_ident_def by (intro total_intros)

lemma header_rest_total [total_intros]: "total_reader (header_rest bo r)"
  unfolding header_rest_def Let_def by (intro total_intros)

lemma header_from_reader_total [total_intros]: "total_reader (header_from_reader bo)"
  unfolding header_from_reader_def by (intro total_intros)

lemma header_rest_width: "fixed_width (header_rest bo r) (24 + 3 * uclass_size (ident_class r))"
  unfolding header_rest_def Let_def
  by (rule width_intros allI | (simp; fail))+

lemma header_rest_enc:
  assumes bo: "byteorder_ok bo" and wf: "header_wf h"
    and r: "ident_class r = ident_class h" "ident_endianness r = ident_endianness h"
  shows "header_rest bo r (encode_rest h @ rest) = Inr (r\<lparr>
      e_type := e_type h, e_machine := e_machine h, e_version := e_version h,
      e_entry := e_entry h, e_phoff := e_phoff h, e_shoff := e_shoff h, e_flags := e_flags h,
      e_ehsize := e_ehsize h, e_phentsize := e_phentsize h, e_phnum := e_phnum h,
      e_shentsize := e_shentsize h, e_shnum := e_shnum h, e_shstrndx := e_shstrndx h\<rparr>, rest)"
proof -
  have "machine_variant (e_machine h)" "e_version h = 1"
    "from_bits_truncate header_flags (e_flags h) = e_flags h"
    "fits_class (ident_class h) (e_entry h)" "fits_class (ident_class h) (e_phoff h)"
    "fits_class (ident_class h) (e_shoff h)"
    using wf by (simp_all add: header_wf_def)
  then show ?thesis
    by (simp add: header_rest_def encode_rest_def Let_def r rd_bind_io_enc[OF bo]
        elf_type.from_to machine.from_to)
qed

lemma header_ident_enc:
  assumes wf: "header_wf h"
  shows "header_ident (encode_ident h) bs = Inr (header_default\<lparr>
      ident_magic := ident_magic h, ident_class := ident_class h,
      ident_endianness := ident_endianness h, ident_version := ident_version h,
      ident_abi := ident_abi h, ident_abiversion := ident_abiversion h\<rparr>, bs)"
  using wf by (simp add: header_ident_def encode_ident_def header_wf_def elf_magic_def
      elf_class.from_to endianness.from_to abi.from_to)

lemma length_encode_ident: "header_wf h \<Longrightarrow> length (encode_ident h) = 16"
  by (simp add: encode_ident_def header_wf_def elf_magic_def)

lemma header_ident_Inr:
  "header_ident b bs = Inr (r, bs') \<Longrightarrow>
    bs' = bs \<and> ident_magic r = elf_magic \<and> ident_version r = 1"
  by (auto simp: header_ident_def rd_bind_eq_Inr)

lemma header_ident_Fail_magic:
  "header_ident b bs = Inl (Fail InvalidMagic) \<longleftrightarrow> take 4 b \<noteq> elf_magic"
  by (auto simp: header_ident_def rd_bind_eq_Inl)

lemma header_rest_Fail: "header_rest bo r bs \<noteq> Inl (Fail InvalidMagic)"
  by (simp add: header_rest_def Let_def rd_bind_eq_Inl)

lemma header_rest_Inr:
  "header_rest bo r bs = Inr (h, bs') \<Longrightarrow>
    ident_magic h = ident_magic r \<and> ident_class h = ident_class r \<and>
    ident_endianness h = ident_endianness r \<and> ident_version h = ident_version r \<and>
    machine_variant (e_machine h) \<and> e_version h = 1 \<and>
    from_bits_truncate header_flags (e_flags h) = e_flags h \<and>
    fits_class (ident_class h) (e_entry h) \<and> fits_class (ident_class h) (e_phoff h) \<and>
    fits_class (ident_class h) (e_shoff h)"
  by (auto simp: header_rest_def Let_def rd_bind_eq_Inr machine.from_eq_Some
      dest: elf_read_uclass_fits)

section \<open>Properties\<close>

text \<open>
  C27: A well-formed header, laid out as the ELF specification says in its own endianness and
  class, is read back as it was, and the reader leaves exactly the bytes that follow it.
\<close>

theorem header_roundtrip:
  assumes "byteorder_ok bo" and "header_wf h"
  shows "header_from_reader bo (encode_header h @ rest) = Inr (h, rest)"
  using assms
  by (cases h) (simp add: header_from_reader_def encode_header_def rd_bind_read_exact
    length_encode_ident rd_bind_apply[of "header_ident b" for b] header_ident_enc header_rest_enc
    header_default_def)

theorem header_roundtrip_witness:
  "header_from_reader byteorder_std (encode_header (header_default\<lparr>ident_class := Class32,
      ident_endianness := BigEndian, e_machine := Machine 20, e_phoff := 52\<rparr>) @ [1, 2, 3]) =
    Inr (header_default\<lparr>ident_class := Class32, ident_endianness := BigEndian,
      e_machine := Machine 20, e_phoff := 52\<rparr>, [1, 2, 3])"
  by (rule header_roundtrip[OF byteorder_std_ok])
    (simp add: header_wf_def header_default_def machine_variant_def machine_table_def
      machine_variants_defs from_bits_truncate_def fits_class_def)

text \<open>
  C28: Whatever the bytes and the decoder of integers, a header that is accepted is well formed
  (magic number, versions, a known machine, no undeclared flag, addresses that fit its class),
  and the reader has consumed exactly the 52 or 64 bytes of its class.
\<close>

theorem header_accepted:
  assumes "header_from_reader bo bs = Inr (h, rest)"
  shows "header_wf h \<and> header_size (ident_class h) \<le> length bs \<and>
    rest = drop (header_size (ident_class h)) bs"
proof -
  from assms obtain r where b: "16 \<le> length bs"
    and r: "header_ident (take 16 bs) (drop 16 bs) = Inr (r, drop 16 bs)"
    and h: "header_rest bo r (drop 16 bs) = Inr (h, rest)"
    by (auto simp: header_from_reader_def rd_bind_eq_Inr read_exact_eq_Inr dest: header_ident_Inr)
  from header_ident_Inr[OF r] header_rest_Inr[OF h] have "header_wf h"
    and "ident_class h = ident_class r"
    unfolding header_wf_def by metis+
  with fixed_width.consumes[OF header_rest_width h] b show ?thesis
    by (auto simp: header_size_def add.commute)
qed

theorem header_accepted_witness:
  "header_wf header_default \<and> header_size Class64 \<le> length (encode_header header_default @ [7]) \<and>
    [7] = drop (header_size Class64) (encode_header header_default @ [7])"
proof -
  have "header_wf header_default"
    by (simp add: header_wf_def header_default_def machine_variant_def machine_table_def
        machine_variants_defs from_bits_truncate_def fits_class_def)
  then have "header_from_reader byteorder_std
      (encode_ident header_default @ encode_rest header_default @ [7]) = Inr (header_default, [7])"
    by (simp add: header_from_reader_def rd_bind_read_exact length_encode_ident
        rd_bind_apply[of "header_ident b" for b] header_ident_enc
        header_rest_enc[OF byteorder_std_ok] header_default_def)
  from header_accepted[of byteorder_std "encode_header header_default @ [7]" header_default "[7]"] this
  show ?thesis by (simp add: encode_header_def header_default_def)
qed

text \<open>
  The error that the dependency search reports as "not a dynamic executable" is returned
  exactly for inputs that are shorter than the identification or do not start with the magic
  number.
\<close>

lemma header_invalid_magic:
  "header_from_reader bo bs = Inl (Fail InvalidMagic) \<longleftrightarrow>
    \<not> (16 \<le> length bs \<and> take 4 bs = elf_magic)"
proof (cases "length bs < 16")
  case True
  then show ?thesis by (simp add: header_from_reader_def rd_bind_eq_Inl read_exact_eq_Inl)
next
  case False
  then have "header_from_reader bo bs = rd_bind (header_ident (take 16 bs)) (header_rest bo) (drop 16 bs)"
    using rd_bind_read_exact[of "take 16 bs" 16 _ _ "drop 16 bs"]
    by (simp add: header_from_reader_def)
  with False show ?thesis
    by (auto simp: rd_bind_eq_Inl header_ident_Fail_magic header_rest_Fail min_def)
qed

end
