(* ===== verification/ElfFile.thy ===== *)
theory ElfFile
  imports ElfContent ElfHeader
begin

text \<open>
  \<open>Elf::from_reader\<close> and \<open>Elf::load\<close> of \<open>src/elfkit/elf.rs\<close>. A file is read in stages: the header,
  the two tables, the section names. \<open>load\<close> reads one section and, before it, the section it
  links to; \<open>mem::take\<close> puts a default section without link in the place of the one that is being
  read, which is what makes the recursion end even when the links form a cycle.
\<close>

section \<open>Reading a img\<close>

definition read_segments :: "byteorder \<Rightarrow> bytes \<Rightarrow> header \<Rightarrow> (elf_error, segment_header list) res" where
  "read_segments bo img h =
    bind_res (map_fail Io (seek_read img (e_phoff h) (unat (e_phentsize h) * unat (e_phnum h)))) (\<lambda>buf.
    map_sum id fst (read_many (unat (e_phnum h)) (segment_header_from_reader bo h) buf))"

definition read_sections :: "byteorder \<Rightarrow> bytes \<Rightarrow> header \<Rightarrow> (elf_error, elf_section list) res" where
  "read_sections bo img h =
    bind_res (map_fail Io (seek_read img (e_shoff h) (unat (e_shnum h) * unat (e_shentsize h)))) (\<lambda>buf.
    map_sum id fst (read_many (unat (e_shnum h))
      (rd_bind (section_header_from_reader bo h) (\<lambda>sh. rd_return
        \<lparr>sec_header = sh, sec_name = [], sec_content = Unloaded, sec_addrlock = True\<rparr>)) buf))"

text \<open>The lookup of \<open>shstrtab\<close> and the loop that names the sections.\<close>

definition resolve_names :: "bytes \<Rightarrow> header \<Rightarrow> elf_section list \<Rightarrow> (elf_error, elf_section list) res" where
  "resolve_names img h secs =
    bind_res
      (if unat (e_shstrndx h) < length secs then
         let sec = secs ! unat (e_shstrndx h)
         in map_fail Io (seek_read img (sh_offset (sec_header sec)) (unat (sh_size (sec_header sec))))
       else Inl (Fail MissingShstrtabSection)) (\<lambda>shstrtab.
    map_res (\<lambda>sec. bind_res (slice_from shstrtab (unat (sh_name (sec_header sec)))) (\<lambda>name.
      Inr (sec\<lparr>sec_name := first_nul_piece name\<rparr>))) secs)"

definition elf_from_reader :: "byteorder \<Rightarrow> bytes \<Rightarrow> (elf_error, elf) res" where
  "elf_from_reader bo img =
    bind_res (map_sum id fst (header_from_reader bo img)) (\<lambda>h.
    bind_res (read_segments bo img h) (\<lambda>segs.
    bind_res (read_sections bo img h) (\<lambda>secs.
    bind_res (resolve_names img h secs) (\<lambda>secs.
    Inr \<lparr>elf_header = h, elf_segments = segs, elf_sections = secs\<rparr>))))"

section \<open>Loading a section\<close>

text \<open>The number of sections that link somewhere.\<close>

definition linking :: "elf_section list \<Rightarrow> nat" where
  "linking secs = length (filter (\<lambda>s. sh_link (sec_header s) \<noteq> 0) secs)"

lemma length_filter_update:
  assumes "i < length xs" "P (xs ! i)" "\<not> P y"
  shows "length (filter P (xs[i := y])) < length (filter P xs)"
proof -
  have xs: "xs = take i xs @ xs ! i # drop (Suc i) xs"
    using assms(1) by (rule id_take_nth_drop)
  have "filter P xs = filter P (take i xs) @ xs ! i # filter P (drop (Suc i) xs)"
    using assms(2) by (subst xs) simp
  moreover have "filter P (xs[i := y]) = filter P (take i xs) @ filter P (drop (Suc i) xs)"
    using assms(1,3) by (simp add: upd_conv_take_nth_drop)
  ultimately show ?thesis by simp
qed

lemma linking_take:
  "i < length secs \<Longrightarrow> sh_link (sec_header (secs ! i)) \<noteq> 0 \<Longrightarrow>
    linking (secs[i := section_default]) < linking secs"
  unfolding linking_def
  by (rule length_filter_update) (simp_all add: section_default_def section_header_default_def)

function elf_load ::
  "byteorder \<Rightarrow> bytes \<Rightarrow> header \<Rightarrow> elf_section list \<Rightarrow> nat \<Rightarrow> (elf_error, elf_section list) res" where
  "elf_load bo img eh secs i =
    (if i \<ge> length secs then Inl Panic
     else
       let sec = secs ! i; secs1 = secs[i := section_default];
           link = sh_link (sec_header sec)
       in if link < 1 \<or> unat link \<ge> length secs1
          then bind_res (section_from_reader bo img None eh sec) (\<lambda>s. Inr (secs1[i := s]))
          else bind_res (elf_load bo img eh secs1 (unat link)) (\<lambda>secs2.
               bind_res (section_from_reader bo img (Some (secs2 ! unat link)) eh sec) (\<lambda>s.
               Inr (secs2[i := s]))))"
  by pat_completeness auto
termination
  by (relation "measure (\<lambda>(bo, img, eh, secs, i). linking secs)")
    (auto intro!: linking_take simp: word_less_1)

declare elf_load.simps [simp del]

text \<open>The two ways through \<open>load\<close>.\<close>

lemma elf_load_unlinked:
  assumes "i < length secs" "sh_link (sec_header (secs ! i)) = 0 \<or>
    unat (sh_link (sec_header (secs ! i))) \<ge> length secs"
  shows "elf_load bo img eh secs i =
    bind_res (section_from_reader bo img None eh (secs ! i)) (\<lambda>s. Inr (secs[i := s]))"
  using assms by (subst elf_load.simps) (auto simp: Let_def word_less_1)

lemma elf_load_linked:
  assumes "i < length secs" "j = unat (sh_link (sec_header (secs ! i)))" "j \<noteq> 0" "j < length secs"
  shows "elf_load bo img eh secs i =
    bind_res (elf_load bo img eh (secs[i := section_default]) j) (\<lambda>secs2.
    bind_res (section_from_reader bo img (Some (secs2 ! j)) eh (secs ! i)) (\<lambda>s.
    Inr (secs2[i := s])))"
  using assms by (subst elf_load.simps) (auto simp: Let_def word_less_1 unat_eq_0)

lemma elf_load_cases:
  assumes "elf_load bo img eh secs i = Inr out"
  obtains (unlinked) s where "i < length secs"
      "section_from_reader bo img None eh (secs ! i) = Inr s" "out = secs[i := s]"
  | (linked) j secs2 s where "i < length secs" "j = unat (sh_link (sec_header (secs ! i)))"
      "j \<noteq> 0" "j < length secs"
      "elf_load bo img eh (secs[i := section_default]) j = Inr secs2"
      "section_from_reader bo img (Some (secs2 ! j)) eh (secs ! i) = Inr s" "out = secs2[i := s]"
proof -
  let ?j = "unat (sh_link (sec_header (secs ! i)))"
  have i: "i < length secs"
    using assms by (subst (asm) elf_load.simps) (auto split: if_splits)
  show ?thesis
  proof (cases "sh_link (sec_header (secs ! i)) = 0 \<or> ?j \<ge> length secs")
    case True
    with assms i show ?thesis
      by (auto simp: elf_load_unlinked bind_res_eq_Inr intro: unlinked)
  next
    case False
    then have "?j \<noteq> 0" "?j < length secs" by (simp_all add: unat_eq_0)
    with assms i show ?thesis
      by (auto simp: elf_load_linked[OF i refl] bind_res_eq_Inr intro: linked[OF i refl])
  qed
qed

text \<open>A cycle of links, or a section that links to itself, meets the default section.\<close>

lemma elf_load_default:
  assumes "i < length secs" and "secs ! i = section_default"
  shows "elf_load bo img eh secs i = Inr secs"
proof -
  have "elf_load bo img eh secs i = Inr (secs[i := section_default])"
    using assms
    by (subst elf_load_unlinked) (simp_all add: section_default_def section_header_default_def
        section_from_reader_loaded)
  with assms show ?thesis by (metis list_update_id)
qed

text \<open>What \<open>load\<close> leaves alone.\<close>

definition same_frame :: "elf_section list \<Rightarrow> elf_section list \<Rightarrow> bool" where
  "same_frame xs ys \<longleftrightarrow> list_all2 (\<lambda>x y. sec_header y = sec_header x \<and> sec_name y = sec_name x \<and>
     sec_addrlock y = sec_addrlock x \<and> (sec_content x \<noteq> Unloaded \<longrightarrow> y = x)) xs ys"

lemma same_frame_update:
  assumes "same_frame (xs[i := d]) ys" and "i < length xs"
    and "section_from_reader bo img linked eh (xs ! i) = Inr s"
  shows "same_frame xs (ys[i := s])"
proof -
  have len: "length ys = length xs" using assms(1) by (auto simp: same_frame_def dest: list_all2_lengthD)
  show ?thesis
    using assms len section_from_reader_frame[OF assms(3)]
      section_from_reader_loaded[of "xs ! i" bo img linked eh]
    unfolding same_frame_def list_all2_conv_all_nth
    by (auto simp: nth_list_update split: if_splits)
qed

lemma same_frame_refl [simp]: "same_frame xs xs"
  by (simp add: same_frame_def list_all2_refl)

lemma elf_load_frame:
  "elf_load bo img eh secs i = Inr out \<Longrightarrow> same_frame secs out"
proof (induction bo img eh secs i arbitrary: out rule: elf_load.induct)
  case (1 bo img eh secs i)
  from "1.prems" show ?case
  proof (cases rule: elf_load_cases)
    case (unlinked s)
    then show ?thesis
      using same_frame_update[of secs i "secs ! i" secs bo img None eh s] by simp
  next
    case (linked j secs2 s)
    then have "same_frame (secs[i := section_default]) secs2"
      using "1.IH"[of "secs ! i" "secs[i := section_default]" "sh_link (sec_header (secs ! i))"]
      by (auto simp: word_less_1 unat_eq_0)
    with linked show ?thesis by (auto intro: same_frame_update)
  qed
qed

lemma elf_load_length: "elf_load bo img eh secs i = Inr out \<Longrightarrow> length out = length secs"
  by (drule elf_load_frame) (simp add: same_frame_def list_all2_lengthD)

lemma elf_load_ok:
  "elf_load bo img eh secs i = Inr out \<Longrightarrow> list_all section_ok secs \<Longrightarrow> list_all section_ok out"
proof (induction bo img eh secs i arbitrary: out rule: elf_load.induct)
  case (1 bo img eh secs i)
  have ok_i: "i < length secs \<Longrightarrow> section_ok (secs ! i)" using "1.prems"(2) by (simp add: list_all_length)
  have upd: "list_all section_ok (xs[k := x])" if "list_all section_ok xs" "section_ok x" for xs k x
    using that by (cases "k < length xs") (simp_all add: list_all_length nth_list_update)
  from "1.prems"(1) show ?case
  proof (cases rule: elf_load_cases)
    case (unlinked s)
    show ?thesis
      unfolding unlinked(3)
      by (rule upd[OF "1.prems"(2) section_from_reader_ok[OF unlinked(2) ok_i[OF unlinked(1)]]])
  next
    case (linked j secs2 s)
    have "list_all section_ok (secs[i := section_default])" using "1.prems"(2) by (simp add: upd)
    with linked have "list_all section_ok secs2"
      using "1.IH"[of "secs ! i" "secs[i := section_default]" "sh_link (sec_header (secs ! i))"]
      by (auto simp: word_less_1 unat_eq_0)
    then show ?thesis
      unfolding linked(7)
      by (rule upd[OF _ section_from_reader_ok[OF linked(6) ok_i[OF linked(1)]]])
  qed
qed

lemma elf_load_dynamic:
  assumes "elf_load bo img eh secs i = Inr out" "list_all section_ok secs"
    "sh_type (sec_header (secs ! i)) = SHT_DYNAMIC"
  shows "i < length out \<and> (\<exists>ds. sec_content (out ! i) = SC_Dynamic ds)"
proof -
  have len: "length out = length secs" by (rule elf_load_length[OF assms(1)])
  from assms(1) show ?thesis
  proof (cases rule: elf_load_cases)
    case (unlinked s)
    with assms(2,3) show ?thesis
      using section_from_reader_dynamic[OF unlinked(2)] by (simp add: list_all_length)
  next
    case (linked j secs2 s)
    with assms(2,3) len show ?thesis
      using section_from_reader_dynamic[OF linked(6)] by (simp add: list_all_length)
  qed
qed

lemma elf_load_Panic:
  "elf_load bo img eh secs i = Inl Panic \<Longrightarrow> i < length secs \<Longrightarrow>
    \<exists>s \<in> set secs. unat (sh_size (sec_header s)) > isize_max"
proof (induction bo img eh secs i rule: elf_load.induct)
  case (1 bo img eh secs i)
  let ?j = "unat (sh_link (sec_header (secs ! i)))"
  have here: "section_from_reader bo img l eh (secs ! i) = Inl Panic \<Longrightarrow> ?case" for l
    using section_from_reader_Panic[of bo img l eh "secs ! i"] "1.prems"(2) by (auto intro: nth_mem)
  show ?case
  proof (cases "sh_link (sec_header (secs ! i)) = 0 \<or> ?j \<ge> length secs")
    case True
    with "1.prems" here show ?thesis by (auto simp: elf_load_unlinked bind_res_eq_Inl)
  next
    case False
    then have j: "?j \<noteq> 0" "?j < length secs" by (simp_all add: unat_eq_0)
    with "1.prems" consider "elf_load bo img eh (secs[i := section_default]) ?j = Inl Panic"
      | l where "section_from_reader bo img l eh (secs ! i) = Inl Panic"
      by (auto simp: elf_load_linked[OF "1.prems"(2) refl] bind_res_eq_Inl)
    then show ?thesis
    proof cases
      case 1
      with "1.IH"[of "secs ! i" "secs[i := section_default]" "sh_link (sec_header (secs ! i))"]
        "1.prems"(2) j
      obtain s where "s \<in> set (secs[i := section_default])"
        "unat (sh_size (sec_header s)) > isize_max"
        by (auto simp: word_less_1 unat_eq_0)
      moreover then have "s \<noteq> section_default"
        by (auto simp: section_default_def section_header_default_def isize_max_def)
      ultimately show ?thesis
        using set_update_subset_insert[of secs i section_default] by auto
    next
      case (2 l)
      then show ?thesis by (rule here)
    qed
  qed
qed

section \<open>Reading a well-formed image\<close>

definition bytes_at :: "bytes \<Rightarrow> u64 \<Rightarrow> bytes \<Rightarrow> bool" where
  "bytes_at img off bs \<longleftrightarrow> unat off \<le> isize_max \<and> length bs \<le> isize_max \<and>
    take (length bs) (drop (unat off) img) = bs"

lemma seek_read_at: "bytes_at img off bs \<Longrightarrow> n = length bs \<Longrightarrow> seek_read img off n = Inr bs"
proof -
  assume at: "bytes_at img off bs" and n: "n = length bs"
  then have "length (take (length bs) (drop (unat off) img)) = length bs"
    by (simp only: bytes_at_def)
  then have "length bs \<le> length img - unat off" by simp
  with at n show ?thesis by (simp add: seek_read_eq_Inr bytes_at_def)
qed

text \<open>
  The parts of a file that \<open>from_reader\<close> looks at: the header, the two tables where the header
  says they are, with entries of the size of its class, and the section name table. In an
  \<open>elf_image\<close>, the names also lie inside that table.
\<close>

definition elf_layout ::
  "bytes \<Rightarrow> header \<Rightarrow> segment_header list \<Rightarrow> section_header list \<Rightarrow> bytes \<Rightarrow> bool" where
  "elf_layout img h segs shs tab \<longleftrightarrow>
    header_wf h \<and> take (length (encode_header h)) img = encode_header h \<and>
    list_all (segment_header_wf h) segs \<and> list_all (section_header_wf h) shs \<and>
    unat (e_phnum h) = length segs \<and> unat (e_shnum h) = length shs \<and>
    unat (e_phentsize h) = segment_header_size (ident_class h) \<and>
    unat (e_shentsize h) = section_header_size (ident_class h) \<and>
    bytes_at img (e_phoff h) (concat (map (encode_segment_header h) segs)) \<and>
    bytes_at img (e_shoff h) (concat (map (encode_section_header h) shs)) \<and>
    unat (e_shstrndx h) < length shs \<and>
    bytes_at img (sh_offset (shs ! unat (e_shstrndx h))) tab \<and>
    unat (sh_size (shs ! unat (e_shstrndx h))) = length tab"

definition elf_image ::
  "bytes \<Rightarrow> header \<Rightarrow> segment_header list \<Rightarrow> section_header list \<Rightarrow> bytes \<Rightarrow> bool" where
  "elf_image img h segs shs tab \<longleftrightarrow>
    elf_layout img h segs shs tab \<and> list_all (\<lambda>sh. unat (sh_name sh) \<le> length tab) shs"

text \<open>The section that \<open>from_reader\<close> makes of a section header and the name table.\<close>

definition named_section :: "bytes \<Rightarrow> section_header \<Rightarrow> elf_section" where
  "named_section tab sh = \<lparr>sec_header = sh, sec_name = first_nul_piece (drop (unat (sh_name sh)) tab),
    sec_content = Unloaded, sec_addrlock = True\<rparr>"

definition unnamed_section :: "section_header \<Rightarrow> elf_section" where
  "unnamed_section sh = \<lparr>sec_header = sh, sec_name = [], sec_content = Unloaded, sec_addrlock = True\<rparr>"

lemma unnamed_section_sel [simp]:
  "sec_header (unnamed_section sh) = sh" "sec_content (unnamed_section sh) = Unloaded"
  by (simp_all add: unnamed_section_def)

lemma header_enc_internal:
  assumes "byteorder_ok bo" and "header_wf h"
  shows "header_from_reader bo (encode_header h @ rest) = Inr (h, rest)"
  using assms
  by (cases h) (simp add: header_from_reader_def encode_header_def rd_bind_read_exact
    length_encode_ident rd_bind_apply[of "header_ident b" for b] header_ident_enc header_rest_enc
    header_default_def)

interpretation unnamed_codec: codec
    "rd_bind (section_header_from_reader bo eh) (\<lambda>sh. rd_return
        \<lparr>sec_header = sh, sec_name = [], sec_content = Unloaded, sec_addrlock = True\<rparr>)"
    "\<lambda>s. encode_section_header eh (sec_header s)"
    "\<lambda>s. byteorder_ok bo \<and> section_header_wf eh (sec_header s) \<and> s = unnamed_section (sec_header s)"
    for bo eh
proof
  fix s rest
  assume "byteorder_ok bo \<and> section_header_wf eh (sec_header s) \<and> s = unnamed_section (sec_header s)"
  then have bo: "byteorder_ok bo \<and> section_header_wf eh (sec_header s)"
    and s: "s = unnamed_section (sec_header s)" by blast+
  show "rd_bind (section_header_from_reader bo eh) (\<lambda>sh. rd_return
        \<lparr>sec_header = sh, sec_name = [], sec_content = Unloaded, sec_addrlock = True\<rparr>)
      (encode_section_header eh (sec_header s) @ rest) = Inr (s, rest)"
    using section_codec.decode[OF bo, of rest] s
    by (simp add: rd_bind_apply unnamed_section_def)
qed

lemma length_concat_encode:
  "(\<And>x. length (enc x) = n) \<Longrightarrow> length (concat (map enc xs)) = length xs * n"
  by (induction xs) auto

lemma read_segments_layout:
  assumes "byteorder_ok bo" and "elf_layout img h segs shs tab"
  shows "read_segments bo img h = Inr segs"
proof -
  have "seek_read img (e_phoff h) (unat (e_phentsize h) * unat (e_phnum h)) =
      Inr (concat (map (encode_segment_header h) segs))"
    using assms(2) by (intro seek_read_at) (simp_all add: elf_layout_def length_concat_encode)
  moreover have "read_many (length segs) (segment_header_from_reader bo h)
      (concat (map (encode_segment_header h) segs) @ []) = Inr (segs, [])"
    using assms by (intro segment_codec.decode_many) (simp add: elf_layout_def list_all_iff)
  ultimately show ?thesis using assms(2) by (simp add: read_segments_def elf_layout_def)
qed

lemma read_sections_layout:
  assumes "byteorder_ok bo" and "elf_layout img h segs shs tab"
  shows "read_sections bo img h = Inr (map unnamed_section shs)"
proof -
  have "seek_read img (e_shoff h) (unat (e_shnum h) * unat (e_shentsize h)) =
      Inr (concat (map (encode_section_header h) shs))"
    using assms(2) by (intro seek_read_at) (simp_all add: elf_layout_def length_concat_encode)
  moreover have "read_many (length (map unnamed_section shs))
      (rd_bind (section_header_from_reader bo h) (\<lambda>sh. rd_return
        \<lparr>sec_header = sh, sec_name = [], sec_content = Unloaded, sec_addrlock = True\<rparr>))
      (concat (map (\<lambda>s. encode_section_header h (sec_header s)) (map unnamed_section shs)) @ []) =
      Inr (map unnamed_section shs, [])"
    using assms by (intro unnamed_codec.decode_many)
      (simp add: elf_layout_def list_all_iff unnamed_section_def)
  ultimately show ?thesis using assms(2)
    by (simp add: read_sections_def elf_layout_def unnamed_section_def comp_def)
qed

lemma resolve_names_table:
  assumes "unat (e_shstrndx h) < length shs"
    and "seek_read img (sh_offset (shs ! unat (e_shstrndx h)))
      (unat (sh_size (shs ! unat (e_shstrndx h)))) = Inr tab"
    and "list_all (\<lambda>sh. unat (sh_name sh) \<le> length tab) shs"
  shows "resolve_names img h (map unnamed_section shs) = Inr (map (named_section tab) shs)"
proof -
  have "map_res (\<lambda>sec. bind_res (slice_from tab (unat (sh_name (sec_header sec)))) (\<lambda>name.
      Inr (sec\<lparr>sec_name := first_nul_piece name\<rparr>))) (map unnamed_section shs) =
    Inr (map (\<lambda>sec. sec\<lparr>sec_name := first_nul_piece (drop (unat (sh_name (sec_header sec))) tab)\<rparr>)
      (map unnamed_section shs))"
    using assms(3)
    by (intro map_res_all_Inr) (auto simp: slice_from_def list_all_iff unnamed_section_def)
  also have "map (\<lambda>sec. sec\<lparr>sec_name := first_nul_piece (drop (unat (sh_name (sec_header sec))) tab)\<rparr>)
      (map unnamed_section shs) = map (named_section tab) shs"
    by (simp add: unnamed_section_def named_section_def)
  finally show ?thesis
    using assms(1,2) by (simp add: resolve_names_def Let_def)
qed

lemma resolve_names_out_of_table:
  assumes "unat (e_shstrndx h) < length shs"
    and "seek_read img (sh_offset (shs ! unat (e_shstrndx h)))
      (unat (sh_size (shs ! unat (e_shstrndx h)))) = Inr tab"
    and "\<exists>sh \<in> set shs. unat (sh_name sh) > length tab"
  shows "resolve_names img h (map unnamed_section shs) = Inl Panic"
proof -
  have "map_res (\<lambda>sec. bind_res (slice_from tab (unat (sh_name (sec_header sec)))) (\<lambda>name.
      Inr (sec\<lparr>sec_name := first_nul_piece name\<rparr>))) (map unnamed_section shs) = Inl Panic"
  proof (subst map_res_Panic_iff)
    show "\<exists>x \<in> set (map unnamed_section shs).
        bind_res (slice_from tab (unat (sh_name (sec_header x))))
          (\<lambda>name. Inr (x\<lparr>sec_name := first_nul_piece name\<rparr>)) = Inl Panic"
      using assms(3) by (force simp: slice_from_def unnamed_section_def)
  qed (simp add: slice_from_def bind_res_eq_Inl)
  then show ?thesis using assms(1,2) by (simp add: resolve_names_def Let_def)
qed

lemma read_sections_shape:
  assumes "read_sections bo img h = Inr secs"
  shows "secs = map unnamed_section (map sec_header secs)"
proof -
  let ?rd = "rd_bind (section_header_from_reader bo h) (\<lambda>sh. rd_return
        \<lparr>sec_header = sh, sec_name = [], sec_content = Unloaded, sec_addrlock = True\<rparr>)"
  have "read_many n ?rd b = Inr (xs, r) \<Longrightarrow> xs = map unnamed_section (map sec_header xs)" for n b xs r
    by (induction n arbitrary: b xs) (auto simp: rd_bind_eq_Inr unnamed_section_def)
  with assms show ?thesis
    by (auto simp: read_sections_def bind_res_eq_Inr)
qed

lemma elf_from_reader_sections_ok:
  assumes "elf_from_reader bo img = Inr f"
  shows "list_all (\<lambda>s. section_ok s \<and> sec_content s = Unloaded) (elf_sections f)"
proof -
  from assms obtain h secs where
    secs: "read_sections bo img h = Inr secs" and out: "resolve_names img h secs = Inr (elf_sections f)"
    by (auto simp: elf_from_reader_def bind_res_eq_Inr)
  have un: "\<forall>s \<in> set secs. sec_content s = Unloaded"
    using read_sections_shape[OF secs] by (metis (no_types, lifting) elf_section.select_convs(3)
        imageE list.set_map unnamed_section_def)
  from out obtain tab where "map_res (\<lambda>sec. bind_res (slice_from tab (unat (sh_name (sec_header sec))))
      (\<lambda>name. Inr (sec\<lparr>sec_name := first_nul_piece name\<rparr>))) secs =
      (Inr (elf_sections f) :: (elf_error, elf_section list) res)"
    unfolding resolve_names_def bind_res_eq_Inr by (elim exE conjE) (rule that)
  then have "list_all2 (\<lambda>x y. sec_content y = sec_content x) secs (elf_sections f)"
    unfolding map_res_eq_Inr by (rule list_all2_mono) (auto simp: bind_res_eq_Inr)
  then have "length (elf_sections f) = length secs"
    and "\<And>i. i < length secs \<Longrightarrow> sec_content (elf_sections f ! i) = sec_content (secs ! i)"
    by (simp_all add: list_all2_conv_all_nth)
  with un have "\<forall>i < length (elf_sections f). sec_content (elf_sections f ! i) = Unloaded" by simp
  then show ?thesis by (simp add: list_all_length section_ok_def)
qed

lemma header_layout:
  assumes "byteorder_ok bo" and "elf_layout img h segs shs tab"
  shows "header_from_reader bo img = Inr (h, drop (length (encode_header h)) img)"
proof -
  have "img = encode_header h @ drop (length (encode_header h)) img"
    using assms(2) append_take_drop_id[of "length (encode_header h)" img] by (simp add: elf_layout_def)
  then show ?thesis
    using header_enc_internal[OF assms(1), of h "drop (length (encode_header h)) img"] assms(2)
    by (simp add: elf_layout_def)
qed

lemma elf_from_reader_layout:
  assumes "byteorder_ok bo" and "elf_image img h segs shs tab"
  shows "elf_from_reader bo img = Inr \<lparr>elf_header = h, elf_segments = segs,
    elf_sections = map (named_section tab) shs\<rparr>"
proof -
  have "elf_layout img h segs shs tab" using assms(2) by (simp add: elf_image_def)
  moreover from this have "resolve_names img h (map unnamed_section shs) = Inr (map (named_section tab) shs)"
    using assms(2)
    by (intro resolve_names_table seek_read_at) (simp_all add: elf_layout_def elf_image_def)
  ultimately show ?thesis
    using header_layout[OF assms(1)] read_segments_layout[OF assms(1)]
      read_sections_layout[OF assms(1)]
    by (simp add: elf_from_reader_def)
qed

section \<open>Panics\<close>

lemma u16_product_fits: "unat (a :: u16) * unat (b :: u16) \<le> isize_max"
proof -
  have "unat w \<le> 2 ^ 16" for w :: u16
    using order_less_imp_le[OF unsigned_less[of w]] by simp
  then have "unat a \<le> 2 ^ 16" "unat b \<le> 2 ^ 16" by blast+
  then have "unat a * unat b \<le> 2 ^ 16 * 2 ^ 16" by (rule mult_le_mono)
  then show ?thesis by (simp add: isize_max_def)
qed

lemma seek_read_u16_total: "seek_read img off (unat (a :: u16) * unat (b :: u16)) \<noteq> Inl Panic"
  using seek_read_Panic u16_product_fits not_less by blast

lemma read_segments_total: "read_segments bo img h \<noteq> Inl Panic"
  using total_readerD[OF total_read_many[OF segment_header_total]]
  by (auto simp: read_segments_def bind_res_eq_Inl seek_read_u16_total)

lemma read_sections_total: "read_sections bo img h \<noteq> Inl Panic"
proof -
  have "total_reader (rd_bind (section_header_from_reader bo h) (\<lambda>sh. rd_return
      \<lparr>sec_header = sh, sec_name = [], sec_content = Unloaded, sec_addrlock = True\<rparr>))"
    by (intro total_intros)
  from total_readerD[OF total_read_many[OF this]] show ?thesis
    by (auto simp: read_sections_def bind_res_eq_Inl seek_read_u16_total)
qed

lemma resolve_names_Panic:
  "resolve_names img h secs = Inl Panic \<longleftrightarrow> unat (e_shstrndx h) < length secs \<and>
    (seek_read img (sh_offset (sec_header (secs ! unat (e_shstrndx h))))
       (unat (sh_size (sec_header (secs ! unat (e_shstrndx h))))) = Inl Panic \<or>
     (\<exists>tab. seek_read img (sh_offset (sec_header (secs ! unat (e_shstrndx h))))
         (unat (sh_size (sec_header (secs ! unat (e_shstrndx h))))) = Inr tab \<and>
       (\<exists>s. s \<in> set secs \<and> length tab < unat (sh_name (sec_header s)))))"
proof -
  have "map_res (\<lambda>sec. bind_res (slice_from tab (unat (sh_name (sec_header sec)))) (\<lambda>name.
      Inr (sec\<lparr>sec_name := first_nul_piece name\<rparr>))) secs = (Inl Panic :: (elf_error, elf_section list) res)
    \<longleftrightarrow> (\<exists>s. s \<in> set secs \<and> length tab < unat (sh_name (sec_header s)))" for tab
    by (subst map_res_Panic_iff) (auto simp: slice_from_def bind_res_eq_Inl not_le)
  then show ?thesis by (auto simp: resolve_names_def Let_def bind_res_eq_Inl)
qed

section \<open>An example file\<close>

text \<open>
  A small 64-bit little-endian file with one segment and three sections: the name table, a
  dynamic section that needs \<open>libc.so.6\<close>, and the string table it is linked to.
\<close>

definition ex_names :: bytes where
  "ex_names = 0 # bstr ''.shstrtab'' @ 0 # bstr ''.dynamic'' @ 0 # bstr ''.dynstr'' @ [0]"

definition ex_strings :: bytes where "ex_strings = 0 # bstr ''libc.so.6'' @ [0]"

definition ex_header :: header where
  "ex_header = header_default\<lparr>e_type := ET_DYN, e_machine := Machine 62, e_phoff := 64, e_shoff := 120,
    e_phentsize := 56, e_phnum := 1, e_shentsize := 64, e_shnum := 3\<rparr>"

definition ex_segment :: segment_header where
  "ex_segment = \<lparr>p_type = PT_DYNAMIC, p_flags = 6, p_offset = 312, p_vaddr = 0, p_paddr = 0,
    p_filesz = 32, p_memsz = 32, p_align = 8\<rparr>"

definition ex_sections :: "section_header list" where
  "ex_sections = [
    section_header_default\<lparr>sh_name := 1, sh_type := SHT_STRTAB, sh_offset := 355, sh_size := 28\<rparr>,
    section_header_default\<lparr>sh_name := 11, sh_type := SHT_DYNAMIC, sh_offset := 312, sh_size := 32,
      sh_link := 2\<rparr>,
    section_header_default\<lparr>sh_name := 20, sh_type := SHT_STRTAB, sh_offset := 344, sh_size := 11\<rparr>]"

definition ex_dynamic :: bytes where
  "ex_dynamic = concat (map (encode_dynamic ex_header) ([(1, 1)] @ [(0, 0)]))"

definition ex_img :: bytes where
  "ex_img = encode_header ex_header @ encode_segment_header ex_header ex_segment @
    concat (map (encode_section_header ex_header) ex_sections) @ ex_dynamic @ ex_strings @ ex_names"

definition ex_secs :: "elf_section list" where
  "ex_secs = map (named_section ex_names) ex_sections"

definition ex_loaded :: "elf_section list" where
  "ex_loaded = ex_secs[
    1 := (ex_secs ! 1)\<lparr>sec_content := SC_Dynamic
      [\<lparr>dhtype = DT_NEEDED, dcontent = DC_String (bstr ''libc.so.6'') (Some 1)\<rparr>,
       \<lparr>dhtype = DT_NULL, dcontent = DC_None\<rparr>]\<rparr>,
    2 := (ex_secs ! 2)\<lparr>sec_content := SC_Strtab (Strtab None ex_strings)\<rparr>]"

lemma bytes_at_append:
  "unat off = length pre \<Longrightarrow> length pre \<le> isize_max \<Longrightarrow> length bs \<le> isize_max \<Longrightarrow>
    bytes_at (pre @ bs @ post) off bs"
  by (simp add: bytes_at_def)

lemma length_encode_header: "header_wf h \<Longrightarrow> length (encode_header h) = header_size (ident_class h)"
  by (simp add: encode_header_def length_encode_ident encode_rest_def Let_def header_size_def)

lemma ex_header_wf [simp]: "header_wf ex_header"
  by (simp add: header_wf_def ex_header_def header_default_def machine_variant_def machine_table_def
      machine_variants_defs from_bits_truncate_def fits_class_def)

lemma ex_header_class [simp]: "ident_class ex_header = Class64"
  by (simp add: ex_header_def header_default_def)

lemma ex_lengths [simp]:
  "length (encode_header ex_header) = 64" "length ex_strings = 11" "length ex_names = 28"
  "length ex_dynamic = 32" "length ex_sections = 3"
  by (simp_all add: length_encode_header header_size_def uclass_size_def ex_strings_def ex_names_def
      ex_dynamic_def encode_dynamic_def ex_sections_def)

lemma ex_sizes [simp]:
  "length (encode_segment_header ex_header p) = 56" "length (encode_section_header ex_header s) = 64"
  "length (concat (map (encode_section_header ex_header) ex_sections)) = 192"
  by (simp_all add: segment_header_size_def section_header_size_def uclass_size_def ex_sections_def)

lemma ex_img_at:
  "bytes_at ex_img 64 (encode_segment_header ex_header ex_segment)"
  "bytes_at ex_img 120 (concat (map (encode_section_header ex_header) ex_sections))"
  "bytes_at ex_img 312 ex_dynamic" "bytes_at ex_img 344 ex_strings" "bytes_at ex_img 355 ex_names"
proof -
  let ?h = "encode_header ex_header" and ?p = "encode_segment_header ex_header ex_segment"
    and ?s = "concat (map (encode_section_header ex_header) ex_sections)"
  have "bytes_at (?h @ ?p @ ?s @ ex_dynamic @ ex_strings @ ex_names) 64 ?p"
    by (rule bytes_at_append) (simp_all add: isize_max_def segment_header_size_def)
  moreover have "bytes_at ((?h @ ?p) @ ?s @ ex_dynamic @ ex_strings @ ex_names) 120 ?s"
    by (rule bytes_at_append) (simp_all add: isize_max_def segment_header_size_def)
  moreover have "bytes_at ((?h @ ?p @ ?s) @ ex_dynamic @ ex_strings @ ex_names) 312 ex_dynamic"
    by (rule bytes_at_append) (simp_all add: isize_max_def segment_header_size_def)
  moreover have "bytes_at ((?h @ ?p @ ?s @ ex_dynamic) @ ex_strings @ ex_names) 344 ex_strings"
    by (rule bytes_at_append) (simp_all add: isize_max_def segment_header_size_def)
  moreover have "bytes_at ((?h @ ?p @ ?s @ ex_dynamic @ ex_strings) @ ex_names @ []) 355 ex_names"
    by (rule bytes_at_append) (simp_all add: isize_max_def segment_header_size_def)
  ultimately show
    "bytes_at ex_img 64 (encode_segment_header ex_header ex_segment)"
    "bytes_at ex_img 120 (concat (map (encode_section_header ex_header) ex_sections))"
    "bytes_at ex_img 312 ex_dynamic" "bytes_at ex_img 344 ex_strings" "bytes_at ex_img 355 ex_names"
    by (simp_all only: ex_img_def append_assoc append_Nil2)
qed

lemma ex_img_header: "take 64 ex_img = encode_header ex_header"
  by (simp add: ex_img_def)

lemma ex_img_image: "elf_image ex_img ex_header [ex_segment] ex_sections ex_names"
proof -
  have "list_all (segment_header_wf ex_header) [ex_segment]"
    by (simp add: ex_segment_def segment_header_wf_def fits_class_def from_bits_truncate_def
        flags_all_def segment_flags_def)
  moreover have "list_all (section_header_wf ex_header) ex_sections"
    by (simp add: ex_sections_def section_header_wf_def section_header_default_def fits_class_def
        from_bits_truncate_def)
  moreover have "unat (e_phnum ex_header) = 1" "unat (e_shnum ex_header) = 3"
    "unat (e_phentsize ex_header) = 56" "unat (e_shentsize ex_header) = 64"
    "e_phoff ex_header = 64" "e_shoff ex_header = 120" "e_shstrndx ex_header = 0"
    by (simp_all add: ex_header_def header_default_def)
  moreover have "sh_offset (ex_sections ! 0) = 355" "unat (sh_size (ex_sections ! 0)) = 28"
    "list_all (\<lambda>sh. unat (sh_name sh) \<le> 28) ex_sections"
    by (simp_all add: ex_sections_def section_header_default_def)
  ultimately show ?thesis
    using ex_img_at ex_img_header
    by (simp add: elf_image_def elf_layout_def segment_header_size_def section_header_size_def
        uclass_size_def)
qed

lemma ex_load: "elf_load byteorder_std ex_img ex_header (map (named_section ex_names) ex_sections) 1 =
    Inr ex_loaded"
proof -
  have strs: "seek_read ex_img 344 11 = Inr ex_strings"
    by (rule seek_read_at[OF ex_img_at(4)]) simp
  have dyn: "seek_read ex_img 312 32 = Inr ex_dynamic"
    by (rule seek_read_at[OF ex_img_at(3)]) simp
  have "dynamic_loop byteorder_std ex_header (Some (Strtab None ex_strings))
      (concat (map (encode_dynamic ex_header) ([(1, 1)] @ [(0, 0)])) @ []) =
    Inr ([\<lparr>dhtype = DT_NEEDED, dcontent = DC_String (bstr ''libc.so.6'') (Some 1)\<rparr>] @
       [\<lparr>dhtype = DT_NULL, dcontent = DC_None\<rparr>])"
    by (rule dynamic_loop_entries[OF byteorder_std_ok])
      (simp_all add: fits_class_def dynamic_entry_def from_prim_dynamic_type dynamic_type_variants_def
        DT_defs string_content_def strtab_get_def first_nul_piece_takeWhile ex_strings_def)
  then have loop: "dynamic_loop byteorder_std ex_header (Some (Strtab None ex_strings)) ex_dynamic =
    Inr [\<lparr>dhtype = DT_NEEDED, dcontent = DC_String (bstr ''libc.so.6'') (Some 1)\<rparr>,
       \<lparr>dhtype = DT_NULL, dcontent = DC_None\<rparr>]"
    by (simp add: ex_dynamic_def)
  show ?thesis
    unfolding ex_loaded_def ex_secs_def
    by (subst elf_load_linked[where j = 2]; (subst elf_load_unlinked)?)
      (simp_all add: ex_sections_def named_section_def section_header_default_def section_default_def
        section_from_reader_def SHT_DYNAMIC_def SHT_NOBITS_def SHT_STRTAB_def strs dyn loop
        strtab_from_reader_def dynamic_from_reader_def)
qed

section \<open>Properties\<close>

text \<open>
  C10: A file whose header, program header table, section header table and name table are laid
  out as the header says is read into exactly those headers, every section named by the string
  its header points at in the name table and not loaded yet.
\<close>

theorem elf_from_reader_image:
  assumes "byteorder_ok bo" and "elf_image img h segs shs tab"
  shows "elf_from_reader bo img = Inr \<lparr>elf_header = h, elf_segments = segs,
    elf_sections = map (named_section tab) shs\<rparr>"
  by (rule elf_from_reader_layout[OF assms])

theorem elf_from_reader_image_witness:
  "elf_from_reader byteorder_std ex_img = Inr \<lparr>elf_header = ex_header, elf_segments = [ex_segment],
    elf_sections = map (named_section ex_names) ex_sections\<rparr>"
  by (rule elf_from_reader_image[OF byteorder_std_ok ex_img_image])

text \<open>
  C31: A file makes the reader panic, instead of returning an error, exactly when its tables are
  readable and the section name table is either larger than any vector or too short for the
  name offset of some section.
\<close>

theorem elf_from_reader_panics:
  "elf_from_reader bo img = Inl Panic \<longleftrightarrow>
    (\<exists>h r segs secs. header_from_reader bo img = Inr (h, r) \<and> read_segments bo img h = Inr segs \<and>
      read_sections bo img h = Inr secs \<and> unat (e_shstrndx h) < length secs \<and>
      (let sh = sec_header (secs ! unat (e_shstrndx h));
           table = seek_read img (sh_offset sh) (unat (sh_size sh))
       in table = Inl Panic \<or>
         (\<exists>tab. table = Inr tab \<and> (\<exists>s. s \<in> set secs \<and> length tab < unat (sh_name (sec_header s))))))"
  unfolding elf_from_reader_def Let_def
  by (auto simp: bind_res_eq_Inl read_segments_total read_sections_total resolve_names_Panic
      total_readerD[OF header_from_reader_total])

text \<open>
  C33: Loading a dynamic section leaves dynamic content in its place, so that the \<open>unwrap\<close> of
  \<open>as_dynamic\<close> in the dependency search cannot fail, and keeps every section's content of the
  kind its type calls for.
\<close>

theorem elf_load_dynamic_content:
  assumes "elf_load bo img eh secs i = Inr out" and "list_all section_ok secs"
    and "sh_type (sec_header (secs ! i)) = SHT_DYNAMIC"
  shows "list_all section_ok out \<and> i < length out \<and> as_dynamic (sec_content (out ! i)) \<noteq> None"
  using elf_load_ok[OF assms(1,2)] elf_load_dynamic[OF assms] by auto

theorem elf_load_dynamic_content_witness:
  "list_all section_ok ex_loaded \<and> 1 < length ex_loaded \<and>
    as_dynamic (sec_content (ex_loaded ! 1)) \<noteq> None"
  by (rule elf_load_dynamic_content[OF ex_load])
    (simp_all add: ex_sections_def named_section_def section_ok_def)

text \<open>
  C34: Loading changes nothing but contents: the sections keep their number, headers, names and
  locks, and a section that was loaded before stays as it was.
\<close>

theorem elf_load_preserves:
  assumes "elf_load bo img eh secs i = Inr out" and "k < length secs"
  shows "length out = length secs \<and> sec_header (out ! k) = sec_header (secs ! k) \<and>
    sec_name (out ! k) = sec_name (secs ! k) \<and> sec_addrlock (out ! k) = sec_addrlock (secs ! k) \<and>
    (sec_content (secs ! k) = Unloaded \<or> out ! k = secs ! k)"
  using elf_load_frame[OF assms(1)] assms(2)
  by (auto simp: same_frame_def list_all2_conv_all_nth)

theorem elf_load_preserves_witness:
  "length ex_loaded = length ex_secs \<and> sec_header (ex_loaded ! 2) = sec_header (ex_secs ! 2) \<and>
    sec_name (ex_loaded ! 2) = sec_name (ex_secs ! 2) \<and>
    sec_addrlock (ex_loaded ! 2) = sec_addrlock (ex_secs ! 2) \<and>
    (sec_content (ex_secs ! 2) = Unloaded \<or> ex_loaded ! 2 = ex_secs ! 2)"
  by (rule elf_load_preserves[OF ex_load[folded ex_secs_def]]) (simp add: ex_secs_def ex_sections_def)

end
