(* ===== verification/ReadStruct.thy ===== *)
theory ReadStruct
  imports RustStd
begin

text \<open>
  \<open>read_struct\<close> and \<open>read_structs\<close> of \<open>src/readstruct/mod.rs\<close>. They fill the memory of a
  \<open>repr(C)\<close> struct from the input; the size and the decoding of the struct's bytes, which the
  generic code gets from the type, are arguments. \<open>Vec::with_capacity\<close> panics when the bytes
  exceed \<open>isize::MAX\<close>.
\<close>

definition read_struct :: "nat \<Rightarrow> (bytes \<Rightarrow> 'a) \<Rightarrow> (io_error, 'a) reader" where
  "read_struct size_of decode = rd_bind (read_exact size_of) (\<lambda>buffer. rd_return (decode buffer))"

definition read_structs :: "nat \<Rightarrow> (bytes \<Rightarrow> 'a) \<Rightarrow> nat \<Rightarrow> (io_error, 'a list) reader" where
  "read_structs struct_size decode num_structs = (\<lambda>bs.
    let num_bytes = struct_size * num_structs
    in if num_bytes > isize_max then Inl Panic
       else rd_bind (read_exact num_bytes) (\<lambda>buffer.
         rd_return (map (\<lambda>i. decode (take struct_size (drop (i * struct_size) buffer)))
                        [0..<num_structs])) bs)"

interpretation struct_width: fixed_width "read_struct n d" n for n d
  unfolding read_struct_def by (rule width_intros | simp)+

lemma read_struct_append:
  "length b = n \<Longrightarrow> read_struct n d (b @ rest) = Inr (d b, rest)"
  by (simp add: read_struct_def rd_bind_apply)

lemma read_struct_short: "length bs < n \<Longrightarrow> read_struct n d bs = Inl (Fail UnexpectedEof)"
  by (simp add: read_struct_def rd_bind_apply read_exact_short)

lemma upt_Suc_shift: "[0..<Suc n] = 0 # map Suc [0..<n]"
  by (metis map_Suc_upt upt_conv_Cons zero_less_Suc)

lemma read_many_struct:
  "read_many n (read_struct k d) bs =
    (if k * n \<le> length bs
     then Inr (map (\<lambda>i. d (take k (drop (i * k) bs))) [0..<n], drop (k * n) bs)
     else Inl (Fail UnexpectedEof))"
proof (induction n arbitrary: bs)
  case 0
  then show ?case by simp
next
  case (Suc n)
  show ?case
  proof (cases "k \<le> length bs")
    case True
    then have "read_struct k d bs = Inr (d (take k bs), drop k bs)"
      by (simp add: read_struct_def rd_bind_apply read_exact_def)
    moreover have "k * Suc n \<le> length bs \<longleftrightarrow> k * n \<le> length (drop k bs)"
      using True by auto
    ultimately show ?thesis
      using Suc.IH[of "drop k bs"]
      by (simp add: rd_bind_apply upt_Suc_shift comp_def add.commute del: upt_Suc)
  next
    case False
    then show ?thesis by (auto simp: rd_bind_apply read_struct_short)
  qed
qed

text \<open>
  Reading an array of structs in one piece gives the structs, the rest and the error that
  reading them one by one gives, unless the array is larger than any vector.
\<close>

lemma read_structs_equiv:
  assumes "struct_size * num_structs \<le> isize_max"
  shows "read_structs struct_size decode num_structs bs =
    read_many num_structs (read_struct struct_size decode) bs"
proof -
  let ?k = struct_size and ?n = num_structs
  have "take ?k (drop (i * ?k) (take (?k * ?n) bs)) = take ?k (drop (i * ?k) bs)" if "i < ?n" for i
  proof -
    from that have "i * ?k + ?k \<le> ?k * ?n"
      by (metis Suc_leI mult.commute mult_Suc_right mult_le_mono2 add.commute)
    then have "?k \<le> ?k * ?n - i * ?k" by linarith
    then show ?thesis by (simp add: drop_take min_def)
  qed
  with assms show ?thesis
    by (simp add: read_structs_def read_many_struct Let_def rd_bind_apply read_exact_def)
qed

lemma read_structs_equiv_witness:
  "read_structs 2 le_nat 2 [1, 0, 2, 1, 9] = read_many 2 (read_struct 2 le_nat) [1, 0, 2, 1, 9]"
  by (rule read_structs_equiv) (simp add: isize_max_def)

end
