(* ===== verification/RustPath.thy ===== *)
theory RustPath
  imports RustStd
begin

text \<open>
  \<open>std::path\<close> on Unix: a path is its bytes, \<open>components\<close> normalises repeated separators and
  interior \<open>.\<close> entries away, \<open>parent\<close> and \<open>file_name\<close> work on the components from the back,
  and \<open>push\<close> inserts a separator unless one is there or the pushed path is absolute. The
  definitions work on bytes, as \<open>OsString\<close> keys of the program's caches do.
\<close>

type_synonym path = bytes

abbreviation slash :: u8 where "slash \<equiv> 47"
abbreviation dot :: u8 where "dot \<equiv> 46"

section \<open>Components\<close>

datatype component = RootDir | CurDir | ParentDir | Normal bytes

definition has_root :: "path \<Rightarrow> bool" where
  "has_root p = (case p of [] \<Rightarrow> False | b # _ \<Rightarrow> b = slash)"

definition include_cur_dir :: "path \<Rightarrow> bool" where
  "include_cur_dir p = (case p of [] \<Rightarrow> False | [b] \<Rightarrow> b = dot
                        | b # c # _ \<Rightarrow> b = dot \<and> c = slash)"

definition len_before_body :: "path \<Rightarrow> nat" where
  "len_before_body p = (if has_root p \<or> include_cur_dir p then 1 else 0)"

definition body_of :: "path \<Rightarrow> bytes" where
  "body_of p = drop (len_before_body p) p"

definition parse_single_component :: "bytes \<Rightarrow> component option" where
  "parse_single_component c =
    (if c = [dot] then None
     else if c = [dot, dot] then Some ParentDir
     else if c = [] then None
     else Some (Normal c))"

definition body_components :: "bytes \<Rightarrow> component list" where
  "body_components b = List.map_filter parse_single_component (split_on slash b)"

definition lead_components :: "path \<Rightarrow> component list" where
  "lead_components p =
    (if has_root p then [RootDir] else if include_cur_dir p then [CurDir] else [])"

definition components :: "path \<Rightarrow> component list" where
  "components p = lead_components p @ body_components (body_of p)"

text \<open>\<open>Component::as_os_str\<close>.\<close>

fun component_bytes :: "component \<Rightarrow> bytes" where
  "component_bytes RootDir = [slash]"
| "component_bytes CurDir = [dot]"
| "component_bytes ParentDir = [dot, dot]"
| "component_bytes (Normal n) = n"

text \<open>
  \<open>Components::trim_right\<close> on the reversed body: drop the pieces at the end that are no
  component (empty ones and \<open>.\<close>).
\<close>

definition last_piece :: "bytes \<Rightarrow> bytes" where
  "last_piece rb = rev (takeWhile (\<lambda>c. c \<noteq> slash) rb)"

definition before_last :: "bytes \<Rightarrow> bytes" where
  "before_last rb = drop 1 (dropWhile (\<lambda>c. c \<noteq> slash) rb)"

lemma length_before_last: "rb \<noteq> [] \<Longrightarrow> length (before_last rb) < length rb"
proof -
  assume "rb \<noteq> []"
  then have "length rb > 0" by simp
  moreover have "length (dropWhile (\<lambda>c. c \<noteq> slash) rb) \<le> length rb" by (rule length_dropWhile_le)
  ultimately show ?thesis unfolding before_last_def length_drop by linarith
qed

function trim_right :: "bytes \<Rightarrow> bytes" where
  "trim_right rb =
    (if rb = [] then []
     else if parse_single_component (last_piece rb) = None then trim_right (before_last rb)
     else rb)"
  by pat_completeness auto
termination
  by (relation "measure length") (auto simp: length_before_last)

declare trim_right.simps [simp del]

text \<open>\<open>Path::parent\<close> and \<open>Path::file_name\<close>.\<close>

definition parent :: "path \<Rightarrow> path option" where
  "parent p =
    (let lead = take (len_before_body p) p; rb = trim_right (rev (body_of p))
     in if rb = [] then (if has_root p then None else if include_cur_dir p then Some [] else None)
        else Some (lead @ rev (trim_right (before_last rb))))"

definition file_name :: "path \<Rightarrow> bytes option" where
  "file_name p =
    (let rb = trim_right (rev (body_of p))
     in if rb = [] then None
        else case parse_single_component (last_piece rb) of
               Some (Normal n) \<Rightarrow> Some n
             | _ \<Rightarrow> None)"

text \<open>\<open>PathBuf::push\<close>, which is also \<open>Path::join\<close>.\<close>

definition push :: "path \<Rightarrow> path \<Rightarrow> path" where
  "push p q =
    (if has_root q then q
     else if p \<noteq> [] \<and> last p \<noteq> slash then p @ [slash] @ q
     else p @ q)"

section \<open>Components of a body\<close>

lemma split_on_append_sep:
  "split_on sep (xs @ sep # ys) = split_on sep xs @ split_on sep ys"
proof (induction xs)
  case Nil
  then show ?case by simp
next
  case (Cons x xs)
  then show ?case by (cases "split_on sep xs") auto
qed

lemma body_components_Nil [simp]: "body_components [] = []"
  by (simp add: body_components_def parse_single_component_def map_filter_simps)

lemma map_filter_append:
  "List.map_filter f (xs @ ys) = List.map_filter f xs @ List.map_filter f ys"
  by (simp add: List.map_filter_def)

lemma body_components_append_slash:
  "body_components (xs @ slash # ys) = body_components xs @ body_components ys"
  by (simp add: body_components_def split_on_append_sep map_filter_append)

lemma body_components_piece:
  "slash \<notin> set c \<Longrightarrow> body_components c =
    (case parse_single_component c of None \<Rightarrow> [] | Some k \<Rightarrow> [k])"
  by (simp add: body_components_def split_on_clean map_filter_simps split: option.splits)

lemma body_components_slash [simp]: "body_components (slash # ys) = body_components ys"
  using body_components_append_slash[of "[]" ys] by simp

lemma body_components_snoc_slash [simp]: "body_components (xs @ [slash]) = body_components xs"
  using body_components_append_slash[of xs "[]"] by simp

lemma slash_notin_last_piece: "slash \<notin> set (last_piece rb)"
  by (simp add: last_piece_def)

text \<open>A non-empty body is what precedes its last piece, then the last piece.\<close>

lemma rev_body_split:
  "rev rb = last_piece rb \<and> before_last rb = []
   \<or> rev rb = rev (before_last rb) @ slash # last_piece rb"
proof -
  have *: "rb = takeWhile (\<lambda>c. c \<noteq> slash) rb @ dropWhile (\<lambda>c. c \<noteq> slash) rb" by simp
  show ?thesis
  proof (cases "dropWhile (\<lambda>c. c \<noteq> slash) rb")
    case Nil
    with * have "takeWhile (\<lambda>c. c \<noteq> slash) rb = rb" by (metis append_Nil2)
    then have "last_piece rb = rev rb" by (simp only: last_piece_def)
    moreover from Nil have "before_last rb = []" by (simp only: before_last_def drop_Nil)
    ultimately show ?thesis by simp
  next
    case (Cons x xs)
    from Cons[unfolded dropWhile_eq_Cons_conv] have "x = slash" by blast
    with Cons have "before_last rb = xs" by (simp add: before_last_def)
    moreover have "rev rb = rev (takeWhile (\<lambda>c. c \<noteq> slash) rb @ slash # xs)"
      by (rule arg_cong[OF *[unfolded Cons \<open>x = slash\<close>]])
    ultimately show ?thesis
      by (simp only: last_piece_def rev_append rev.simps append_assoc append.simps simp_thms)
  qed
qed

lemma body_components_split:
  "body_components (rev rb) = body_components (rev (before_last rb)) @
    (case parse_single_component (last_piece rb) of None \<Rightarrow> [] | Some k \<Rightarrow> [k])"
  using rev_body_split[of rb]
  by (auto simp: body_components_append_slash body_components_piece[OF slash_notin_last_piece])

lemma body_components_trim [simp]:
  "body_components (rev (trim_right rb)) = body_components (rev rb)"
proof (induction rb rule: trim_right.induct)
  case (1 rb)
  show ?case
  proof (cases "rb \<noteq> [] \<and> parse_single_component (last_piece rb) = None")
    case True
    then have "trim_right rb = trim_right (before_last rb)" by (simp add: trim_right.simps[of rb])
    with True "1.IH" body_components_split[of rb] show ?thesis by auto
  next
    case False
    then have "trim_right rb = rb" by (auto simp: trim_right.simps[of rb])
    then show ?thesis by simp
  qed
qed

lemma trim_right_last:
  "trim_right rb \<noteq> [] \<Longrightarrow> parse_single_component (last_piece (trim_right rb)) \<noteq> None"
proof (induction rb rule: trim_right.induct)
  case (1 rb)
  then show ?case by (auto simp: trim_right.simps[of rb])
qed

lemma trim_right_suffix: "\<exists>xs. rb = xs @ trim_right rb"
proof (induction rb rule: trim_right.induct)
  case (1 rb)
  show ?case
  proof (cases "rb \<noteq> [] \<and> parse_single_component (last_piece rb) = None")
    case True
    then have eq: "trim_right rb = trim_right (before_last rb)" by (simp add: trim_right.simps[of rb])
    from True "1.IH" obtain xs where xs: "before_last rb = xs @ trim_right (before_last rb)" by auto
    have "rb = (takeWhile (\<lambda>c. c \<noteq> slash) rb @ take 1 (dropWhile (\<lambda>c. c \<noteq> slash) rb))
                @ before_last rb"
      by (simp add: before_last_def)
    with xs eq show ?thesis by (metis append_assoc)
  next
    case False
    then have "trim_right rb = rb" by (auto simp: trim_right.simps[of rb])
    then show ?thesis by simp
  qed
qed

lemma before_last_suffix: "\<exists>xs. rb = xs @ before_last rb"
proof -
  have "rb = (takeWhile (\<lambda>c. c \<noteq> slash) rb @ take 1 (dropWhile (\<lambda>c. c \<noteq> slash) rb))
              @ before_last rb"
    by (simp add: before_last_def)
  then show ?thesis by blast
qed

section \<open>parent, file_name and push against components\<close>

lemma take_body_of: "take (len_before_body p) p @ body_of p = p"
  by (simp add: body_of_def)

lemma lead_cases:
  obtains (root) b where "p = slash # b" "has_root p" "\<not> include_cur_dir p"
      "len_before_body p = 1" "body_of p = b" "lead_components p = [RootDir]"
  | (cur) b where "p = dot # b" "\<not> has_root p" "include_cur_dir p"
      "len_before_body p = 1" "body_of p = b" "lead_components p = [CurDir]"
      "b = [] \<or> hd b = slash"
  | (none) "\<not> has_root p" "\<not> include_cur_dir p" "len_before_body p = 0" "body_of p = p"
      "lead_components p = []"
proof (cases "has_root p")
  case True
  then obtain b where "p = slash # b" by (auto simp: has_root_def split: list.splits)
  then show ?thesis
    by (intro root) (auto simp: has_root_def include_cur_dir_def len_before_body_def body_of_def
        lead_components_def split: list.splits)
next
  case False
  show ?thesis
  proof (cases "include_cur_dir p")
    case True
    then obtain b where "p = dot # b" "b = [] \<or> hd b = slash"
      by (auto simp: include_cur_dir_def split: list.splits)
    with True False show ?thesis
      by (intro cur) (auto simp: len_before_body_def body_of_def lead_components_def)
  next
    case F: False
    with False show ?thesis
      by (intro none) (auto simp: len_before_body_def body_of_def lead_components_def)
  qed
qed

lemma body_components_eq_Nil:
  "trim_right (rev b) = [] \<Longrightarrow> body_components b = []"
  using body_components_trim[of "rev b"] by simp

lemma last_component_of_body:
  assumes "trim_right (rev b) \<noteq> []"
  obtains k where "parse_single_component (last_piece (trim_right (rev b))) = Some k"
    "body_components b = body_components (rev (trim_right (before_last (trim_right (rev b))))) @ [k]"
proof -
  let ?t = "trim_right (rev b)"
  obtain k where k: "parse_single_component (last_piece ?t) = Some k"
    using trim_right_last[OF assms] by auto
  have "body_components b = body_components (rev ?t)" by simp
  also have "\<dots> = body_components (rev (before_last ?t)) @ [k]"
    using body_components_split[of ?t] k by simp
  finally show ?thesis using that[OF k] by simp
qed

text \<open>\<open>file_name\<close> is the last component when that is a normal one.\<close>

lemma file_name_components:
  "file_name p = (if components p = [] then None
    else case last (components p) of Normal n \<Rightarrow> Some n | _ \<Rightarrow> None)"
proof (cases "trim_right (rev (body_of p)) = []")
  case True
  then have "components p = lead_components p"
    by (simp add: components_def body_components_eq_Nil)
  with True show ?thesis
    by (auto simp: file_name_def lead_components_def)
next
  case False
  then obtain k where k: "parse_single_component (last_piece (trim_right (rev (body_of p)))) = Some k"
    and "body_components (body_of p) =
      body_components (rev (trim_right (before_last (trim_right (rev (body_of p)))))) @ [k]"
    by (rule last_component_of_body)
  then show ?thesis using False by (simp add: file_name_def components_def split: component.splits)
qed

lemma trimmed_prefix:
  "\<exists>ys. b = rev (trim_right (before_last (trim_right (rev b)))) @ ys"
proof -
  obtain xs where xs: "rev b = xs @ trim_right (rev b)" using trim_right_suffix by blast
  obtain ys where ys: "trim_right (rev b) = ys @ before_last (trim_right (rev b))"
    using before_last_suffix by blast
  obtain zs where zs: "before_last (trim_right (rev b)) =
      zs @ trim_right (before_last (trim_right (rev b)))"
    using trim_right_suffix by blast
  have "rev b = (xs @ ys @ zs) @ trim_right (before_last (trim_right (rev b)))"
    using xs ys zs by (metis append_assoc)
  then have "rev (rev b) = rev ((xs @ ys @ zs) @ trim_right (before_last (trim_right (rev b))))"
    by (rule arg_cong)
  then show ?thesis by (simp only: rev_rev_ident rev_append) blast
qed

lemma trimmed_not_dot: "rev (trim_right rb) \<noteq> [dot]"
proof
  assume "rev (trim_right rb) = [dot]"
  then have "trim_right rb = [dot]" by (metis rev_singleton_conv rev_rev_ident)
  with trim_right_last[of rb] show False
    by (simp add: last_piece_def parse_single_component_def)
qed

text \<open>The parent of a path has all its components but the last.\<close>

lemma parent_components:
  assumes "parent p = Some q"
  shows "components p \<noteq> []" and "components q = butlast (components p)"
proof -
  let ?t = "trim_right (rev (body_of p))"
  let ?b = "rev (trim_right (before_last ?t))"
  have *: "components p \<noteq> [] \<and> components q = butlast (components p)"
  proof (cases "?t = []")
    case True
    then have c: "components p = lead_components p"
      by (simp add: components_def body_components_eq_Nil)
    from assms True have "\<not> has_root p" "include_cur_dir p" "q = []"
      by (auto simp: parent_def Let_def split: if_splits)
    with c show ?thesis
      by (simp add: lead_components_def components_def has_root_def include_cur_dir_def
          len_before_body_def body_of_def)
  next
    case False
    from False obtain k where
      k: "body_components (body_of p) = body_components ?b @ [k]"
      by (rule last_component_of_body)
    from assms False have q: "q = take (len_before_body p) p @ ?b"
      by (auto simp: parent_def Let_def)
    obtain ys where ys: "body_of p = ?b @ ys" using trimmed_prefix by blast
    have "components q = lead_components p @ body_components ?b"
    proof (cases p rule: lead_cases)
      case (root b)
      with q have "q = slash # ?b" by simp
      with root show ?thesis
        by (simp add: components_def lead_components_def body_of_def len_before_body_def has_root_def)
    next
      case (cur b)
      with q have q': "q = dot # ?b" by simp
      from cur ys have "?b = [] \<or> hd ?b = slash" by (metis hd_append2 append_is_Nil_conv)
      then have "include_cur_dir q" "\<not> has_root q"
        using q' by (auto simp: include_cur_dir_def has_root_def split: list.splits)
      with cur q' show ?thesis
        by (simp add: components_def lead_components_def body_of_def len_before_body_def)
    next
      case none
      with q have q': "q = ?b" by simp
      from none ys have p: "p = ?b @ ys" by simp
      have "\<not> has_root ?b" "\<not> include_cur_dir ?b"
        using none(1,2) p trimmed_not_dot[of "before_last ?t"]
        by (auto simp: has_root_def include_cur_dir_def split: list.splits)
      with none q' show ?thesis
        by (simp add: components_def lead_components_def body_of_def len_before_body_def)
    qed
    moreover have "components p = (lead_components p @ body_components ?b) @ [k]"
      using k by (simp only: components_def append_assoc)
    ultimately show ?thesis by (simp only: butlast_snoc) simp
  qed
  then show "components p \<noteq> []" and "components q = butlast (components p)" by blast+
qed

text \<open>Pushing one normal name appends one component.\<close>

definition normal_name :: "bytes \<Rightarrow> bool" where
  "normal_name n \<longleftrightarrow> n \<noteq> [] \<and> n \<noteq> [dot] \<and> n \<noteq> [dot, dot] \<and> slash \<notin> set n"

lemma normal_name_not_rooted: "normal_name n \<Longrightarrow> \<not> has_root n"
  by (auto simp: normal_name_def has_root_def split: list.splits)

lemma normal_name_component: "normal_name n \<Longrightarrow> body_components n = [Normal n]"
  by (simp add: normal_name_def body_components_piece parse_single_component_def)

lemma components_Nil [simp]: "components [] = []"
  by (simp add: components_def lead_components_def has_root_def include_cur_dir_def body_of_def)

lemma components_normal_name: "normal_name n \<Longrightarrow> components n = [Normal n]"
proof (cases n rule: lead_cases)
  case (root b)
  moreover assume "normal_name n"
  ultimately show ?thesis by (simp add: normal_name_def)
next
  case (cur b)
  moreover assume "normal_name n"
  ultimately show ?thesis by (cases b) (auto simp: normal_name_def)
next
  case none
  moreover assume "normal_name n"
  ultimately show ?thesis by (simp add: components_def normal_name_component)
qed

text \<open>Pushing a path that is neither absolute nor starts with \<open>.\<close> appends its components.\<close>

lemma components_relative: "\<not> has_root q \<Longrightarrow> \<not> include_cur_dir q \<Longrightarrow> components q = body_components q"
  by (simp add: components_def lead_components_def body_of_def len_before_body_def)

definition join_slash :: "bytes \<Rightarrow> bytes \<Rightarrow> bytes" where
  "join_slash b q = b @ (if last b \<noteq> slash then [slash] else []) @ q"

lemma body_components_join:
  assumes "b \<noteq> []"
  shows "body_components (join_slash b q) = body_components b @ body_components q"
proof (cases "last b = slash")
  case True
  with assms have b: "b = butlast b @ [slash]" by (metis append_butlast_last_id)
  then have "body_components (join_slash b q) = body_components (butlast b @ slash # q)"
    using True by (simp add: join_slash_def) (metis append.assoc append_Cons append_Nil)
  also have "\<dots> = body_components b @ body_components q"
    by (metis b body_components_append_slash body_components_snoc_slash)
  finally show ?thesis .
next
  case False
  then show ?thesis by (simp add: join_slash_def body_components_append_slash)
qed

lemma components_cur: "b = [] \<or> hd b = slash \<Longrightarrow> components (dot # b) = CurDir # body_components b"
  by (auto simp: components_def lead_components_def has_root_def include_cur_dir_def body_of_def
      len_before_body_def split: list.splits)

lemma components_push_cur:
  assumes "b = [] \<or> hd b = slash" and q: "components q = body_components q"
  shows "components (join_slash (dot # b) q) = components (dot # b) @ components q"
proof (cases "b = []")
  case True
  then show ?thesis by (simp add: join_slash_def components_cur q)
next
  case False
  then have "join_slash (dot # b) q = dot # join_slash b q" and "hd (join_slash b q) = hd b"
    by (simp_all add: join_slash_def)
  with assms False body_components_join[OF False] show ?thesis by (simp add: components_cur)
qed

lemma components_push_relative:
  assumes "\<not> has_root q" and "\<not> include_cur_dir q"
  shows "components (push p q) = components p @ components q"
proof (cases "p = []")
  case True
  with assms show ?thesis by (simp add: push_def)
next
  case False
  have push: "push p q = join_slash p q"
    using False assms(1) by (simp add: push_def join_slash_def)
  note q = components_relative[OF assms]
  show ?thesis
  proof (cases p rule: lead_cases)
    case (root b)
    show ?thesis
    proof (cases "b = []")
      case True
      with root push show ?thesis
        by (simp add: join_slash_def components_def[of "[slash]"] components_def[of "slash # q"] q
            lead_components_def has_root_def body_of_def len_before_body_def)
    next
      case False
      then have "join_slash (slash # b) q = slash # join_slash b q" by (simp add: join_slash_def)
      with root push body_components_join[OF False] show ?thesis
        by (simp add: components_def[of "slash # x" for x] q lead_components_def has_root_def
            body_of_def len_before_body_def)
    qed
  next
    case (cur b)
    with push components_push_cur[OF _ q] show ?thesis by simp
  next
    case none
    have "\<not> has_root (push p q)" "\<not> include_cur_dir (push p q)"
      using none(1,2) False push
      by (auto simp: has_root_def include_cur_dir_def join_slash_def split: list.splits if_splits)
    then have "components (push p q) = body_components (join_slash p q)"
      by (simp add: components_relative push)
    with none body_components_join[OF False] q show ?thesis by (simp add: components_def[of p])
  qed
qed

lemma normal_name_not_cur: "normal_name n \<Longrightarrow> \<not> include_cur_dir n"
  by (auto simp: normal_name_def include_cur_dir_def split: list.splits)

lemma components_push_normal:
  "normal_name n \<Longrightarrow> components (push p n) = components p @ [Normal n]"
  by (simp add: components_push_relative normal_name_not_rooted normal_name_not_cur
      components_normal_name)

lemma components_push_Nil [simp]: "components (push p []) = components p"
  by (simp add: components_push_relative has_root_def include_cur_dir_def)

lemma components_push_parent: "components (push p [dot, dot]) = components p @ [ParentDir]"
proof -
  have "components [dot, dot] = [ParentDir]" by code_simp
  then show ?thesis by (simp add: components_push_relative has_root_def include_cur_dir_def)
qed

text \<open>Normal components in front mean that the path is relative.\<close>

lemma relative_from_components:
  "components p = map Normal ns \<Longrightarrow> \<not> has_root p \<and> \<not> include_cur_dir p"
  by (cases ns) (auto simp: components_def lead_components_def split: if_splits)

lemma file_name_push_normal: "normal_name n \<Longrightarrow> file_name (push p n) = Some n"
  by (simp add: file_name_components components_push_normal)

lemma normal_component_name: "Normal n \<in> set (components p) \<Longrightarrow> normal_name n"
proof -
  assume "Normal n \<in> set (components p)"
  then have "Normal n \<in> set (body_components (body_of p))"
    by (auto simp: components_def lead_components_def split: if_splits)
  then obtain c where "c \<in> set (split_on slash (body_of p))"
    "parse_single_component c = Some (Normal n)"
    by (auto simp: body_components_def List.map_filter_def)
  then show ?thesis
    by (auto simp: parse_single_component_def normal_name_def dest: split_on_no_sep split: if_splits)
qed

lemma file_name_normal: "file_name p = Some n \<Longrightarrow> normal_name n"
proof -
  assume "file_name p = Some n"
  then have "components p \<noteq> []" and "last (components p) = Normal n"
    by (auto simp: file_name_components split: if_splits component.splits)
  then have "Normal n \<in> set (components p)" by (metis last_in_set)
  then show ?thesis by (rule normal_component_name)
qed

end
