(* ===== verification/FileSystem.thy ===== *)
theory FileSystem
  imports RustPath
begin

text \<open>
  The file system as the read-only parts of the program see it: what opening and reading a whole
  file gives, \<open>Path::canonicalize\<close> (\<open>realpath\<close>) and \<open>Path::exists\<close>. It is the environment of
  the program and a parameter of every definition that uses it.
\<close>

record fs =
  fs_read :: "path \<Rightarrow> io_error + bytes"
  fs_canonicalize :: "path \<Rightarrow> io_error + path"
  fs_exists :: "path \<Rightarrow> bool"

text \<open>An \<open>io::Result\<close> as an outcome.\<close>

definition io_result :: "io_error + 'a \<Rightarrow> (io_error, 'a) res" where
  "io_result r = map_sum Fail id r"

lemma io_result_simps [simp]:
  "io_result (Inl e) = Inl (Fail e)" "io_result (Inr x) = Inr x" "io_result r \<noteq> Inl Panic"
  by (cases r; simp add: io_result_def)+

text \<open>
  A file system of regular files in directories without symbolic links: the instance that the
  examples use. Every path names itself.
\<close>

definition plain_fs :: "(path \<times> bytes) list \<Rightarrow> fs" where
  "plain_fs files = \<lparr>
    fs_read = (\<lambda>p. case map_of files p of None \<Rightarrow> Inl (OsError ENOENT) | Some b \<Rightarrow> Inr b),
    fs_canonicalize = (\<lambda>p. Inr p),
    fs_exists = (\<lambda>p. map_of files p \<noteq> None)\<rparr>"

end
