(* ===== verification/LdSoCache.thy ===== *)
theory LdSoCache
  imports ElfTypes ReadStruct FileSystem
begin

text \<open>
  The cache of the dynamic linker: the structures of \<open>src/elfkit/dl_cache.rs\<close> and
  \<open>LdsoCache::read_ld_so_cache\<close> of \<open>src/elfkit/ld_so_cache.rs\<close>. The structures are filled from
  the bytes of the file in the byte order of the machine (the argument \<open>native\<close>); a cache
  written in the other order is recognised by its size.
\<close>

section \<open>Structures\<close>

definition cachemagic_new :: bytes where "cachemagic_new = bstr ''glibc-ld.so.cache''"
definition cache_version :: bytes where "cache_version = bstr ''1.1''"

record file_entry_new =
  fe_flags :: "32 word"
  fe_key :: u32
  fe_value :: u32
  fe_osversion :: u32
  fe_hwcap :: u64

record cache_file_new =
  cf_magic :: bytes
  cf_version :: bytes
  cf_nlibs :: u32
  cf_len_strings :: u32
  cf_unused :: "u32 list"

definition ne_bytes :: "endianness \<Rightarrow> bytes \<Rightarrow> bytes" where
  "ne_bytes native bs = (case native of LittleEndian \<Rightarrow> bs | BigEndian \<Rightarrow> rev bs)"

definition ne_nat :: "endianness \<Rightarrow> bytes \<Rightarrow> nat" where
  "ne_nat native bs = le_nat (ne_bytes native bs)"

text \<open>The bytes of a field at an offset, the number of bytes and the offset of \<open>repr(C)\<close>.\<close>

definition field_at :: "nat \<Rightarrow> nat \<Rightarrow> bytes \<Rightarrow> bytes" where
  "field_at off n b = take n (drop off b)"

definition file_entry_size :: nat where "file_entry_size = 24"

definition file_entry_decode :: "endianness \<Rightarrow> bytes \<Rightarrow> file_entry_new" where
  "file_entry_decode native b = \<lparr>
    fe_flags = of_nat (ne_nat native (field_at 0 4 b)),
    fe_key = of_nat (ne_nat native (field_at 4 4 b)),
    fe_value = of_nat (ne_nat native (field_at 8 4 b)),
    fe_osversion = of_nat (ne_nat native (field_at 12 4 b)),
    fe_hwcap = of_nat (ne_nat native (field_at 16 8 b))\<rparr>"

definition cache_file_size :: nat where "cache_file_size = 48"

definition cache_file_decode :: "endianness \<Rightarrow> bytes \<Rightarrow> cache_file_new" where
  "cache_file_decode native b = \<lparr>
    cf_magic = field_at 0 17 b,
    cf_version = field_at 17 3 b,
    cf_nlibs = of_nat (ne_nat native (field_at 20 4 b)),
    cf_len_strings = of_nat (ne_nat native (field_at 24 4 b)),
    cf_unused = map (\<lambda>i. of_nat (ne_nat native (field_at (28 + 4 * i) 4 b))) [0..<5]\<rparr>"

section \<open>Searching\<close>

text \<open>\<open>windows(n)\<close> and \<open>position\<close>; a window size of 0 panics.\<close>

definition windows :: "nat \<Rightarrow> 'a list \<Rightarrow> 'a list list" where
  "windows n xs = map (\<lambda>i. take n (drop i xs)) [0..<length xs + 1 - n]"

fun position :: "('a \<Rightarrow> bool) \<Rightarrow> 'a list \<Rightarrow> nat option" where
  "position P [] = None"
| "position P (x # xs) = (if P x then Some 0 else map_option Suc (position P xs))"

definition find_subsequence :: "bytes \<Rightarrow> bytes \<Rightarrow> ('e, nat option) res" where
  "find_subsequence haystack needle =
    (if needle = [] then Inl Panic
     else Inr (position (\<lambda>window. window = needle) (windows (length needle) haystack)))"

section \<open>Reading the cache\<close>

type_synonym ldso_cache = "bytes \<rightharpoonup> bytes list"

text \<open>The comparison of the sizes in the header with the size of the file.\<close>

definition size_matches :: "nat \<Rightarrow> u32 \<Rightarrow> u32 \<Rightarrow> nat \<Rightarrow> bool" where
  "size_matches entries_pos nlibs len_strings file_size \<longleftrightarrow>
    entries_pos + unat nlibs * file_entry_size + unat len_strings = file_size"

text \<open>
  Up to the size check: the offset of the new-format header, the number of entries in the right
  byte order, and whether the bytes are swapped.
\<close>

definition read_cache_header :: "endianness \<Rightarrow> bytes \<Rightarrow> (io_error, nat \<times> u32 \<times> bool) res" where
  "read_cache_header native buf =
    bind_res (find_subsequence buf cachemagic_new) (\<lambda>found.
    case found of None \<Rightarrow> Inl (Fail InvalidData) | Some offset \<Rightarrow>
    bind_res (read_struct cache_file_size (cache_file_decode native) (drop offset buf)) (\<lambda>(cf, _).
    if cf_magic cf \<noteq> cachemagic_new then Inl (Fail InvalidData)
    else if cf_version cf \<noteq> cache_version then Inl (Fail InvalidData)
    else
      let entries_pos = offset + cache_file_size
      in if \<not> size_matches entries_pos (cf_nlibs cf) (cf_len_strings cf) (length buf)
         then
           let nlibs = swap_bytes (cf_nlibs cf); len_strings = swap_bytes (cf_len_strings cf)
           in if \<not> size_matches entries_pos nlibs len_strings (length buf)
              then Inl (Fail InvalidData) else Inr (offset, nlibs, True)
         else Inr (offset, cf_nlibs cf, False)))"

text \<open>
  A string of the table: the bytes up to the first NUL from an offset. The subtraction of the
  offset of the table and the slice both panic out of range.
\<close>

definition cache_string :: "nat \<Rightarrow> bytes \<Rightarrow> u32 \<Rightarrow> (io_error, bytes) res" where
  "cache_string offset string_table w =
    (if unat w < offset then Inl Panic
     else bind_res (slice_from string_table (unat w - offset)) (\<lambda>s. Inr (first_nul_piece s)))"

text \<open>\<open>cache.0.entry(key).or_insert_with(Vec::new).push(val)\<close>.\<close>

definition cache_insert :: "ldso_cache \<Rightarrow> bytes \<Rightarrow> bytes \<Rightarrow> ldso_cache" where
  "cache_insert cache key val =
    cache(key \<mapsto> (case cache key of None \<Rightarrow> [] | Some vals \<Rightarrow> vals) @ [val])"

fun cache_entries ::
  "bool \<Rightarrow> nat \<Rightarrow> bytes \<Rightarrow> ldso_cache \<Rightarrow> file_entry_new list \<Rightarrow> (io_error, ldso_cache) res" where
  "cache_entries byte_swap offset string_table cache [] = Inr cache"
| "cache_entries byte_swap offset string_table cache (fe # file_entries) =
    (let fe = (if byte_swap then fe\<lparr>fe_key := swap_bytes (fe_key fe), fe_value := swap_bytes (fe_value fe)\<rparr>
               else fe)
     in bind_res (cache_string offset string_table (fe_key fe)) (\<lambda>key.
        bind_res (cache_string offset string_table (fe_value fe)) (\<lambda>val.
        cache_entries byte_swap offset string_table (cache_insert cache key val) file_entries)))"

definition read_cache_bytes :: "endianness \<Rightarrow> bytes \<Rightarrow> (io_error, ldso_cache) res" where
  "read_cache_bytes native buf =
    bind_res (read_cache_header native buf) (\<lambda>(start, nlibs, byte_swap).
      let entries_pos = start + cache_file_size;
          strings_pos = entries_pos + file_entry_size * unat nlibs;
          offset = strings_pos - start;
          string_table = drop strings_pos buf
      in bind_res (read_structs file_entry_size (file_entry_decode native) (unat nlibs)
                    (drop entries_pos buf)) (\<lambda>(file_entries, _).
         cache_entries byte_swap offset string_table Map.empty file_entries))"

definition read_ld_so_cache :: "endianness \<Rightarrow> fs \<Rightarrow> path \<Rightarrow> (io_error, ldso_cache) res" where
  "read_ld_so_cache native F sysroot =
    bind_res (io_result (fs_read F (push sysroot (bstr ''etc/ld.so.cache'')))) (read_cache_bytes native)"

section \<open>Searching, as a specification\<close>

lemma position_Some_iff:
  "position P xs = Some i \<longleftrightarrow> i < length xs \<and> P (xs ! i) \<and> (\<forall>j < i. \<not> P (xs ! j))"
proof (induction xs arbitrary: i)
  case Nil
  then show ?case by simp
next
  case (Cons x xs)
  show ?case by (cases i) (auto simp: Cons All_less_Suc2)
qed

lemma find_subsequence_Some:
  assumes "needle \<noteq> []"
  shows "find_subsequence hay needle = Inr (Some i) \<longleftrightarrow>
    i + length needle \<le> length hay \<and> take (length needle) (drop i hay) = needle \<and>
    (\<forall>j < i. take (length needle) (drop j hay) \<noteq> needle)"
proof -
  have "length needle > 0" using assms by simp
  then show ?thesis
    using assms by (auto simp: find_subsequence_def position_Some_iff windows_def)
qed

lemma find_subsequence_not_Inl: "needle \<noteq> [] \<Longrightarrow> find_subsequence hay needle \<noteq> Inl e"
  by (simp add: find_subsequence_def)

lemma cachemagic_new_simps [simp]: "cachemagic_new \<noteq> []" "length cachemagic_new = 17"
  by (simp_all add: cachemagic_new_def)

lemma length_cache_version [simp]: "length cache_version = 3"
  by (simp add: cache_version_def)

section \<open>Grouping the entries\<close>

text \<open>What the table is after inserting pairs: the values of each key, in order.\<close>

definition group_pairs :: "(bytes \<times> bytes) list \<Rightarrow> ldso_cache" where
  "group_pairs ps k = (let vs = map snd (filter (\<lambda>p. fst p = k) ps) in if vs = [] then None else Some vs)"

lemma group_pairs_snoc: "group_pairs (ps @ [(k, v)]) = cache_insert (group_pairs ps) k v"
  by (rule ext) (auto simp: group_pairs_def cache_insert_def Let_def)

definition entry_order :: "bool \<Rightarrow> file_entry_new \<Rightarrow> file_entry_new" where
  "entry_order byte_swap fe =
    (if byte_swap then fe\<lparr>fe_key := swap_bytes (fe_key fe), fe_value := swap_bytes (fe_value fe)\<rparr>
     else fe)"

definition entry_in_range :: "nat \<Rightarrow> bytes \<Rightarrow> file_entry_new \<Rightarrow> bool" where
  "entry_in_range offset table fe \<longleftrightarrow>
    offset \<le> unat (fe_key fe) \<and> unat (fe_key fe) \<le> offset + length table \<and>
    offset \<le> unat (fe_value fe) \<and> unat (fe_value fe) \<le> offset + length table"

definition entry_pair :: "nat \<Rightarrow> bytes \<Rightarrow> file_entry_new \<Rightarrow> bytes \<times> bytes" where
  "entry_pair offset table fe =
    (first_nul_piece (drop (unat (fe_key fe) - offset) table),
     first_nul_piece (drop (unat (fe_value fe) - offset) table))"

lemma cache_string_ok:
  "offset \<le> unat w \<Longrightarrow> unat w \<le> offset + length table \<Longrightarrow>
    cache_string offset table w = Inr (first_nul_piece (drop (unat w - offset) table))"
  by (simp add: cache_string_def slice_from_def)

lemma cache_string_bad:
  "\<not> (offset \<le> unat w \<and> unat w \<le> offset + length table) \<Longrightarrow>
    cache_string offset table w = Inl Panic"
  by (auto simp: cache_string_def slice_from_def)

lemma cache_entries_Cons:
  "cache_entries sw offset table c (fe # fes) =
    (if entry_in_range offset table (entry_order sw fe)
     then cache_entries sw offset table (case entry_pair offset table (entry_order sw fe) of
            (k, v) \<Rightarrow> cache_insert c k v) fes
     else Inl Panic)"
proof (cases "entry_in_range offset table (entry_order sw fe)")
  case True
  then show ?thesis
    by (simp add: entry_order_def[symmetric] entry_in_range_def cache_string_ok entry_pair_def
        Let_def)
next
  case False
  then consider "cache_string offset table (fe_key (entry_order sw fe)) = Inl Panic"
    | k where "cache_string offset table (fe_key (entry_order sw fe)) = Inr k"
      "cache_string offset table (fe_value (entry_order sw fe)) = Inl Panic"
    unfolding entry_in_range_def by (metis cache_string_bad cache_string_ok)
  then show ?thesis
    using False by cases (simp_all add: entry_order_def[symmetric] Let_def)
qed

declare cache_entries.simps(2) [simp del]

lemma cache_entries_eq:
  "cache_entries sw offset table (group_pairs ps) fes =
    (if list_all (\<lambda>fe. entry_in_range offset table (entry_order sw fe)) fes
     then Inr (group_pairs (ps @ map (\<lambda>fe. entry_pair offset table (entry_order sw fe)) fes))
     else Inl Panic)"
proof (induction fes arbitrary: ps)
  case Nil
  then show ?case by simp
next
  case (Cons fe fes)
  obtain k v where kv: "entry_pair offset table (entry_order sw fe) = (k, v)" by fastforce
  with Cons[of "ps @ [(k, v)]"] show ?case
    by (auto simp: cache_entries_Cons group_pairs_snoc[symmetric])
qed

lemma group_pairs_Nil: "group_pairs [] = Map.empty"
  by (rule ext) (simp add: group_pairs_def)

section \<open>The image of a cache\<close>

definition enc_ne :: "endianness \<Rightarrow> u32 \<Rightarrow> bytes" where
  "enc_ne e w = ne_bytes e (to_le 4 (unat w))"

lemma length_ne_bytes [simp]: "length (ne_bytes e bs) = length bs"
  by (simp add: ne_bytes_def split: endianness.split)

lemma length_enc_ne [simp]: "length (enc_ne e w) = 4"
  by (simp add: enc_ne_def)

text \<open>Reading a word written in the same or in the other byte order.\<close>

lemma ne_nat_enc_ne:
  "(of_nat (ne_nat native (enc_ne e w)) :: u32) = (if e = native then w else swap_bytes w)"
proof -
  have same: "of_nat (le_nat (to_le 4 (unat w))) = w"
    using unat_lt_u32[of w] by (simp add: le_nat_to_le)
  show ?thesis
    by (cases e; cases native)
      (simp_all add: ne_nat_def enc_ne_def ne_bytes_def same swap_bytes_def)
qed

definition encode_entry :: "endianness \<Rightarrow> file_entry_new \<Rightarrow> bytes" where
  "encode_entry e fe = enc_ne e (fe_flags fe) @ enc_ne e (fe_key fe) @ enc_ne e (fe_value fe) @
    enc_ne e (fe_osversion fe) @ ne_bytes e (to_le 8 (unat (fe_hwcap fe)))"

definition encode_cache_header :: "endianness \<Rightarrow> u32 \<Rightarrow> u32 \<Rightarrow> u32 list \<Rightarrow> bytes" where
  "encode_cache_header e nlibs len_strings unused =
    cachemagic_new @ cache_version @ enc_ne e nlibs @ enc_ne e len_strings @
    concat (map (enc_ne e) unused)"

lemma length_encode_entry [simp]: "length (encode_entry e fe) = file_entry_size"
  by (simp add: encode_entry_def file_entry_size_def)

lemma length_encode_cache_header [simp]:
  "length unused = 5 \<Longrightarrow> length (encode_cache_header e n l unused) = cache_file_size"
  by (simp add: encode_cache_header_def cache_file_size_def length_concat comp_def sum_list_triv)

lemma entry_decode_offsets [simp]:
  "fe_key (entry_order (e \<noteq> native) (file_entry_decode native (encode_entry e fe))) = fe_key fe"
  "fe_value (entry_order (e \<noteq> native) (file_entry_decode native (encode_entry e fe))) = fe_value fe"
  by (simp_all add: entry_order_def file_entry_decode_def encode_entry_def field_at_def
      ne_nat_enc_ne)

text \<open>
  A cache file: whatever precedes the new-format header (the old format, for one), the header,
  the entries and the string table.
\<close>

definition cache_image ::
  "endianness \<Rightarrow> bytes \<Rightarrow> u32 list \<Rightarrow> file_entry_new list \<Rightarrow> bytes \<Rightarrow> bytes" where
  "cache_image e pre unused es table =
    pre @ encode_cache_header e (of_nat (length es)) (of_nat (length table)) unused @
    concat (map (encode_entry e) es) @ table"

definition cache_image_ok ::
  "endianness \<Rightarrow> endianness \<Rightarrow> bytes \<Rightarrow> u32 list \<Rightarrow> file_entry_new list \<Rightarrow> bytes \<Rightarrow> bool" where
  "cache_image_ok native e pre unused es table \<longleftrightarrow>
    length unused = 5 \<and> length es < 2 ^ 32 \<and> length table < 2 ^ 32 \<and>
    list_all (\<lambda>j. take 17 (drop j (cache_image e pre unused es table)) \<noteq> cachemagic_new)
      [0..<length pre] \<and>
    (e \<noteq> native \<longrightarrow> \<not> size_matches (length pre + cache_file_size) (swap_bytes (of_nat (length es)))
       (swap_bytes (of_nat (length table))) (length (cache_image e pre unused es table)))"

lemma length_entries [simp]: "length (concat (map (encode_entry e) es)) = length es * file_entry_size"
  by (induction es) auto

lemma length_cache_image:
  "length unused = 5 \<Longrightarrow> length (cache_image e pre unused es table) =
    length pre + cache_file_size + length es * file_entry_size + length table"
  by (simp add: cache_image_def)

lemma cache_file_decode_header:
  fixes e native :: endianness and n l :: u32
  assumes "length unused = 5"
  defines "h \<equiv> cache_file_decode native (encode_cache_header e n l unused)"
  shows "cf_magic h = cachemagic_new" "cf_version h = cache_version"
    "cf_nlibs h = (if e = native then n else swap_bytes n)"
    "cf_len_strings h = (if e = native then l else swap_bytes l)"
  unfolding h_def
  by (simp_all add: cache_file_decode_def encode_cache_header_def field_at_def ne_nat_enc_ne)

lemma unat_of_nat_u32 [simp]: "n < 2 ^ 32 \<Longrightarrow> unat (of_nat n :: u32) = n"
  by (simp add: unat_of_nat)

lemma read_cache_header_image:
  assumes "cache_image_ok native e pre unused es table"
  shows "read_cache_header native (cache_image e pre unused es table) =
    Inr (length pre, of_nat (length es), e \<noteq> native)"
proof -
  let ?img = "cache_image e pre unused es table"
  let ?h = "encode_cache_header e (of_nat (length es)) (of_nat (length table)) unused"
  have u: "length unused = 5" using assms by (simp add: cache_image_ok_def)
  have drop: "drop (length pre) ?img = ?h @ concat (map (encode_entry e) es) @ table"
    by (simp add: cache_image_def)
  then have "take 17 (drop (length pre) ?img) = cachemagic_new"
    by (simp add: encode_cache_header_def)
  moreover have "length pre + 17 \<le> length ?img"
    using u by (simp add: length_cache_image cache_file_size_def)
  ultimately have found: "find_subsequence ?img cachemagic_new = Inr (Some (length pre))"
    using assms by (subst find_subsequence_Some) (simp_all add: cache_image_ok_def list_all_iff)
  have rd: "read_struct cache_file_size (cache_file_decode native) (drop (length pre) ?img) =
      Inr (cache_file_decode native ?h, concat (map (encode_entry e) es) @ table)"
    using u by (simp add: drop read_struct_append)
  have "size_matches (length pre + cache_file_size) (of_nat (length es)) (of_nat (length table))
      (length ?img)"
    using assms u by (simp add: size_matches_def length_cache_image cache_image_ok_def)
  moreover have "e \<noteq> native \<Longrightarrow> \<not> size_matches (length pre + cache_file_size)
      (swap_bytes (of_nat (length es))) (swap_bytes (of_nat (length table))) (length ?img)"
    using assms by (simp add: cache_image_ok_def)
  ultimately show ?thesis
    by (auto simp: read_cache_header_def found rd cache_file_decode_header[OF u] Let_def)
qed

lemma read_structs_entries:
  "length es < 2 ^ 32 \<Longrightarrow>
    read_structs file_entry_size (file_entry_decode native) (length es)
      (concat (map (encode_entry e) es) @ table) =
    Inr (map (\<lambda>fe. file_entry_decode native (encode_entry e fe)) es, table)"
proof -
  assume n: "length es < 2 ^ 32"
  have "take file_entry_size (drop (i * file_entry_size) (concat (map (encode_entry e) es))) =
      encode_entry e (es ! i)" if "i < length es" for i
    using that
  proof (induction es arbitrary: i)
    case (Cons fe es)
    then show ?case by (cases i) auto
  qed simp
  then have "map (\<lambda>i. file_entry_decode native (take file_entry_size (drop (i * file_entry_size)
        (concat (map (encode_entry e) es))))) [0..<length es] =
      map (\<lambda>fe. file_entry_decode native (encode_entry e fe)) es"
    by (intro nth_equalityI) simp_all
  with n show ?thesis
    by (simp add: read_structs_def rd_bind_apply isize_max_def file_entry_size_def Let_def
        mult.commute[of _ "length es"])
qed

section \<open>Properties\<close>

text \<open>
  C20: A cache file, in the byte order of the machine or in the other one, is read into the table
  that lists under each name the paths of its entries in the order of the file, provided the
  string offsets of the entries lie in the string table.
\<close>

theorem ld_so_cache_image:
  assumes "cache_image_ok native e pre unused es table"
    and "list_all (entry_in_range (cache_file_size + file_entry_size * length es) table) es"
    and "fs_read F (push sysroot (bstr ''etc/ld.so.cache'')) = Inr (cache_image e pre unused es table)"
  shows "read_ld_so_cache native F sysroot =
    Inr (group_pairs (map (entry_pair (cache_file_size + file_entry_size * length es) table) es))"
proof -
  let ?base = "cache_file_size + file_entry_size * length es"
  have n: "length es < 2 ^ 32" and u: "length unused = 5"
    using assms(1) by (simp_all add: cache_image_ok_def)
  have entries: "drop (length pre + cache_file_size) (cache_image e pre unused es table) =
      concat (map (encode_entry e) es) @ table"
    using u by (simp add: cache_image_def)
  have strings: "drop (length pre + cache_file_size + file_entry_size * length es)
      (cache_image e pre unused es table) = table"
    using u by (simp add: cache_image_def mult.commute)
  have "cache_entries (e \<noteq> native) ?base table (group_pairs [])
      (map (\<lambda>fe. file_entry_decode native (encode_entry e fe)) es) =
    Inr (group_pairs (map (entry_pair ?base table) es))"
    using assms(2)
    by (simp add: cache_entries_eq list_all_iff entry_in_range_def entry_pair_def[abs_def] comp_def
        cong: map_cong)
  then have "read_cache_bytes native (cache_image e pre unused es table) =
      Inr (group_pairs (map (entry_pair ?base table) es))"
    using n by (simp add: read_cache_bytes_def read_cache_header_image[OF assms(1)] Let_def entries
        strings read_structs_entries group_pairs_Nil)
  then show ?thesis by (simp only: read_ld_so_cache_def assms(3) bind_res_Inr io_result_simps)
qed

lemma to_le_4:
  "to_le 4 n = [of_nat n, of_nat (n div 256), of_nat (n div 256 div 256), of_nat (n div 256 div 256 div 256)]"
proof -
  have four: "(4 :: nat) = Suc (Suc (Suc (Suc 0)))" by simp
  show ?thesis unfolding four by (simp only: to_le.simps)
qed

lemma swap_bytes_small [simp]: "swap_bytes 2 = 0x02000000" "swap_bytes 9 = 0x09000000"
  by (simp_all add: swap_bytes_def to_le_4)

definition example_entry :: "u32 \<Rightarrow> u32 \<Rightarrow> file_entry_new" where
  "example_entry k v = \<lparr>fe_flags = 0x303, fe_key = k, fe_value = v, fe_osversion = 0, fe_hwcap = 0\<rparr>"

text \<open>A big-endian cache behind four other bytes, read on a little-endian machine.\<close>

theorem ld_so_cache_image_witness:
  "read_ld_so_cache LittleEndian
     (plain_fs [(bstr ''/etc/ld.so.cache'', cache_image BigEndian [1, 2, 3, 4] [0, 0, 0, 0, 0]
        [example_entry 96 99, example_entry 96 103] (bstr ''c1'' @ [0] @ bstr ''/c1'' @ [0] @ bstr ''/d''))])
     (bstr ''/'') =
   Inr (group_pairs (map (entry_pair (cache_file_size + file_entry_size *
        length [example_entry 96 99, example_entry 96 103])
        (bstr ''c1'' @ [0] @ bstr ''/c1'' @ [0] @ bstr ''/d''))
      [example_entry 96 99, example_entry 96 103]))"
proof (rule ld_so_cache_image)
  show "cache_image_ok LittleEndian BigEndian [1, 2, 3, 4] [0, 0, 0, 0, 0]
      [example_entry 96 99, example_entry 96 103] (bstr ''c1'' @ [0] @ bstr ''/c1'' @ [0] @ bstr ''/d'')"
  proof -
    have "length (cache_image BigEndian [1, 2, 3, 4] [0, 0, 0, 0, 0]
      [example_entry 96 99, example_entry 96 103] (bstr ''c1'' @ [0] @ bstr ''/c1'' @ [0] @ bstr ''/d'')) = 109"
      by (simp add: length_cache_image cache_file_size_def file_entry_size_def)
    moreover have "1 # xs \<noteq> cachemagic_new" "2 # xs \<noteq> cachemagic_new" "3 # xs \<noteq> cachemagic_new"
      "4 # xs \<noteq> cachemagic_new" for xs
      by (simp_all add: cachemagic_new_def)
    ultimately show ?thesis
      by (simp add: cache_image_ok_def size_matches_def cache_file_size_def file_entry_size_def
          cache_image_def)
  qed
  show "list_all (entry_in_range (cache_file_size + file_entry_size *
        length [example_entry 96 99, example_entry 96 103])
        (bstr ''c1'' @ [0] @ bstr ''/c1'' @ [0] @ bstr ''/d''))
      [example_entry 96 99, example_entry 96 103]"
    by (simp add: entry_in_range_def example_entry_def cache_file_size_def file_entry_size_def)
  show "fs_read (plain_fs [(bstr ''/etc/ld.so.cache'', cache_image BigEndian [1, 2, 3, 4]
        [0, 0, 0, 0, 0] [example_entry 96 99, example_entry 96 103]
        (bstr ''c1'' @ [0] @ bstr ''/c1'' @ [0] @ bstr ''/d''))])
      (push (bstr ''/'') (bstr ''etc/ld.so.cache'')) =
    Inr (cache_image BigEndian [1, 2, 3, 4] [0, 0, 0, 0, 0]
      [example_entry 96 99, example_entry 96 103] (bstr ''c1'' @ [0] @ bstr ''/c1'' @ [0] @ bstr ''/d''))"
    by (simp add: plain_fs_def push_def has_root_def)
qed

text \<open>The entries of an arbitrary file, once its header is accepted.\<close>

definition cache_file_entries :: "endianness \<Rightarrow> bytes \<Rightarrow> nat \<Rightarrow> nat \<Rightarrow> file_entry_new list" where
  "cache_file_entries native buf start n =
    map (\<lambda>i. file_entry_decode native
        (take file_entry_size (drop (start + cache_file_size + i * file_entry_size) buf))) [0..<n]"

lemma read_cache_header_size:
  "read_cache_header native buf = Inr (start, nlibs, sw) \<Longrightarrow>
    start + cache_file_size + unat nlibs * file_entry_size \<le> length buf"
  by (auto simp: read_cache_header_def bind_res_eq_Inr size_matches_def Let_def
      split: option.splits if_splits)

lemma read_cache_header_not_Panic: "read_cache_header native buf \<noteq> Inl Panic"
  by (auto simp: read_cache_header_def bind_res_eq_Inl find_subsequence_not_Inl read_struct_def
      rd_bind_eq_Panic read_exact_eq_Inl Let_def split: option.splits)

lemma read_cache_bytes_entries:
  assumes "read_cache_header native buf = Inr (start, nlibs, sw)"
  shows "read_cache_bytes native buf =
    cache_entries sw (cache_file_size + file_entry_size * unat nlibs)
      (drop (start + cache_file_size + file_entry_size * unat nlibs) buf) (group_pairs [])
      (cache_file_entries native buf start (unat nlibs))"
proof -
  have n: "unat nlibs < 2 ^ 32" using unat_lt_u32[of nlibs] by simp
  have size: "start + cache_file_size + unat nlibs * file_entry_size \<le> length buf"
    by (rule read_cache_header_size[OF assms])
  have "take file_entry_size (drop (i * file_entry_size)
      (take (file_entry_size * unat nlibs) (drop (start + cache_file_size) buf))) =
    take file_entry_size (drop (start + cache_file_size + i * file_entry_size) buf)"
    if "i < unat nlibs" for i
  proof -
    from that have "Suc i * file_entry_size \<le> unat nlibs * file_entry_size"
      by (intro mult_le_mono1) simp
    then show ?thesis by (simp add: drop_take min_def file_entry_size_def add.commute add.left_commute)
  qed
  then have "map (\<lambda>i. file_entry_decode native (take file_entry_size (drop (i * file_entry_size)
      (take (file_entry_size * unat nlibs) (drop (start + cache_file_size) buf))))) [0..<unat nlibs] =
    cache_file_entries native buf start (unat nlibs)"
    by (simp add: cache_file_entries_def)
  moreover have "unat nlibs * file_entry_size \<le> length buf - (start + cache_file_size)"
    using size by simp
  moreover have "unat nlibs * file_entry_size \<le> isize_max"
    using n by (simp add: isize_max_def file_entry_size_def)
  ultimately show ?thesis
    by (simp add: read_cache_bytes_def assms Let_def group_pairs_Nil
        read_structs_def rd_bind_apply read_exact_def mult.commute[of _ "unat nlibs"])
qed

text \<open>
  C32: Reading a cache panics exactly on a file with an accepted header of which an entry has a
  key or value offset outside of the string table; such a file is not reported as invalid data.
\<close>

theorem ld_so_cache_panics:
  "read_cache_bytes native buf = Inl Panic \<longleftrightarrow>
    (\<exists>start nlibs byte_swap. read_cache_header native buf = Inr (start, nlibs, byte_swap) \<and>
      list_ex (\<lambda>fe. \<not> entry_in_range (cache_file_size + file_entry_size * unat nlibs)
          (drop (start + cache_file_size + file_entry_size * unat nlibs) buf)
          (entry_order byte_swap fe))
        (cache_file_entries native buf start (unat nlibs)))"
proof (cases "read_cache_header native buf")
  case (Inl e)
  then show ?thesis
    using read_cache_header_not_Panic[of native buf] by (simp add: read_cache_bytes_def)
next
  case (Inr p)
  obtain start nlibs sw where p: "p = (start, nlibs, sw)" by (cases p)
  show ?thesis
    unfolding read_cache_bytes_entries[OF Inr[unfolded p]] cache_entries_eq
    by (simp add: Inr p list_all_iff list_ex_iff)
qed

end
