(* ===== verification/ReplaceSlice.thy ===== *)
theory ReplaceSlice
  imports RustStd
begin

text \<open>
  \<open>replace_slice\<close> of \<open>src/elfkit/ldd.rs\<close>: the replacement of every occurrence of a slice, found
  from the left without overlap. The loop advances by the length of the pattern, so it does not
  end for an empty pattern; it is a \<open>partial_function\<close>, and not returning is the value \<open>None\<close>.
\<close>

definition starts_with :: "'a list \<Rightarrow> 'a list \<Rightarrow> bool" where
  "starts_with xs pat \<longleftrightarrow> take (length pat) xs = pat"

partial_function (option) replace_loop ::
  "'a list \<Rightarrow> 'a list \<Rightarrow> 'a list \<Rightarrow> nat \<Rightarrow> 'a list \<Rightarrow> (nat \<times> 'a list) option" where
  "replace_loop buf pat to i res =
    (if i \<le> length buf - length pat then
       if starts_with (drop i buf) pat then replace_loop buf pat to (i + length pat) (res @ to)
       else replace_loop buf pat to (i + 1) (res @ [buf ! i])
     else Some (i, res))"

definition replace_slice :: "'a list \<Rightarrow> 'a list \<Rightarrow> 'a list \<Rightarrow> 'a list option" where
  "replace_slice buf pat to =
    (if length buf < length pat then Some buf
     else map_option (\<lambda>(i, res). if i < length buf then res @ drop i buf else res)
       (replace_loop buf pat to 0 []))"

section \<open>The substitution it implements\<close>

text \<open>Leftmost substitution of a non-empty pattern, on the list itself.\<close>

function subst_slice :: "'a list \<Rightarrow> 'a list \<Rightarrow> 'a list \<Rightarrow> 'a list" where
  "subst_slice pat to [] = []"
| "subst_slice pat to (x # xs) =
    (if pat \<noteq> [] \<and> starts_with (x # xs) pat
     then to @ subst_slice pat to (drop (length pat) (x # xs))
     else x # subst_slice pat to xs)"
  by pat_completeness auto
termination
  by (relation "measure (\<lambda>(pat, to, xs). length xs)") auto

lemma starts_with_append [simp]: "starts_with (pat @ xs) pat"
  by (simp add: starts_with_def)

lemma starts_with_length: "starts_with xs pat \<Longrightarrow> length pat \<le> length xs"
proof -
  assume "starts_with xs pat"
  then have "length (take (length pat) xs) = length pat" by (simp only: starts_with_def)
  then show ?thesis by simp
qed

lemma subst_slice_short: "length xs < length pat \<Longrightarrow> subst_slice pat to xs = xs"
proof (induction pat to xs rule: subst_slice.induct)
  case (2 pat to x xs)
  then have "\<not> starts_with (x # xs) pat" using starts_with_length[of "x # xs" pat] by auto
  with 2 show ?case by simp
qed simp

lemma subst_slice_match:
  "pat \<noteq> [] \<Longrightarrow> starts_with xs pat \<Longrightarrow>
    subst_slice pat to xs = to @ subst_slice pat to (drop (length pat) xs)"
  by (cases xs) (auto simp: starts_with_def)

lemma replace_loop_subst:
  assumes "pat \<noteq> []" and "length pat \<le> length buf" and "i \<le> length buf"
  shows "\<exists>j out. replace_loop buf pat to i res = Some (j, out) \<and> j \<le> length buf \<and>
    out @ drop j buf = res @ subst_slice pat to (drop i buf)"
  using assms(3)
proof (induction "length buf - i" arbitrary: i res rule: less_induct)
  case less
  have pat: "0 < length pat" using assms(1) by simp
  show ?case
  proof (cases "i \<le> length buf - length pat")
    case False
    then have "length (drop i buf) < length pat" using assms(2) less.prems by simp
    then have "subst_slice pat to (drop i buf) = drop i buf" by (rule subst_slice_short)
    moreover have "replace_loop buf pat to i res = Some (i, res)"
      using False by (subst replace_loop.simps) simp
    ultimately show ?thesis using less.prems by simp
  next
    case True
    then have i: "i < length buf" using pat assms(2) by linarith
    have cons: "drop i buf = buf ! i # drop (i + 1) buf" using i by (simp add: Cons_nth_drop_Suc)
    show ?thesis
    proof (cases "starts_with (drop i buf) pat")
      case match: True
      have "i + length pat \<le> length buf" using True assms(2) by linarith
      moreover have "length buf - (i + length pat) < length buf - i" using pat i by linarith
      ultimately obtain j out where "replace_loop buf pat to (i + length pat) (res @ to) = Some (j, out)"
        "j \<le> length buf"
        "out @ drop j buf = (res @ to) @ subst_slice pat to (drop (i + length pat) buf)"
        using less.hyps[of "i + length pat" "res @ to"] by blast
      moreover have "replace_loop buf pat to i res = replace_loop buf pat to (i + length pat) (res @ to)"
        using True match by (subst replace_loop.simps) simp
      moreover have "subst_slice pat to (drop i buf) =
          to @ subst_slice pat to (drop (i + length pat) buf)"
        using match assms(1) by (simp add: subst_slice_match add.commute)
      ultimately show ?thesis by simp
    next
      case no: False
      have "length buf - (i + 1) < length buf - i" using i by linarith
      then obtain j out where "replace_loop buf pat to (i + 1) (res @ [buf ! i]) = Some (j, out)"
        "j \<le> length buf"
        "out @ drop j buf = (res @ [buf ! i]) @ subst_slice pat to (drop (i + 1) buf)"
        using less.hyps[of "i + 1" "res @ [buf ! i]"] i by auto
      moreover have "replace_loop buf pat to i res = replace_loop buf pat to (i + 1) (res @ [buf ! i])"
        using True no by (subst replace_loop.simps) simp
      moreover have "subst_slice pat to (drop i buf) = buf ! i # subst_slice pat to (drop (i + 1) buf)"
        using no by (simp add: cons)
      ultimately show ?thesis by simp
    qed
  qed
qed

lemma replace_slice_subst:
  "pat \<noteq> [] \<Longrightarrow> replace_slice buf pat to = Some (subst_slice pat to buf)"
proof (cases "length buf < length pat")
  case True
  then show ?thesis by (simp add: replace_slice_def subst_slice_short)
next
  case False
  assume "pat \<noteq> []"
  with False obtain j out where "replace_loop buf pat to 0 [] = Some (j, out)" "j \<le> length buf"
    "out @ drop j buf = subst_slice pat to buf"
    using replace_loop_subst[of pat buf 0 to "[]"] by auto
  with False show ?thesis by (auto simp: replace_slice_def)
qed

text \<open>With an empty pattern the loop never leaves its first position.\<close>

lemma replace_loop_empty: "replace_loop buf [] to i res = Some y \<Longrightarrow> length buf < i"
proof -
  have "replace_loop buf pat to i res = Some y \<Longrightarrow> pat = [] \<longrightarrow> length buf < i" for pat
    by (rule replace_loop.raw_induct[of "\<lambda>buf pat to i res y. pat = [] \<longrightarrow> length buf < i"])
      (auto simp: starts_with_def split: if_splits)
  then show "replace_loop buf [] to i res = Some y \<Longrightarrow> length buf < i" by blast
qed

section \<open>Properties\<close>

text \<open>
  C26: With a non-empty pattern the loop ends, and the result is the leftmost substitution. In
  particular, \<open>$ORIGIN\<close> is always expanded.
\<close>

theorem replace_slice_equiv:
  assumes "pat \<noteq> []"
  shows "replace_slice buf pat to = Some (subst_slice pat to buf)"
  by (rule replace_slice_subst[OF assms])

theorem replace_slice_equiv_witness:
  "replace_slice (bstr ''$ORIGIN/../lib'') (bstr ''$ORIGIN'') (bstr ''/usr/bin'') =
    Some (subst_slice (bstr ''$ORIGIN'') (bstr ''/usr/bin'') (bstr ''$ORIGIN/../lib''))"
  by (rule replace_slice_equiv) simp

text \<open>
  The loop returns for exactly the non-empty patterns: with an empty pattern it does not end,
  on any input.
\<close>

lemma replace_slice_terminates:
  "(\<exists>out. replace_slice buf pat to = Some out) \<longleftrightarrow> pat \<noteq> []"
proof
  assume "pat \<noteq> []"
  then show "\<exists>out. replace_slice buf pat to = Some out" by (simp add: replace_slice_subst)
next
  assume "\<exists>out. replace_slice buf pat to = Some out"
  then show "pat \<noteq> []"
    using replace_loop_empty[of buf to 0 "[]"] by (auto simp: replace_slice_def)
qed

end
