(* ===== verification/Ldd.thy ===== *)
theory Ldd
  imports ElfFile LdSoCache ReplaceSlice
begin

text \<open>
  The dependency search of \<open>src/elfkit/ldd.rs\<close>: the canonicalisation cache, the reading of the
  search paths and needed names of one binary, and the search of each name along the run paths of
  the binary, the cache of the dynamic linker and the default directories. A state holds what is
  shared between the binaries: the cache, the set of visited paths and the work queue.
\<close>

section \<open>State\<close>

text \<open>The immutable fields of \<open>Ldd\<close>.\<close>

record ldd_env =
  env_cache :: "ldso_cache option"
  default_libdir :: "path list"
  dest_path :: path

text \<open>
  The field \<open>canon_cache\<close>, the set \<open>visited\<close> and the queue of binaries with their run paths.
\<close>

record ldd_state =
  canon_cache :: "path \<rightharpoonup> path"
  visited :: "path set"
  queue :: "(path \<times> path set) list"

definition ldd_new :: "ldso_cache option \<Rightarrow> path list \<Rightarrow> path \<Rightarrow> ldd_env" where
  "ldd_new cache slpath dest = \<lparr>env_cache = cache, default_libdir = slpath, dest_path = dest\<rparr>"

datatype recurse_error =
    OpenFailed io_error
  | NotDynamic
  | ElfFailure elf_error
  | UnableToFind bytes "path set"

section \<open>Canonicalisation\<close>

definition canonicalize :: "fs \<Rightarrow> path \<Rightarrow> ldd_state \<Rightarrow> (io_error + path) \<times> ldd_state" where
  "canonicalize F p s = (case canon_cache s p of
      Some val \<Rightarrow> (Inr val, s)
    | None \<Rightarrow> (case fs_canonicalize F p of
        Inl e \<Rightarrow> (Inl e, s)
      | Inr val \<Rightarrow> (Inr val, s\<lparr>canon_cache := (canon_cache s)(p \<mapsto> val)\<rparr>)))"

definition canonicalize_dir :: "fs \<Rightarrow> path \<Rightarrow> ldd_state \<Rightarrow> path option \<times> ldd_state" where
  "canonicalize_dir F p s = (case file_name p of
      None \<Rightarrow> (None, s)
    | Some source_filename \<Rightarrow> (case parent p of
        None \<Rightarrow> (None, s)
      | Some dirname \<Rightarrow> (case canonicalize F dirname s of
          (Inl _, s') \<Rightarrow> (None, s')
        | (Inr canon_dirname, s') \<Rightarrow> (Some (push canon_dirname source_filename), s'))))"

text \<open>\<open>self.canonicalize_dir(&joined).unwrap_or(joined)\<close>.\<close>

definition canonical_or_self :: "fs \<Rightarrow> path \<Rightarrow> ldd_state \<Rightarrow> path \<times> ldd_state" where
  "canonical_or_self F joined s = (case canonicalize_dir F joined s of
      (None, s') \<Rightarrow> (joined, s') | (Some p, s') \<Rightarrow> (p, s'))"

section \<open>Search paths and needed names of a binary\<close>

text \<open>
  \<open>replace_slice(&n, b"$ORIGIN", dir)\<close>; the loop ends because the pattern is not empty
  (\<open>replace_slice_subst\<close>).
\<close>

definition expand_origin :: "bytes \<Rightarrow> path \<Rightarrow> bytes" where
  "expand_origin n dir = the (replace_slice n (bstr ''$ORIGIN'') dir)"

text \<open>
  One string of a run path. The pieces between the colons are expanded with the directory of the
  binary, whose \<open>unwrap\<close> panics for a path without a parent; there is at least one piece.
\<close>

definition add_run_paths :: "path \<Rightarrow> bytes \<Rightarrow> path set \<Rightarrow> (recurse_error, path set) res" where
  "add_run_paths path name lpaths = (case parent path of
      None \<Rightarrow> Inl Panic
    | Some dir \<Rightarrow> Inr (lpaths \<union> set (map (\<lambda>n. expand_origin n dir) (split_on 0x3a name))))"

fun scan_entries ::
  "path \<Rightarrow> dynamic list \<Rightarrow> path set \<times> bytes list \<Rightarrow> (recurse_error, path set \<times> bytes list) res" where
  "scan_entries path [] acc = Inr acc"
| "scan_entries path (d # ds) (lpaths, deps) = (case dcontent d of
      DC_String name _ \<Rightarrow>
        if dhtype d = DT_RPATH \<or> dhtype d = DT_RUNPATH then
          bind_res (add_run_paths path name lpaths) (\<lambda>lpaths. scan_entries path ds (lpaths, deps))
        else if dhtype d = DT_NEEDED then scan_entries path ds (lpaths, deps @ [name])
        else scan_entries path ds (lpaths, deps)
    | _ \<Rightarrow> scan_entries path ds (lpaths, deps))"

text \<open>
  The loop over the section indices. The outcome of \<open>load\<close> and of \<open>as_dynamic\<close> is unwrapped, so
  every failure to load a dynamic section is a panic.
\<close>

fun scan_sections ::
  "byteorder \<Rightarrow> bytes \<Rightarrow> header \<Rightarrow> path \<Rightarrow> nat list \<Rightarrow> elf_section list \<Rightarrow> path set \<times> bytes list \<Rightarrow>
    (recurse_error, path set \<times> bytes list) res" where
  "scan_sections bo img eh path [] secs acc = Inr acc"
| "scan_sections bo img eh path (shndx # rest) secs acc =
    (if shndx \<ge> length secs then Inl Panic
     else if sh_type (sec_header (secs ! shndx)) = SHT_DYNAMIC then
       (case elf_load bo img eh secs shndx of
         Inl _ \<Rightarrow> Inl Panic
       | Inr secs' \<Rightarrow> (case as_dynamic (sec_content (secs' ! shndx)) of
           None \<Rightarrow> Inl Panic
         | Some ds \<Rightarrow> bind_res (scan_entries path ds acc) (scan_sections bo img eh path rest secs')))
     else scan_sections bo img eh path rest secs acc)"

definition collect_deps ::
  "byteorder \<Rightarrow> fs \<Rightarrow> path \<Rightarrow> path set \<Rightarrow> (recurse_error, path set \<times> bytes list) res" where
  "collect_deps bo F path lpaths =
    bind_res (map_fail OpenFailed (io_result (fs_read F path))) (\<lambda>img.
    bind_res (map_fail (\<lambda>e. if e = InvalidMagic then NotDynamic else ElfFailure e)
      (elf_from_reader bo img)) (\<lambda>f.
    scan_sections bo img (elf_header f) path [0..<length (elf_sections f)] (elf_sections f) (lpaths, [])))"

section \<open>The search\<close>

text \<open>\<open>joined.exists() && !dest.exists()\<close>, the destination being the concatenation of the bytes.\<close>

definition wanted :: "fs \<Rightarrow> ldd_env \<Rightarrow> path \<Rightarrow> bool" where
  "wanted F env joined \<longleftrightarrow> fs_exists F joined \<and> \<not> fs_exists F (dest_path env @ joined)"

definition enqueue :: "path \<times> path set \<Rightarrow> ldd_state \<Rightarrow> ldd_state" where
  "enqueue job s = s\<lparr>queue := queue s @ [job]\<rparr>"

definition mark_visited :: "path \<Rightarrow> ldd_state \<Rightarrow> ldd_state" where
  "mark_visited p s = s\<lparr>visited := insert p (visited s)\<rparr>"

text \<open>
  The loop over the run paths. The result says whether \<open>continue 'outer\<close> was reached.
\<close>

fun search_lpaths ::
  "fs \<Rightarrow> ldd_env \<Rightarrow> path set \<Rightarrow> bytes \<Rightarrow> path list \<Rightarrow> ldd_state \<Rightarrow> bool \<times> ldd_state" where
  "search_lpaths F env lpaths dep [] s = (False, s)"
| "search_lpaths F env lpaths dep (lpath # rest) s =
    (case canonical_or_self F (push lpath dep) s of (joined, s) \<Rightarrow>
      if joined \<notin> visited s then
        let s = mark_visited joined s
        in if wanted F env joined then (True, enqueue (joined, lpaths) s)
           else search_lpaths F env lpaths dep rest s
      else (True, s))"

text \<open>The loop over the values of the linker cache, which has no early exit.\<close>

fun search_cache ::
  "fs \<Rightarrow> ldd_env \<Rightarrow> path set \<Rightarrow> path list \<Rightarrow> ldd_state \<Rightarrow> ldd_state" where
  "search_cache F env lpaths [] s = s"
| "search_cache F env lpaths (f # vals) s =
    (case canonical_or_self F f s of (joined, s) \<Rightarrow>
      if joined \<notin> visited s then
        let s = mark_visited joined s
        in search_cache F env lpaths vals
             (if wanted F env joined then enqueue (joined, lpaths) s else s)
      else search_cache F env lpaths vals s)"

text \<open>The loop over the default directories.\<close>

fun search_default ::
  "fs \<Rightarrow> ldd_env \<Rightarrow> path set \<Rightarrow> bytes \<Rightarrow> path list \<Rightarrow> ldd_state \<Rightarrow> bool \<times> ldd_state" where
  "search_default F env lpaths dep [] s = (False, s)"
| "search_default F env lpaths dep (lpath # rest) s =
    (case canonical_or_self F (push lpath dep) s of (joined, s) \<Rightarrow>
      if joined \<notin> visited s then
        let s = mark_visited joined s
        in if wanted F env joined then (True, enqueue (joined, lpaths) s)
           else search_default F env lpaths dep rest s
      else (True, s))"

text \<open>
  One dependency. \<open>order\<close> is the order in which the hash set of run paths is iterated.
\<close>

definition find_dep ::
  "fs \<Rightarrow> ldd_env \<Rightarrow> path list \<Rightarrow> path set \<Rightarrow> bytes \<Rightarrow> ldd_state \<Rightarrow> bool \<times> ldd_state" where
  "find_dep F env order lpaths dep s =
    (case search_lpaths F env lpaths dep order s of
      (True, s) \<Rightarrow> (True, s)
    | (False, s) \<Rightarrow> (case Option.bind (env_cache env) (\<lambda>cache. cache dep) of
        Some vals \<Rightarrow> (True, search_cache F env lpaths vals s)
      | None \<Rightarrow> search_default F env lpaths dep (default_libdir env) s))"

fun find_deps ::
  "fs \<Rightarrow> ldd_env \<Rightarrow> path list \<Rightarrow> path set \<Rightarrow> bytes list \<Rightarrow> ldd_state \<Rightarrow>
    (recurse_error, unit) res \<times> ldd_state" where
  "find_deps F env order lpaths [] s = (Inr (), s)"
| "find_deps F env order lpaths (dep # deps) s =
    (case find_dep F env order lpaths dep s of
      (True, s) \<Rightarrow> find_deps F env order lpaths deps s
    | (False, s) \<Rightarrow> (Inl (Fail (UnableToFind dep lpaths)), s))"

definition recurse ::
  "byteorder \<Rightarrow> fs \<Rightarrow> ldd_env \<Rightarrow> (path set \<Rightarrow> path list) \<Rightarrow> path \<Rightarrow> path set \<Rightarrow> ldd_state \<Rightarrow>
    (recurse_error, unit) res \<times> ldd_state" where
  "recurse bo F env order path lpaths s = (case collect_deps bo F path lpaths of
      Inl e \<Rightarrow> (Inl e, s)
    | Inr (lpaths, deps) \<Rightarrow> find_deps F env (order lpaths) lpaths deps s)"

end
