(* ===== verification/LddSearch.thy ===== *)
theory LddSearch
  imports Ldd
begin

text \<open>
  What the search of \<open>Ldd\<close> does: the canonicalisation cache is transparent, a search along a
  list of directories stops at the first candidate that was visited or is wanted, and whatever a
  binary adds to the queue is new, exists and is not installed yet.
\<close>

section \<open>The canonicalisation cache\<close>

text \<open>Each entry of the cache is what the file system answers.\<close>

definition cache_ok :: "fs \<Rightarrow> ldd_state \<Rightarrow> bool" where
  "cache_ok F s \<longleftrightarrow> (\<forall>p v. canon_cache s p = Some v \<longrightarrow> fs_canonicalize F p = Inr v)"

text \<open>The contract of an operation that remembers results of a function in a state.\<close>

locale memo =
  fixes f :: "'k \<Rightarrow> 'r" and call :: "'k \<Rightarrow> 's \<Rightarrow> 'r \<times> 's" and ok :: "'s \<Rightarrow> bool"
    and frame :: "'s \<Rightarrow> 'b"
  assumes call_ok: "ok s \<Longrightarrow> ok (snd (call k s))"
    and call_value: "ok s \<Longrightarrow> fst (call k s) = f k"
    and call_frame: "frame (snd (call k s)) = frame s"

fun run_calls :: "('k \<Rightarrow> 's \<Rightarrow> 'r \<times> 's) \<Rightarrow> 'k list \<Rightarrow> 's \<Rightarrow> 'r list \<times> 's" where
  "run_calls call [] s = ([], s)"
| "run_calls call (k # ks) s =
    (case call k s of (r, s) \<Rightarrow> case run_calls call ks s of (rs, s) \<Rightarrow> (r # rs, s))"

context memo
begin

lemma callE:
  assumes "ok s" and "call k s = (r, s')"
  shows "r = f k" and "ok s'" and "frame s' = frame s"
  using assms call_ok[of s k] call_value[of s k] call_frame[of k s] by simp_all

lemma frameE: "call k s = (r, s') \<Longrightarrow> frame s' = frame s"
  using call_frame[of k s] by simp

lemma run_calls_value: "ok s \<Longrightarrow> fst (run_calls call ks s) = map f ks \<and> ok (snd (run_calls call ks s))"
proof (induction ks arbitrary: s)
  case Nil
  then show ?case by simp
next
  case (Cons k ks)
  obtain r s' where c: "call k s = (r, s')" by fastforce
  have "r = f k" "ok s'" using callE[OF Cons.prems c] by blast+
  with Cons.IH[of s'] c show ?case by (auto split: prod.splits)
qed

end

text \<open>What the three canonicalisations return without a cache.\<close>

definition dir_canonical :: "fs \<Rightarrow> path \<Rightarrow> path option" where
  "dir_canonical F p = (case file_name p of
      None \<Rightarrow> None
    | Some n \<Rightarrow> (case parent p of
        None \<Rightarrow> None
      | Some d \<Rightarrow> (case fs_canonicalize F d of Inl _ \<Rightarrow> None | Inr c \<Rightarrow> Some (push c n))))"

definition candidate :: "fs \<Rightarrow> path \<Rightarrow> path" where
  "candidate F p = (case dir_canonical F p of None \<Rightarrow> p | Some q \<Rightarrow> q)"

definition work_of :: "ldd_state \<Rightarrow> path set \<times> (path \<times> path set) list" where
  "work_of s = (visited s, queue s)"

interpretation canon: memo "fs_canonicalize F" "canonicalize F" "cache_ok F" work_of for F
proof
  fix s k
  show "cache_ok F (snd (canonicalize F k s))" if "cache_ok F s"
    using that by (auto simp: canonicalize_def cache_ok_def split: option.splits sum.splits)
  show "fst (canonicalize F k s) = fs_canonicalize F k" if "cache_ok F s"
    using that by (auto simp: canonicalize_def cache_ok_def split: option.splits sum.splits)
  show "work_of (snd (canonicalize F k s)) = work_of s"
    by (simp add: canonicalize_def work_of_def split: option.splits sum.splits)
qed

interpretation canon_dir: memo "dir_canonical F" "canonicalize_dir F" "cache_ok F" work_of for F
proof
  fix s k
  show "cache_ok F (snd (canonicalize_dir F k s))" if "cache_ok F s"
    using that canon.callE(2)[OF that]
    by (auto simp: canonicalize_dir_def split: option.splits prod.splits sum.splits)
  show "fst (canonicalize_dir F k s) = dir_canonical F k" if "cache_ok F s"
    using canon.callE(1)[OF that]
    by (auto simp: canonicalize_dir_def dir_canonical_def split: option.splits prod.splits sum.splits)
  show "work_of (snd (canonicalize_dir F k s)) = work_of s"
    by (auto simp: canonicalize_dir_def dest: canon.frameE
        split: option.splits prod.splits sum.splits)
qed

interpretation canon_self: memo "candidate F" "canonical_or_self F" "cache_ok F" work_of for F
proof
  fix s k
  show "cache_ok F (snd (canonical_or_self F k s))" if "cache_ok F s"
    using canon_dir.callE(2)[OF that]
    by (auto simp: canonical_or_self_def split: option.splits prod.splits)
  show "fst (canonical_or_self F k s) = candidate F k" if "cache_ok F s"
    using canon_dir.callE(1)[OF that]
    by (auto simp: canonical_or_self_def candidate_def split: option.splits prod.splits)
  show "work_of (snd (canonical_or_self F k s)) = work_of s"
    using canon_dir.call_frame[of F k s]
    by (auto simp: canonical_or_self_def split: option.splits prod.splits)
qed

lemma canonical_or_self_ok:
  assumes "cache_ok F s" and "canonical_or_self F p s = (q, s')"
  shows "q = candidate F p" "cache_ok F s'" "visited s' = visited s" "queue s' = queue s"
  using canon_self.callE[OF assms] by (simp_all add: work_of_def)

lemma cache_ok_work [simp]:
  "cache_ok F (enqueue j s) = cache_ok F s" "cache_ok F (mark_visited p s) = cache_ok F s"
  by (simp_all add: cache_ok_def enqueue_def mark_visited_def)

lemma work_simps [simp]:
  "visited (enqueue j s) = visited s" "queue (enqueue j s) = queue s @ [j]"
  "visited (mark_visited p s) = insert p (visited s)" "queue (mark_visited p s) = queue s"
  by (simp_all add: enqueue_def mark_visited_def)

section \<open>Where a search stops\<close>

text \<open>
  The first candidate at which the search along directories stops: one that was visited, also by
  this search, or one that is wanted.
\<close>

definition stops_at :: "(path \<Rightarrow> bool) \<Rightarrow> path set \<Rightarrow> path list \<Rightarrow> nat \<Rightarrow> bool" where
  "stops_at W V cands i \<longleftrightarrow> cands ! i \<in> V \<union> set (take i cands) \<or> W (cands ! i)"

definition first_stop :: "(path \<Rightarrow> bool) \<Rightarrow> path set \<Rightarrow> path list \<Rightarrow> nat option" where
  "first_stop W V cands = find (stops_at W V cands) [0..<length cands]"

lemma find_map: "find P (map f xs) = map_option f (find (P \<circ> f) xs)"
  by (induction xs) auto

lemma first_stop_simps:
  "first_stop W V [] = None"
  "first_stop W V (c # cs) =
    (if c \<in> V \<or> W c then Some 0 else map_option Suc (first_stop W (insert c V) cs))"
proof -
  have "stops_at W V (c # cs) \<circ> Suc = stops_at W (insert c V) cs"
    by (rule ext) (auto simp: stops_at_def)
  then show "first_stop W V (c # cs) =
    (if c \<in> V \<or> W c then Some 0 else map_option Suc (first_stop W (insert c V) cs))"
    by (simp add: first_stop_def upt_Suc_shift find_map stops_at_def del: upt_Suc)
qed (simp add: first_stop_def)

text \<open>The effect of a search along candidates that stops there.\<close>

definition stop_effect ::
  "(path \<Rightarrow> bool) \<Rightarrow> path set \<Rightarrow> path list \<Rightarrow> bool \<times> path set \<times> path list" where
  "stop_effect W V cands = (case first_stop W V cands of
      None \<Rightarrow> (False, V \<union> set cands, [])
    | Some i \<Rightarrow> (True, V \<union> set (take (Suc i) cands),
        if cands ! i \<in> V \<union> set (take i cands) then [] else [cands ! i]))"

lemma stop_effect_simps:
  "stop_effect W V [] = (False, V, [])"
  "stop_effect W V (c # cs) =
    (if c \<in> V then (True, V, [])
     else if W c then (True, insert c V, [c])
     else stop_effect W (insert c V) cs)"
  by (auto simp: stop_effect_def first_stop_simps split: option.splits)

lemma search_default_eq: "search_default = search_lpaths"
proof (intro ext)
  fix F env lpaths dep dirs s
  show "search_default F env lpaths dep dirs s = search_lpaths F env lpaths dep dirs s"
    by (induction dirs arbitrary: s) (simp_all add: Let_def split: prod.split)
qed

lemma search_lpaths_effect:
  assumes "cache_ok F s" and "search_lpaths F env lpaths dep dirs s = (r, s')"
  shows "cache_ok F s' \<and> (\<exists>new. stop_effect (wanted F env) (visited s)
      (map (\<lambda>l. candidate F (push l dep)) dirs) = (r, visited s', new) \<and>
      queue s' = queue s @ map (\<lambda>p. (p, lpaths)) new)"
  using assms
proof (induction dirs arbitrary: s)
  case Nil
  then show ?case by (auto simp: stop_effect_simps)
next
  case (Cons l dirs)
  obtain q s1 where q: "canonical_or_self F (push l dep) s = (q, s1)" by fastforce
  note s1 = canonical_or_self_ok[OF Cons.prems(1) q]
  have cand: "map (\<lambda>l. candidate F (push l dep)) (l # dirs) =
      q # map (\<lambda>l. candidate F (push l dep)) dirs"
    by (simp add: s1(1))
  consider "q \<in> visited s" | "q \<notin> visited s" "wanted F env q"
    | "q \<notin> visited s" "\<not> wanted F env q" by blast
  then show ?case
  proof cases
    case 1
    with Cons.prems(2) q s1(3) have "r \<and> s' = s1" by simp
    with 1 s1(2-4) show ?thesis by (simp only: cand) (simp add: stop_effect_simps)
  next
    case 2
    with Cons.prems(2) q s1(3) have "r \<and> s' = enqueue (q, lpaths) (mark_visited q s1)" by auto
    with 2 s1(2-4) show ?thesis by (simp only: cand) (simp add: stop_effect_simps)
  next
    case 3
    with Cons.prems(2) q s1(3)
    have "search_lpaths F env lpaths dep dirs (mark_visited q s1) = (r, s')" by simp
    from Cons.IH[OF _ this] 3 s1(2-4) show ?thesis by (simp only: cand) (simp add: stop_effect_simps)
  qed
qed

section \<open>What a search adds to the queue\<close>

text \<open>
  The contract of every step of the search: new paths only, each visited now and not before,
  each wanted, all with the run paths of the binary that needs them; nothing is forgotten.
\<close>

definition grows :: "fs \<Rightarrow> ldd_env \<Rightarrow> path set \<Rightarrow> ldd_state \<Rightarrow> ldd_state \<Rightarrow> bool" where
  "grows F env lpaths s s' \<longleftrightarrow> (\<exists>new. queue s' = queue s @ map (\<lambda>p. (p, lpaths)) new \<and>
    distinct new \<and> set new \<subseteq> visited s' - visited s \<and> visited s \<subseteq> visited s' \<and>
    (\<forall>p \<in> set new. wanted F env p \<and> p \<in> range (candidate F)))"

lemma growsI:
  "queue s' = queue s @ map (\<lambda>p. (p, lpaths)) new \<Longrightarrow> distinct new \<Longrightarrow>
    set new \<subseteq> visited s' - visited s \<Longrightarrow> visited s \<subseteq> visited s' \<Longrightarrow>
    (\<And>p. p \<in> set new \<Longrightarrow> wanted F env p \<and> p \<in> range (candidate F)) \<Longrightarrow> grows F env lpaths s s'"
  unfolding grows_def by blast

lemma grows_refl [simp]: "grows F env lpaths s s"
  by (rule growsI[of _ _ _ "[]"]) auto

lemma grows_trans:
  assumes "grows F env lpaths s t" and "grows F env lpaths t u"
  shows "grows F env lpaths s u"
proof -
  obtain a where a: "queue t = queue s @ map (\<lambda>p. (p, lpaths)) a" "distinct a"
    "set a \<subseteq> visited t - visited s" "visited s \<subseteq> visited t"
    "\<forall>p \<in> set a. wanted F env p \<and> p \<in> range (candidate F)"
    using assms(1) unfolding grows_def by blast
  obtain b where b: "queue u = queue t @ map (\<lambda>p. (p, lpaths)) b" "distinct b"
    "set b \<subseteq> visited u - visited t" "visited t \<subseteq> visited u"
    "\<forall>p \<in> set b. wanted F env p \<and> p \<in> range (candidate F)"
    using assms(2) unfolding grows_def by blast
  show ?thesis
  proof (rule growsI)
    show "queue u = queue s @ map (\<lambda>p. (p, lpaths)) (a @ b)" using a(1) b(1) by simp
    show "distinct (a @ b)" using a b by auto
    show "set (a @ b) \<subseteq> visited u - visited s" using a b by auto
    show "visited s \<subseteq> visited u" using a b by auto
  qed (use a(5) b(5) in auto)
qed

lemma grows_canon:
  assumes "cache_ok F s" and "canonical_or_self F p s = (q, t)"
  shows "grows F env lpaths s t"
  using canonical_or_self_ok[OF assms] by (intro growsI[of _ _ _ "[]"]) auto

lemma grows_visit:
  "q \<notin> visited s \<Longrightarrow> q \<in> range (candidate F) \<Longrightarrow>
    grows F env lpaths s (if wanted F env q then enqueue (q, lpaths) (mark_visited q s)
                          else mark_visited q s)"
  by (rule growsI[of _ _ _ "if wanted F env q then [q] else []"]) (auto split: if_splits)

lemma search_lpaths_grows:
  "cache_ok F s \<Longrightarrow> search_lpaths F env lpaths dep dirs s = (r, s') \<Longrightarrow>
    cache_ok F s' \<and> grows F env lpaths s s'"
proof (induction dirs arbitrary: s)
  case Nil
  then show ?case by simp
next
  case (Cons l dirs)
  obtain q s1 where q: "canonical_or_self F (push l dep) s = (q, s1)" by fastforce
  note s1 = canonical_or_self_ok[OF Cons.prems(1) q]
  note g1 = grows_canon[OF Cons.prems(1) q, of env lpaths]
  consider "q \<in> visited s1" | "q \<notin> visited s1" "wanted F env q"
    | "q \<notin> visited s1" "\<not> wanted F env q" by blast
  then show ?case
  proof cases
    case 1
    with Cons.prems(2) q have "s' = s1" by simp
    with g1 s1(2) show ?thesis by simp
  next
    case 2
    with Cons.prems(2) q have s': "s' = enqueue (q, lpaths) (mark_visited q s1)" by auto
    have "grows F env lpaths s1 s'"
      using grows_visit[OF 2(1), of F env lpaths] s1(1) 2(2) s' by auto
    with g1 s1(2) s' show ?thesis by (auto intro: grows_trans)
  next
    case 3
    with Cons.prems(2) q
    have "search_lpaths F env lpaths dep dirs (mark_visited q s1) = (r, s')" by simp
    moreover have "grows F env lpaths s1 (mark_visited q s1)"
      using grows_visit[OF 3(1), of F env lpaths] s1(1) 3(2) by auto
    ultimately show ?thesis
      using Cons.IH[of "mark_visited q s1"] g1 s1(2) by (auto intro: grows_trans)
  qed
qed

lemma search_cache_grows:
  "cache_ok F s \<Longrightarrow> cache_ok F (search_cache F env lpaths vals s) \<and>
    grows F env lpaths s (search_cache F env lpaths vals s) \<and>
    candidate F ` set vals \<subseteq> visited (search_cache F env lpaths vals s)"
proof (induction vals arbitrary: s)
  case Nil
  then show ?case by simp
next
  case (Cons f vals)
  obtain q s1 where q: "canonical_or_self F f s = (q, s1)" by fastforce
  note s1 = canonical_or_self_ok[OF Cons.prems q]
  let ?s2 = "if q \<in> visited s1 then s1 else if wanted F env q
    then enqueue (q, lpaths) (mark_visited q s1) else mark_visited q s1"
  have eq: "search_cache F env lpaths (f # vals) s = search_cache F env lpaths vals ?s2"
    by (simp add: q)
  have ok: "cache_ok F ?s2" using s1(2) by simp
  have "grows F env lpaths s1 ?s2"
    using grows_visit[of q s1 F env lpaths] s1(1) by auto
  then have "grows F env lpaths s ?s2" by (rule grows_trans[OF grows_canon[OF Cons.prems q]])
  moreover have "q \<in> visited ?s2" by simp
  moreover have "grows F env lpaths ?s2 (search_cache F env lpaths vals ?s2)"
    using Cons.IH[OF ok] by blast
  moreover from this have "visited ?s2 \<subseteq> visited (search_cache F env lpaths vals ?s2)"
    by (auto simp: grows_def)
  ultimately show ?case
    unfolding eq using Cons.IH[OF ok] s1(1) by (auto intro: grows_trans simp del: if_split_asm)
qed

lemma find_dep_grows:
  assumes "cache_ok F s" and "find_dep F env order lpaths dep s = (r, s')"
  shows "cache_ok F s' \<and> grows F env lpaths s s'"
proof -
  obtain b s1 where s1: "search_lpaths F env lpaths dep order s = (b, s1)" by fastforce
  note g = search_lpaths_grows[OF assms(1) s1]
  then show ?thesis
    using assms(2) s1 search_cache_grows[of F s1 env lpaths]
      search_lpaths_grows[of F s1 env lpaths dep "default_libdir env"]
    by (auto simp: find_dep_def search_default_eq intro: grows_trans split: bool.splits option.splits)
qed

lemma find_deps_grows:
  "cache_ok F s \<Longrightarrow> find_deps F env order lpaths deps s = (r, s') \<Longrightarrow>
    cache_ok F s' \<and> grows F env lpaths s s'"
proof (induction deps arbitrary: s)
  case Nil
  then show ?case by simp
next
  case (Cons dep deps)
  obtain b s1 where s1: "find_dep F env order lpaths dep s = (b, s1)" by fastforce
  from find_dep_grows[OF Cons.prems(1) s1] Cons s1 show ?case
    by (cases b) (auto intro: grows_trans)
qed

lemma recurse_cases:
  assumes "recurse bo F env order path lpaths s = (r, s')"
  obtains (failed) e where "collect_deps bo F path lpaths = Inl e" "r = Inl e" "s' = s"
  | (searched) lpaths' deps where "collect_deps bo F path lpaths = Inr (lpaths', deps)"
      "find_deps F env (order lpaths') lpaths' deps s = (r, s')"
  using assms by (auto simp: recurse_def split: sum.splits)

lemma recurse_grows:
  assumes "cache_ok F s" and "recurse bo F env order path lpaths s = (r, s')"
  shows "cache_ok F s' \<and> (\<exists>lpaths'. grows F env lpaths' s s')"
  using assms(2)
proof (cases rule: recurse_cases)
  case (failed e)
  with assms(1) grows_refl show ?thesis by blast
next
  case (searched lpaths' deps)
  from find_deps_grows[OF assms(1) searched(2)] show ?thesis by blast
qed

section \<open>What a search settles\<close>

lemma stop_effect_None: "first_stop W V cands = None \<Longrightarrow> \<forall>c \<in> set cands. \<not> W c \<and> c \<notin> V"
proof (induction cands arbitrary: V)
  case Nil
  then show ?case by simp
next
  case (Cons c cands)
  from Cons.prems have "c \<notin> V" "\<not> W c" and rest: "first_stop W (insert c V) cands = None"
    by (simp_all add: first_stop_simps split: if_split_asm)
  with Cons.IH[OF rest] show ?case by simp
qed

lemma search_lpaths_settled:
  assumes "cache_ok F s" and "search_lpaths F env lpaths dep dirs s = (r, s')"
  shows "if r then \<exists>l \<in> set dirs. candidate F (push l dep) \<in> visited s'
    else \<forall>l \<in> set dirs. \<not> wanted F env (candidate F (push l dep))"
proof -
  let ?cands = "map (\<lambda>l. candidate F (push l dep)) dirs"
  obtain new where e: "stop_effect (wanted F env) (visited s) ?cands = (r, visited s', new)"
    using search_lpaths_effect[OF assms] by blast
  show ?thesis
  proof (cases "first_stop (wanted F env) (visited s) ?cands")
    case None
    with e stop_effect_None[OF None] show ?thesis by (auto simp: stop_effect_def)
  next
    case (Some i)
    then have "i < length ?cands" by (auto simp: first_stop_def find_Some_iff)
    then have "?cands ! i \<in> set (take (Suc i) ?cands)" by (simp add: take_Suc_conv_app_nth)
    with e Some \<open>i < length ?cands\<close> show ?thesis
      by (auto simp: stop_effect_def intro!: bexI[of _ "dirs ! i"])
  qed
qed

text \<open>A dependency is settled when a place it may come from has been visited.\<close>

definition settled :: "fs \<Rightarrow> ldd_env \<Rightarrow> path list \<Rightarrow> bytes \<Rightarrow> path set \<Rightarrow> bool" where
  "settled F env dirs dep V \<longleftrightarrow>
    list_ex (\<lambda>l. candidate F (push l dep) \<in> V) (dirs @ default_libdir env) \<or>
    (case Option.bind (env_cache env) (\<lambda>cache. cache dep) of
      None \<Rightarrow> False | Some vals \<Rightarrow> candidate F ` set vals \<subseteq> V)"

lemma settled_mono: "settled F env dirs dep V \<Longrightarrow> V \<subseteq> W \<Longrightarrow> settled F env dirs dep W"
  by (auto simp: settled_def list_ex_iff split: option.splits)

lemma grows_visited: "grows F env lpaths s s' \<Longrightarrow> visited s \<subseteq> visited s'"
  by (auto simp: grows_def)

lemma find_dep_settled:
  assumes "cache_ok F s" and "find_dep F env dirs lpaths dep s = (r, s')"
  shows "if r then settled F env dirs dep (visited s')
    else list_all (\<lambda>l. \<not> wanted F env (candidate F (push l dep))) (dirs @ default_libdir env) \<and>
      Option.bind (env_cache env) (\<lambda>cache. cache dep) = None"
proof -
  obtain b s1 where s1: "search_lpaths F env lpaths dep dirs s = (b, s1)" by fastforce
  note g = search_lpaths_grows[OF assms(1) s1] search_lpaths_settled[OF assms(1) s1]
  show ?thesis
  proof (cases b)
    case True
    with g(2) assms(2) s1 show ?thesis by (auto simp: find_dep_def settled_def list_ex_iff)
  next
    case b: False
    show ?thesis
    proof (cases "Option.bind (env_cache env) (\<lambda>cache. cache dep)")
      case None
      with b assms(2) s1 have d: "search_lpaths F env lpaths dep (default_libdir env) s1 = (r, s')"
        by (simp add: find_dep_def search_default_eq)
      from search_lpaths_settled[OF conjunct1[OF g(1)] d] g(2) b None show ?thesis
        by (auto simp: settled_def list_ex_iff list_all_iff)
    next
      case (Some vals)
      with b assms(2) s1 have "r \<and> s' = search_cache F env lpaths vals s1"
        by (simp add: find_dep_def)
      with search_cache_grows[of F s1 env lpaths vals] g(1) Some show ?thesis
        by (simp add: settled_def)
    qed
  qed
qed

lemma find_deps_settled:
  "cache_ok F s \<Longrightarrow> find_deps F env dirs lpaths deps s = (r, s') \<Longrightarrow>
    (case r of
      Inr _ \<Rightarrow> list_all (\<lambda>dep. settled F env dirs dep (visited s')) deps
    | Inl e \<Rightarrow> \<exists>dep \<in> set deps. e = Fail (UnableToFind dep lpaths) \<and>
        list_all (\<lambda>l. \<not> wanted F env (candidate F (push l dep))) (dirs @ default_libdir env) \<and>
        Option.bind (env_cache env) (\<lambda>cache. cache dep) = None)"
proof (induction deps arbitrary: s)
  case Nil
  then show ?case by auto
next
  case (Cons dep deps)
  obtain b s1 where s1: "find_dep F env dirs lpaths dep s = (b, s1)" by fastforce
  note f = find_dep_settled[OF Cons.prems(1) s1]
  show ?case
  proof (cases b)
    case True
    with Cons.prems(2) s1 have rest: "find_deps F env dirs lpaths deps s1 = (r, s')" by simp
    have ok: "cache_ok F s1" using find_dep_grows[OF Cons.prems(1) s1] by blast
    have "settled F env dirs dep (visited s')"
      using f True grows_visited[OF conjunct2[OF find_deps_grows[OF ok rest]]] by (auto intro: settled_mono)
    with Cons.IH[OF ok rest] show ?thesis by (auto split: sum.splits)
  next
    case False
    with Cons.prems(2) s1 f show ?thesis by auto
  qed
qed

section \<open>What is read from a binary\<close>

text \<open>The strings of the entries with a tag.\<close>

definition entry_strings :: "(dynamic_type \<Rightarrow> bool) \<Rightarrow> dynamic list \<Rightarrow> bytes list" where
  "entry_strings P ds = List.map_filter (\<lambda>d. case dcontent d of
      DC_String name _ \<Rightarrow> if P (dhtype d) then Some name else None
    | _ \<Rightarrow> None) ds"

definition is_run_path :: "dynamic_type \<Rightarrow> bool" where
  "is_run_path t \<longleftrightarrow> t = DT_RPATH \<or> t = DT_RUNPATH"

definition run_path_dirs :: "path \<Rightarrow> bytes \<Rightarrow> path list" where
  "run_path_dirs dir name = map (subst_slice (bstr ''$ORIGIN'') dir) (split_on 0x3a name)"

text \<open>What a list of dynamic entries adds to the search paths and the needed names.\<close>

definition dynamic_view :: "path \<Rightarrow> dynamic list \<Rightarrow> path set \<times> bytes list \<Rightarrow> path set \<times> bytes list" where
  "dynamic_view dir ds acc =
    (fst acc \<union> set (concat (map (run_path_dirs dir) (entry_strings is_run_path ds))),
     snd acc @ entry_strings (\<lambda>t. t = DT_NEEDED) ds)"

lemma entry_strings_simps [simp]:
  "entry_strings P [] = []"
  "entry_strings P (d # ds) = (case dcontent d of
      DC_String name _ \<Rightarrow> if P (dhtype d) then [name] else [] | _ \<Rightarrow> []) @ entry_strings P ds"
  by (auto simp: entry_strings_def map_filter_simps split: dynamic_content.split)

lemma entry_strings_append [simp]: "entry_strings P (xs @ ys) = entry_strings P xs @ entry_strings P ys"
  by (induction xs) auto

lemma dynamic_view_Nil [simp]: "dynamic_view dir [] acc = acc"
  by (simp add: dynamic_view_def)

lemma dynamic_view_append:
  "dynamic_view dir (xs @ ys) acc = dynamic_view dir ys (dynamic_view dir xs acc)"
  by (simp add: dynamic_view_def Un_assoc)

lemma expand_origin_subst: "expand_origin n dir = subst_slice (bstr ''$ORIGIN'') dir n"
proof -
  have "bstr ''$ORIGIN'' \<noteq> []" by simp
  then show ?thesis unfolding expand_origin_def by (subst replace_slice_subst) simp_all
qed

lemma DT_string_distinct: "DT_NEEDED \<noteq> DT_RPATH" "DT_NEEDED \<noteq> DT_RUNPATH"
  by (simp_all add: DT_defs)

lemma scan_entries_view:
  "parent path = Some dir \<Longrightarrow> scan_entries path ds acc = Inr (dynamic_view dir ds acc)"
proof (induction ds arbitrary: acc)
  case Nil
  then show ?case by simp
next
  case (Cons d ds)
  obtain l n where acc: "acc = (l, n)" by fastforce
  show ?case
  proof (cases "dcontent d")
    case (DC_String name off)
    have "add_run_paths path name l = Inr (l \<union> set (run_path_dirs dir name))"
      using Cons.prems by (simp add: add_run_paths_def run_path_dirs_def expand_origin_subst[abs_def])
    with Cons DC_String acc DT_string_distinct show ?thesis
      by (auto simp: dynamic_view_def is_run_path_def Un_assoc)
  qed (use Cons acc in \<open>simp_all add: dynamic_view_def\<close>)
qed

end
