(* ===== verification/LddCorrect.thy ===== *)
theory LddCorrect
  imports LddSearch
begin

text \<open>
  The properties of the dependency search of one binary: what is read from it, what it adds to
  the queue, what success and failure mean, and the cases in which a dependency is lost.
\<close>

section \<open>The dynamic sections of a file\<close>

definition section_dynamics :: "elf_section \<Rightarrow> dynamic list" where
  "section_dynamics s = (if sh_type (sec_header s) = SHT_DYNAMIC then
     (case sec_content s of SC_Dynamic ds \<Rightarrow> ds | _ \<Rightarrow> []) else [])"

definition dynamics_loaded :: "elf_section list \<Rightarrow> bool" where
  "dynamics_loaded secs \<longleftrightarrow>
    list_all (\<lambda>s. sh_type (sec_header s) = SHT_DYNAMIC \<longrightarrow> sec_content s \<noteq> Unloaded) secs"

lemma same_frame_trans: "same_frame xs ys \<Longrightarrow> same_frame ys zs \<Longrightarrow> same_frame xs zs"
  unfolding same_frame_def list_all2_conv_all_nth by auto

lemma same_frame_length: "same_frame xs ys \<Longrightarrow> length ys = length xs"
  by (simp add: same_frame_def list_all2_lengthD)

lemma same_frame_nth:
  "same_frame xs ys \<Longrightarrow> i < length xs \<Longrightarrow> sec_header (ys ! i) = sec_header (xs ! i) \<and>
    (sec_content (xs ! i) \<noteq> Unloaded \<longrightarrow> ys ! i = xs ! i)"
  by (simp add: same_frame_def list_all2_conv_all_nth)

lemma scan_sections_view:
  assumes "parent path = Some dir"
  shows "scan_sections bo img eh path [i..<length secs] secs acc = Inr out \<Longrightarrow> list_all section_ok secs \<Longrightarrow>
    \<exists>secs'. same_frame secs secs' \<and> dynamics_loaded (drop i secs') \<and>
      out = dynamic_view dir (concat (map section_dynamics (drop i secs'))) acc"
proof (induction "length secs - i" arbitrary: i secs acc)
  case 0
  then have "drop i xs = []" if "length xs = length secs" for xs :: "elf_section list"
    using that by simp
  with 0 show ?case by (intro exI[of _ secs]) (simp add: dynamics_loaded_def)
next
  case (Suc k)
  then have i: "i < length secs" and k: "k = length secs - Suc i" by simp_all
  have upt: "[i..<length secs] = i # [Suc i..<length secs]" using i by (rule upt_conv_Cons)
  show ?case
  proof (cases "sh_type (sec_header (secs ! i)) = SHT_DYNAMIC")
    case True
    with Suc.prems(1) i obtain secs1 ds where l: "elf_load bo img eh secs i = Inr secs1"
      and ds: "sec_content (secs1 ! i) = SC_Dynamic ds"
      and rest: "scan_sections bo img eh path [Suc i..<length secs] secs1 (dynamic_view dir ds acc) = Inr out"
      by (auto simp: upt scan_entries_view[OF assms] split: sum.splits option.splits
          elim!: as_dynamic.elims)
    have f1: "same_frame secs secs1" by (rule elf_load_frame[OF l])
    have len: "length secs1 = length secs" by (rule same_frame_length[OF f1])
    obtain secs' where f2: "same_frame secs1 secs'" and dl: "dynamics_loaded (drop (Suc i) secs')"
      and out: "out = dynamic_view dir (concat (map section_dynamics (drop (Suc i) secs')))
        (dynamic_view dir ds acc)"
      using Suc.hyps(1)[of secs1 "Suc i" "dynamic_view dir ds acc"] k rest len
        elf_load_ok[OF l Suc.prems(2)] by auto
    have "secs' ! i = secs1 ! i" "sec_header (secs1 ! i) = sec_header (secs ! i)"
      using same_frame_nth[OF f2, of i] same_frame_nth[OF f1, of i] ds i len by simp_all
    moreover have "drop i secs' = secs' ! i # drop (Suc i) secs'"
      using i len same_frame_length[OF f2] by (simp add: Cons_nth_drop_Suc)
    ultimately show ?thesis
      using f1 f2 dl out ds True
      by (intro exI[of _ secs'])
        (auto simp: dynamics_loaded_def section_dynamics_def dynamic_view_append intro: same_frame_trans)
  next
    case False
    with Suc.prems(1) i
    have "scan_sections bo img eh path [Suc i..<length secs] secs acc = Inr out" by (simp add: upt)
    then obtain secs' where f: "same_frame secs secs'" and dl: "dynamics_loaded (drop (Suc i) secs')"
      and out: "out = dynamic_view dir (concat (map section_dynamics (drop (Suc i) secs'))) acc"
      using Suc.hyps(1)[OF k] Suc.prems(2) by blast
    have "sec_header (secs' ! i) = sec_header (secs ! i)" using same_frame_nth[OF f i] by simp
    moreover have "drop i secs' = secs' ! i # drop (Suc i) secs'"
      using i same_frame_length[OF f] by (simp add: Cons_nth_drop_Suc)
    ultimately show ?thesis
      using f dl out False
      by (intro exI[of _ secs']) (simp add: dynamics_loaded_def section_dynamics_def)
  qed
qed

lemma collect_depsE:
  assumes "collect_deps bo F path lpaths = Inr out"
  obtains img f where "fs_read F path = Inr img" "elf_from_reader bo img = Inr f"
    "scan_sections bo img (elf_header f) path [0..<length (elf_sections f)] (elf_sections f) (lpaths, []) = Inr out"
proof -
  from assms obtain img where i: "io_result (fs_read F path) = Inr img"
    by (auto simp: collect_deps_def bind_res_eq_Inr)
  then have "fs_read F path = Inr img" by (cases "fs_read F path") auto
  with assms that show ?thesis by (auto simp: collect_deps_def bind_res_eq_Inr)
qed

section \<open>Single steps\<close>

lemma canonical_or_self_miss:
  "parent p = Some d \<Longrightarrow> file_name p = Some n \<Longrightarrow> canon_cache s d = None \<Longrightarrow>
    fs_canonicalize F d = Inr c \<Longrightarrow>
    canonical_or_self F p s = (push c n, s\<lparr>canon_cache := (canon_cache s)(d \<mapsto> c)\<rparr>)"
  by (simp add: canonical_or_self_def canonicalize_dir_def canonicalize_def)

lemma search_lpaths_pass:
  "canonical_or_self F (push l dep) s = (q, s') \<Longrightarrow> q \<notin> visited s' \<Longrightarrow> \<not> wanted F env q \<Longrightarrow>
    search_lpaths F env lpaths dep (l # rest) s = search_lpaths F env lpaths dep rest (mark_visited q s')"
  by simp

lemma search_lpaths_found:
  "canonical_or_self F (push l dep) s = (q, s') \<Longrightarrow> q \<notin> visited s' \<Longrightarrow> wanted F env q \<Longrightarrow>
    search_lpaths F env lpaths dep (l # rest) s = (True, enqueue (q, lpaths) (mark_visited q s'))"
  by simp

lemma search_lpaths_seen:
  "canonical_or_self F (push l dep) s = (q, s') \<Longrightarrow> q \<in> visited s' \<Longrightarrow>
    search_lpaths F env lpaths dep (l # rest) s = (True, s')"
  by simp

section \<open>An example\<close>

text \<open>\<open>/bin/x\<close> is the example file, which needs \<open>libc.so.6\<close>; the library is in \<open>/lib64\<close>.\<close>

definition ex_fs :: fs where
  "ex_fs = plain_fs [(bstr ''/bin/x'', ex_img), (bstr ''/lib64/libc.so.6'', [])]"

definition ex_env :: ldd_env where
  "ex_env = ldd_new None [bstr ''/lib64/dyninst'', bstr ''/lib64''] (bstr ''/dest'')"

definition ex_start :: ldd_state where
  "ex_start = \<lparr>canon_cache = Map.empty, visited = {bstr ''/bin/x''}, queue = []\<rparr>"

lemma ex_start_ok [simp]: "cache_ok F ex_start"
  by (simp add: cache_ok_def ex_start_def)

lemma ex_collect_img:
  assumes rd: "fs_read F (bstr ''/bin/x'') = Inr ex_img"
  shows "collect_deps byteorder_std F (bstr ''/bin/x'') {} = Inr ({}, [bstr ''libc.so.6''])"
proof -
  have elf: "elf_from_reader byteorder_std ex_img = Inr \<lparr>elf_header = ex_header,
      elf_segments = [ex_segment], elf_sections = map (named_section ex_names) ex_sections\<rparr>"
    by (rule elf_from_reader_layout[OF byteorder_std_ok ex_img_image])
  have types: "map (\<lambda>s. sh_type (sec_header s)) (map (named_section ex_names) ex_sections) =
      [SHT_STRTAB, SHT_DYNAMIC, SHT_STRTAB]"
    "map (\<lambda>s. sh_type (sec_header s)) ex_loaded = [SHT_STRTAB, SHT_DYNAMIC, SHT_STRTAB]"
    "as_dynamic (sec_content (ex_loaded ! 1)) = Some
      [\<lparr>dhtype = DT_NEEDED, dcontent = DC_String (bstr ''libc.so.6'') (Some 1)\<rparr>,
       \<lparr>dhtype = DT_NULL, dcontent = DC_None\<rparr>]"
    by (simp_all add: ex_sections_def named_section_def section_header_default_def ex_loaded_def
        ex_secs_def)
  have len: "length (map (named_section ex_names) ex_sections) = 3" "length ex_loaded = 3"
    by (simp_all add: ex_loaded_def ex_secs_def)
  have nth: "sh_type (sec_header (map (named_section ex_names) ex_sections ! 0)) = SHT_STRTAB"
    "sh_type (sec_header (map (named_section ex_names) ex_sections ! 1)) = SHT_DYNAMIC"
    "sh_type (sec_header (ex_loaded ! 2)) = SHT_STRTAB"
    by (simp_all add: ex_sections_def named_section_def ex_loaded_def ex_secs_def)
  have idx: "[0..<3] = [0, 1, 2 :: nat]" by (simp add: upt_rec)
  show ?thesis
    unfolding collect_deps_def rd io_result_simps map_fail_simps bind_res_Inr elf
    by (simp add: len idx nth ex_load types(3) DT_string_distinct del: length_map nth_map One_nat_def)
qed

lemma ex_collect:
  "collect_deps byteorder_std ex_fs (bstr ''/bin/x'') {} = Inr ({}, [bstr ''libc.so.6''])"
  by (rule ex_collect_img) (simp add: ex_fs_def plain_fs_def)

lemma ex_paths:
  "parent (push (bstr ''/lib64/dyninst'') (bstr ''libc.so.6'')) = Some (bstr ''/lib64/dyninst'')"
  "file_name (push (bstr ''/lib64/dyninst'') (bstr ''libc.so.6'')) = Some (bstr ''libc.so.6'')"
  "parent (push (bstr ''/lib64'') (bstr ''libc.so.6'')) = Some (bstr ''/lib64'')"
  "file_name (push (bstr ''/lib64'') (bstr ''libc.so.6'')) = Some (bstr ''libc.so.6'')"
  "parent (bstr ''/bin/x'') = Some (bstr ''/bin'')"
  by code_simp+

definition ex_done :: ldd_state where
  "ex_done = \<lparr>
    canon_cache = [bstr ''/lib64/dyninst'' \<mapsto> bstr ''/lib64/dyninst'', bstr ''/lib64'' \<mapsto> bstr ''/lib64''],
    visited = {bstr ''/lib64/libc.so.6'', bstr ''/lib64/dyninst/libc.so.6'', bstr ''/bin/x''},
    queue = [(bstr ''/lib64/libc.so.6'', {})]\<rparr>"

lemma ex_fs_simps [simp]:
  "fs_canonicalize ex_fs p = Inr p"
  "fs_exists ex_fs p \<longleftrightarrow> p = bstr ''/bin/x'' \<or> p = bstr ''/lib64/libc.so.6''"
  by (auto simp: ex_fs_def plain_fs_def)

lemma ex_start_simps [simp]:
  "canon_cache ex_start = Map.empty" "visited ex_start = {bstr ''/bin/x''}" "queue ex_start = []"
  by (simp_all add: ex_start_def)

lemma ex_search:
  "search_lpaths ex_fs ex_env {} (bstr ''libc.so.6'') [bstr ''/lib64/dyninst'', bstr ''/lib64''] ex_start =
    (True, ex_done)"
proof -
  let ?p = "push (bstr ''/lib64/dyninst'') (bstr ''libc.so.6'')"
  let ?q = "push (bstr ''/lib64'') (bstr ''libc.so.6'')"
  let ?s = "ex_start\<lparr>canon_cache := [bstr ''/lib64/dyninst'' \<mapsto> bstr ''/lib64/dyninst'']\<rparr>"
  let ?t = "(mark_visited ?p ?s)\<lparr>canon_cache := [bstr ''/lib64/dyninst'' \<mapsto> bstr ''/lib64/dyninst'',
    bstr ''/lib64'' \<mapsto> bstr ''/lib64'']\<rparr>"
  have 1: "canonical_or_self ex_fs ?p ex_start = (?p, ?s)"
    using canonical_or_self_miss[OF ex_paths(1,2), of ex_start ex_fs] by simp
  have 2: "canonical_or_self ex_fs ?q (mark_visited ?p ?s) = (?q, ?t)"
    by (rule canonical_or_self_miss[OF ex_paths(3,4), of "mark_visited ?p ?s" ex_fs "bstr ''/lib64''",
          THEN trans]) (simp_all add: mark_visited_def)
  have "search_lpaths ex_fs ex_env {} (bstr ''libc.so.6'') [bstr ''/lib64/dyninst'', bstr ''/lib64''] ex_start =
    search_lpaths ex_fs ex_env {} (bstr ''libc.so.6'') [bstr ''/lib64''] (mark_visited ?p ?s)"
    by (rule search_lpaths_pass[OF 1]) (simp_all add: push_def has_root_def wanted_def ex_env_def ldd_new_def)
  also have "\<dots> = (True, enqueue (?q, {}) (mark_visited ?q ?t))"
    by (rule search_lpaths_found[OF 2])
      (simp_all add: push_def has_root_def mark_visited_def wanted_def ex_env_def ldd_new_def)
  also have "\<dots> = (True, ex_done)"
    by (simp add: push_def has_root_def mark_visited_def enqueue_def ex_done_def ex_start_def)
  finally show ?thesis .
qed

lemma ex_recurse_order:
  assumes "order {} = []"
  shows "recurse byteorder_std ex_fs ex_env order (bstr ''/bin/x'') {} ex_start = (Inr (), ex_done)"
proof -
  have env: "env_cache ex_env = None"
    "default_libdir ex_env = [bstr ''/lib64/dyninst'', bstr ''/lib64'']"
    by (simp_all only: ex_env_def ldd_new_def ldd_env.select_convs)
  have "find_dep ex_fs ex_env [] {} (bstr ''libc.so.6'') ex_start = (True, ex_done)"
    unfolding find_dep_def search_lpaths.simps(1) search_default_eq env by (simp add: ex_search del: bstr_Cons search_lpaths.simps)
  then show ?thesis
    unfolding recurse_def ex_collect by (simp add: assms del: bstr_Cons)
qed

lemma ex_recurse:
  "recurse byteorder_std ex_fs ex_env (\<lambda>_. []) (bstr ''/bin/x'') {} ex_start = (Inr (), ex_done)"
  by (rule ex_recurse_order) simp

section \<open>What a binary adds to its run paths\<close>

lemma scan_entries_mono: "scan_entries path ds acc = Inr out \<Longrightarrow> fst acc \<subseteq> fst out"
proof (cases "parent path")
  case (Some dir)
  assume "scan_entries path ds acc = Inr out"
  with Some show ?thesis by (auto simp: scan_entries_view dynamic_view_def)
next
  case None
  assume "scan_entries path ds acc = Inr out"
  with None show ?thesis
    by (induction path ds acc rule: scan_entries.induct)
      (auto simp: add_run_paths_def split: dynamic_content.splits if_splits)
qed

lemma scan_sections_mono:
  "scan_sections bo img eh path idx secs acc = Inr out \<Longrightarrow> fst acc \<subseteq> fst out"
proof (induction bo img eh path idx secs acc rule: scan_sections.induct)
  case (2 bo img eh path shndx rest secs acc)
  then show ?case
    by (fastforce simp: bind_res_eq_Inr split: if_splits sum.splits option.splits
        dest: scan_entries_mono)
qed simp

lemma collect_deps_mono: "collect_deps bo F path lpaths = Inr (lpaths', deps) \<Longrightarrow> lpaths \<subseteq> lpaths'"
  by (erule collect_depsE, drule scan_sections_mono) simp

text \<open>Reading a binary reports no missing dependency.\<close>

lemma scan_entries_not_Fail: "scan_entries path ds acc \<noteq> Inl (Fail e)"
  by (induction path ds acc rule: scan_entries.induct)
    (auto simp: add_run_paths_def bind_res_eq_Inl split: dynamic_content.splits option.splits)

lemma scan_sections_not_Fail: "scan_sections bo img eh path idx secs acc \<noteq> Inl (Fail e)"
  by (induction bo img eh path idx secs acc rule: scan_sections.induct)
    (auto simp: bind_res_eq_Inl scan_entries_not_Fail split: sum.splits option.splits)

lemma collect_deps_error: "collect_deps bo F path lpaths \<noteq> Inl (Fail (UnableToFind dep l))"
  by (auto simp: collect_deps_def bind_res_eq_Inl scan_sections_not_Fail map_fail_def
      split: sum.splits fault.splits if_splits)

section \<open>Properties\<close>

text \<open>
  C25: The canonicalisation cache cannot be observed: any sequence of calls that starts with an
  empty cache returns what the file system answers for each path on its own.
\<close>

theorem canonicalize_cached:
  "fst (run_calls (canonicalize_dir F) ps (s\<lparr>canon_cache := Map.empty\<rparr>)) = map (dir_canonical F) ps"
  by (rule conjunct1[OF canon_dir.run_calls_value]) (simp add: cache_ok_def)



text \<open>
  C24: The search along the run paths visits the candidates in order and stops at the first that
  was visited before or that exists and is not installed; this one is queued when it is new.
\<close>

theorem search_lpaths_stops:
  assumes "cache_ok F s" and "search_lpaths F env lpaths dep dirs s = (r, s')"
  shows "\<exists>new. stop_effect (wanted F env) (visited s) (map (\<lambda>l. candidate F (push l dep)) dirs) =
      (r, visited s', new) \<and> queue s' = queue s @ map (\<lambda>p. (p, lpaths)) new"
  using search_lpaths_effect[OF assms] by blast

theorem search_lpaths_stops_witness:
  "\<exists>new. stop_effect (wanted ex_fs ex_env) (visited ex_start)
      (map (\<lambda>l. candidate ex_fs (push l (bstr ''libc.so.6''))) [bstr ''/lib64/dyninst'', bstr ''/lib64'']) =
      (True, visited ex_done, new) \<and> queue ex_done = queue ex_start @ map (\<lambda>p. (p, {})) new"
  by (rule search_lpaths_stops[OF ex_start_ok ex_search])

text \<open>
  C6: Searching the dependencies of a binary, successful or not, adds to the queue only paths that
  exist, are not installed, were not visited before and are visited now, each once, with run paths
  that include the inherited ones; no visited path is forgotten.
\<close>

theorem recurse_enqueues:
  assumes "cache_ok F s" and "recurse bo F env order path lpaths s = (r, s')"
  shows "\<exists>lpaths' new. lpaths \<subseteq> lpaths' \<and> queue s' = queue s @ map (\<lambda>p. (p, lpaths')) new \<and>
    distinct new \<and> list_all (wanted F env) new \<and> set new \<inter> visited s = {} \<and>
    set new \<subseteq> visited s' \<and> visited s \<subseteq> visited s'"
  using assms(2)
proof (cases rule: recurse_cases)
  case (failed e)
  then show ?thesis by (intro exI[of _ lpaths] exI[of _ "[]"]) simp
next
  case (searched lpaths' deps)
  have g: "grows F env lpaths' s s'" using find_deps_grows[OF assms(1) searched(2)] by blast
  show ?thesis
    using g collect_deps_mono[OF searched(1)] unfolding grows_def list_all_iff by blast
qed

theorem recurse_enqueues_witness:
  "\<exists>lpaths' new. {} \<subseteq> lpaths' \<and> queue ex_done = queue ex_start @ map (\<lambda>p. (p, lpaths')) new \<and>
    distinct new \<and> list_all (wanted ex_fs ex_env) new \<and> set new \<inter> visited ex_start = {} \<and>
    set new \<subseteq> visited ex_done \<and> visited ex_start \<subseteq> visited ex_done"
  by (rule recurse_enqueues[OF ex_start_ok ex_recurse])

text \<open>
  C22: When the search of a binary succeeds, every needed name is settled: one of its candidates in
  the run paths or default directories, or every path the linker cache lists for it, was visited.
\<close>

theorem recurse_success:
  assumes "cache_ok F s" and "recurse bo F env order path lpaths s = (Inr (), s')"
  shows "\<exists>lpaths' deps. collect_deps bo F path lpaths = Inr (lpaths', deps) \<and>
    list_all (\<lambda>dep. settled F env (order lpaths') dep (visited s')) deps"
  using assms(2)
proof (cases rule: recurse_cases)
  case (searched lpaths' deps)
  with find_deps_settled[OF assms(1) searched(2)] show ?thesis by auto
qed simp

theorem recurse_success_witness:
  "\<exists>lpaths' deps. collect_deps byteorder_std ex_fs (bstr ''/bin/x'') {} = Inr (lpaths', deps) \<and>
    list_all (\<lambda>dep. settled ex_fs ex_env ((\<lambda>_. []) lpaths') dep (visited ex_done)) deps"
  by (rule recurse_success[OF ex_start_ok ex_recurse])

text \<open>
  C23: A dependency is reported as not found only when the linker cache has no entry for its name
  and none of its candidates in the run paths and default directories is there to be installed.
\<close>

theorem recurse_unable_to_find:
  assumes "cache_ok F s"
    and "recurse bo F env order path lpaths s = (Inl (Fail (UnableToFind dep lpaths')), s')"
  shows "list_all (\<lambda>l. \<not> wanted F env (candidate F (push l dep)))
      (order lpaths' @ default_libdir env) \<and>
    Option.bind (env_cache env) (\<lambda>cache. cache dep) = None"
  using assms(2)
proof (cases rule: recurse_cases)
  case (failed e)
  then have "collect_deps bo F path lpaths = Inl (Fail (UnableToFind dep lpaths'))" by simp
  moreover have "collect_deps bo F path lpaths \<noteq> Inl (Fail (UnableToFind dep lpaths'))"
    by (rule collect_deps_error)
  ultimately show ?thesis by blast
next
  case (searched l deps)
  with find_deps_settled[OF assms(1) searched(2)] show ?thesis by auto
qed

text \<open>The example with the library already installed under the destination.\<close>

definition ex_installed :: fs where
  "ex_installed = plain_fs [(bstr ''/bin/x'', ex_img), (bstr ''/lib64/libc.so.6'', []),
    (bstr ''/dest/lib64/libc.so.6'', [])]"

lemma ex_installed_simps [simp]:
  "fs_canonicalize ex_installed p = Inr p"
  "fs_exists ex_installed p \<longleftrightarrow> p = bstr ''/bin/x'' \<or> p = bstr ''/lib64/libc.so.6'' \<or>
    p = bstr ''/dest/lib64/libc.so.6''"
  by (auto simp: ex_installed_def plain_fs_def)

lemma candidate_plain:
  "parent p = Some d \<Longrightarrow> file_name p = Some n \<Longrightarrow> fs_canonicalize F d = Inr d \<Longrightarrow> candidate F p = push d n"
  by (simp add: candidate_def dir_canonical_def)

lemma ex_env_simps:
  "env_cache ex_env = None" "default_libdir ex_env = [bstr ''/lib64/dyninst'', bstr ''/lib64'']"
  "dest_path ex_env = bstr ''/dest''"
  by (simp_all only: ex_env_def ldd_new_def ldd_env.select_convs)

lemma ex_candidates:
  assumes "\<And>p. fs_canonicalize F p = Inr p"
  shows "map (\<lambda>l. candidate F (push l (bstr ''libc.so.6''))) ([] @ default_libdir ex_env) =
    [bstr ''/lib64/dyninst/libc.so.6'', bstr ''/lib64/libc.so.6'']"
  unfolding ex_env_simps append_Nil list.map
    candidate_plain[OF ex_paths(1,2) assms] candidate_plain[OF ex_paths(3,4) assms]
  by (simp add: push_def has_root_def)

lemma first_stop_append:
  "first_stop W V (xs @ ys) = None \<longleftrightarrow> first_stop W V xs = None \<and> first_stop W (V \<union> set xs) ys = None"
proof (induction xs arbitrary: V)
  case Nil
  then show ?case by (simp add: first_stop_simps)
next
  case (Cons x xs)
  show ?case using Cons[of "insert x V"] by (simp add: first_stop_simps)
qed

lemma search_lpaths_none:
  assumes "cache_ok F s"
    and "first_stop (wanted F env) (visited s) (map (\<lambda>l. candidate F (push l dep)) dirs) = None"
  obtains s' where "search_lpaths F env lpaths dep dirs s = (False, s')" "cache_ok F s'"
    "visited s' = visited s \<union> set (map (\<lambda>l. candidate F (push l dep)) dirs)" "queue s' = queue s"
proof -
  obtain r s' where r: "search_lpaths F env lpaths dep dirs s = (r, s')" by fastforce
  with search_lpaths_effect[OF assms(1) r] assms(2) that show ?thesis
    by (auto simp: stop_effect_def)
qed

text \<open>
  C35: A dependency whose candidates are new but not wanted, for instance because the library is
  installed in the destination already, is reported as not found unless the linker cache lists it,
  and the dependencies after it in the binary are not searched any more: nothing is queued.
\<close>

theorem installed_dependency_aborts:
  assumes "cache_ok F s" and "Option.bind (env_cache env) (\<lambda>cache. cache dep) = None"
    and "first_stop (wanted F env) (visited s)
      (map (\<lambda>l. candidate F (push l dep)) (dirs @ default_libdir env)) = None"
  shows "\<exists>s'. find_deps F env dirs lpaths (dep # deps) s = (Inl (Fail (UnableToFind dep lpaths)), s') \<and>
    queue s' = queue s"
proof -
  from assms(3) have f: "first_stop (wanted F env) (visited s)
      (map (\<lambda>l. candidate F (push l dep)) dirs) = None"
    "first_stop (wanted F env) (visited s \<union> set (map (\<lambda>l. candidate F (push l dep)) dirs))
      (map (\<lambda>l. candidate F (push l dep)) (default_libdir env)) = None"
    by (simp_all only: map_append first_stop_append)
  obtain s1 where 1: "search_lpaths F env lpaths dep dirs s = (False, s1)" "cache_ok F s1"
    "visited s1 = visited s \<union> set (map (\<lambda>l. candidate F (push l dep)) dirs)" "queue s1 = queue s"
    by (rule search_lpaths_none[OF assms(1) f(1)])
  obtain s2 where 2: "search_lpaths F env lpaths dep (default_libdir env) s1 = (False, s2)"
    "queue s2 = queue s1"
    by (rule search_lpaths_none[OF 1(2), of env dep "default_libdir env"]) (use f(2) 1(3) in auto)
  have "find_dep F env dirs lpaths dep s = (False, s2)"
    using 1(1) 2(1) assms(2) by (simp add: find_dep_def search_default_eq)
  with 1(4) 2(2) show ?thesis by simp
qed

theorem installed_dependency_aborts_witness:
  "(\<exists>s'. find_deps ex_installed ex_env [] {} [bstr ''libc.so.6'', bstr ''libm.so.6''] ex_start =
      (Inl (Fail (UnableToFind (bstr ''libc.so.6'') {})), s') \<and> queue s' = queue ex_start) \<and>
    fs_exists ex_installed (bstr ''/lib64/libc.so.6'')"
proof
  show "\<exists>s'. find_deps ex_installed ex_env [] {} [bstr ''libc.so.6'', bstr ''libm.so.6''] ex_start =
      (Inl (Fail (UnableToFind (bstr ''libc.so.6'') {})), s') \<and> queue s' = queue ex_start"
  proof (rule installed_dependency_aborts[OF ex_start_ok])
    show "Option.bind (env_cache ex_env) (\<lambda>cache. cache (bstr ''libc.so.6'')) = None"
      by (simp only: ex_env_simps) simp
    show "first_stop (wanted ex_installed ex_env) (visited ex_start)
        (map (\<lambda>l. candidate ex_installed (push l (bstr ''libc.so.6''))) ([] @ default_libdir ex_env)) = None"
      unfolding ex_candidates[OF ex_installed_simps(1)]
      by (simp add: first_stop_simps wanted_def ex_env_simps)
  qed
qed simp

lemma ex_not_found:
  obtains s' where "recurse byteorder_std ex_installed ex_env (\<lambda>_. []) (bstr ''/bin/x'') {} ex_start =
    (Inl (Fail (UnableToFind (bstr ''libc.so.6'') {})), s')"
proof -
  have f: "first_stop (wanted ex_installed ex_env) (visited ex_start)
      (map (\<lambda>l. candidate ex_installed (push l (bstr ''libc.so.6''))) (default_libdir ex_env)) = None"
    unfolding ex_candidates[OF ex_installed_simps(1), unfolded append_Nil]
    by (simp add: first_stop_simps wanted_def ex_env_simps)
  obtain s2 where 2: "search_lpaths ex_installed ex_env {} (bstr ''libc.so.6'')
      (default_libdir ex_env) ex_start = (False, s2)"
    by (rule search_lpaths_none[OF ex_start_ok f])
  have "find_dep ex_installed ex_env [] {} (bstr ''libc.so.6'') ex_start = (False, s2)"
    using 2 unfolding find_dep_def search_lpaths.simps(1) search_default_eq
    by (simp add: ex_env_simps(1) del: bstr_Cons search_lpaths.simps)
  moreover have "collect_deps byteorder_std ex_installed (bstr ''/bin/x'') {} =
      Inr ({}, [bstr ''libc.so.6''])"
    by (rule ex_collect_img) (simp add: ex_installed_def plain_fs_def)
  ultimately have "recurse byteorder_std ex_installed ex_env (\<lambda>_. []) (bstr ''/bin/x'') {} ex_start =
    (Inl (Fail (UnableToFind (bstr ''libc.so.6'') {})), s2)"
    unfolding recurse_def by (simp del: bstr_Cons)
  then show ?thesis by (rule that)
qed

theorem recurse_unable_to_find_witness:
  "list_all (\<lambda>l. \<not> wanted ex_installed ex_env (candidate ex_installed (push l (bstr ''libc.so.6''))))
      ((\<lambda>_. []) ({} :: path set) @ default_libdir ex_env) \<and>
    Option.bind (env_cache ex_env) (\<lambda>cache. cache (bstr ''libc.so.6'')) = None"
  by (rule ex_not_found) (rule recurse_unable_to_find[OF ex_start_ok])

text \<open>
  C39: When the first candidate of a dependency was visited before, for another binary, the
  dependency counts as settled, although the file may not exist and a library further down the
  search order may be wanted and never visited: nothing is queued.
\<close>

theorem visited_candidate_ends_search:
  assumes "cache_ok F s" and "candidate F (push l dep) \<in> visited s"
  shows "\<exists>s'. find_dep F env (l # dirs) lpaths dep s = (True, s') \<and> queue s' = queue s \<and>
    visited s' = visited s"
proof -
  obtain q s' where q: "canonical_or_self F (push l dep) s = (q, s')" by fastforce
  note c = canonical_or_self_ok[OF assms(1) q]
  have "search_lpaths F env lpaths dep (l # dirs) s = (True, s')"
    by (rule search_lpaths_seen[OF q]) (use c assms(2) in simp)
  with c show ?thesis by (simp add: find_dep_def)
qed

lemma ex_opt_paths:
  "parent (push (bstr ''/opt'') (bstr ''libc.so.6'')) = Some (bstr ''/opt'')"
  "file_name (push (bstr ''/opt'') (bstr ''libc.so.6'')) = Some (bstr ''libc.so.6'')"
  by code_simp+

theorem visited_candidate_ends_search_witness:
  "(\<exists>s'. find_dep ex_fs ex_env (bstr ''/opt'' # []) {bstr ''/opt''} (bstr ''libc.so.6'')
        (mark_visited (bstr ''/opt/libc.so.6'') ex_start) = (True, s') \<and>
      queue s' = queue (mark_visited (bstr ''/opt/libc.so.6'') ex_start) \<and>
      visited s' = visited (mark_visited (bstr ''/opt/libc.so.6'') ex_start)) \<and>
    bstr ''/lib64'' \<in> set (default_libdir ex_env) \<and> \<not> fs_exists ex_fs (bstr ''/opt/libc.so.6'') \<and>
    wanted ex_fs ex_env (bstr ''/lib64/libc.so.6'') \<and>
    bstr ''/lib64/libc.so.6'' \<notin> visited (mark_visited (bstr ''/opt/libc.so.6'') ex_start)"
proof (intro conjI)
  have "candidate ex_fs (push (bstr ''/opt'') (bstr ''libc.so.6'')) =
      push (bstr ''/opt'') (bstr ''libc.so.6'')"
    by (rule candidate_plain[OF ex_opt_paths]) simp
  also have "\<dots> = bstr ''/opt/libc.so.6''" by (simp add: push_def has_root_def)
  finally have *: "candidate ex_fs (push (bstr ''/opt'') (bstr ''libc.so.6'')) \<in>
      visited (mark_visited (bstr ''/opt/libc.so.6'') ex_start)"
    by (simp only: work_simps insertI1)
  show "\<exists>s'. find_dep ex_fs ex_env (bstr ''/opt'' # []) {bstr ''/opt''} (bstr ''libc.so.6'')
        (mark_visited (bstr ''/opt/libc.so.6'') ex_start) = (True, s') \<and>
      queue s' = queue (mark_visited (bstr ''/opt/libc.so.6'') ex_start) \<and>
      visited s' = visited (mark_visited (bstr ''/opt/libc.so.6'') ex_start)"
    by (rule visited_candidate_ends_search[OF _ *]) (simp only: cache_ok_work ex_start_ok)
qed (simp_all add: ex_env_simps wanted_def)

end
