(* ===== verification/RelPath.thy ===== *)
theory RelPath
  imports FileSystem
begin

text \<open>
  Path arithmetic of \<open>src/file/mod.rs\<close>: \<open>canonicalize_dir\<close> and \<open>convert_abs_rel\<close>, which turns an
  absolute link target into one that is relative to the directory of the link. \<open>zip_longest\<close> of
  the itertools crate is a parameter; the relative path is judged by what it names, read from the
  directory of the link.
\<close>

section \<open>The code\<close>

text \<open>A \<open>ChainResult<_, String>\<close> carries the context string of the failure.\<close>

definition file_canonicalize_dir :: "fs \<Rightarrow> path \<Rightarrow> (string, path) res" where
  "file_canonicalize_dir F source = (case file_name source of
      None \<Rightarrow> Inl (Fail ''cant get filename'')
    | Some source_filename \<Rightarrow> (case parent source of
        None \<Rightarrow> Inl (Fail ''cant get parent'')
      | Some dir \<Rightarrow> (case fs_canonicalize F dir of
          Inl _ \<Rightarrow> Inl (Fail ''cant canonicalize'')
        | Inr dir \<Rightarrow> Inr (push dir source_filename))))"

datatype ('a, 'b) either_or_both = Both 'a 'b | LeftOnly 'a | RightOnly 'b

type_synonym zip_longest =
  "component list \<Rightarrow> component list \<Rightarrow> (component, component) either_or_both list"

text \<open>The closure of \<open>filter_map\<close>: what is pushed onto \<open>rest\<close> and onto \<open>target_rel\<close>.\<close>

fun rel_step :: "(component, component) either_or_both \<Rightarrow> (bytes \<times> bytes) option" where
  "rel_step (Both a b) = (if a = b then Some ([], []) else Some (component_bytes a, [dot, dot]))"
| "rel_step (LeftOnly a) = Some (component_bytes a, [])"
| "rel_step (RightOnly _) = None"

definition convert_abs_rel :: "zip_longest \<Rightarrow> path \<Rightarrow> path \<Rightarrow> (string, path) res" where
  "convert_abs_rel zl source target = (case parent target of
      None \<Rightarrow> Inl (Fail ''cant get parent'')
    | Some dir \<Rightarrow>
        (case fold (\<lambda>(a, b) (rest, target_rel). (push rest a, push target_rel b))
            (List.map_filter rel_step (zl (components source) (components dir))) ([], []) of
          (rest, target_rel) \<Rightarrow> Inr (push target_rel rest)))"

section \<open>The iterator\<close>

fun zip_longest_std :: "'a list \<Rightarrow> 'b list \<Rightarrow> ('a, 'b) either_or_both list" where
  "zip_longest_std [] ys = map RightOnly ys"
| "zip_longest_std xs [] = map LeftOnly xs"
| "zip_longest_std (x # xs) (y # ys) = Both x y # zip_longest_std xs ys"

text \<open>What the documentation of itertools promises.\<close>

definition zip_longest_ok :: "zip_longest \<Rightarrow> bool" where
  "zip_longest_ok zl \<longleftrightarrow> (\<forall>xs ys. zl xs ys = zip_longest_std xs ys)"

section \<open>What a path names\<close>

text \<open>
  The lexical walk along components from a directory, given as its names from the root: \<open>..\<close>
  goes up, a root starts over.
\<close>

fun walk :: "bytes list \<Rightarrow> component list \<Rightarrow> bytes list" where
  "walk d [] = d"
| "walk d (RootDir # cs) = walk [] cs"
| "walk d (CurDir # cs) = walk d cs"
| "walk d (ParentDir # cs) = walk (butlast d) cs"
| "walk d (Normal n # cs) = walk (d @ [n]) cs"

text \<open>An absolute path without \<open>.\<close> and \<open>..\<close>.\<close>

definition plain_abs :: "path \<Rightarrow> bytes list \<Rightarrow> bool" where
  "plain_abs p ns \<longleftrightarrow> components p = RootDir # map Normal ns"

lemma walk_append: "walk d (xs @ ys) = walk (walk d xs) ys"
  by (induction d xs rule: walk.induct) auto

lemma walk_Normal: "walk d (map Normal ns) = d @ ns"
  by (induction ns arbitrary: d) auto

lemma walk_parents: "n = length d' \<Longrightarrow> walk (d @ d') (replicate n ParentDir) = d"
proof (induction d' arbitrary: n rule: rev_induct)
  case Nil
  then show ?case by simp
next
  case (snoc x d')
  then show ?case by (simp flip: append_assoc)
qed

section \<open>The components of the result\<close>

text \<open>The names that end up in \<open>rest\<close> and the number of \<open>..\<close>.\<close>

fun rel_rest :: "bytes list \<Rightarrow> bytes list \<Rightarrow> bytes list" where
  "rel_rest [] ys = []"
| "rel_rest xs [] = xs"
| "rel_rest (x # xs) (y # ys) = (if x = y then [] else [x]) @ rel_rest xs ys"

fun rel_ups :: "bytes list \<Rightarrow> bytes list \<Rightarrow> nat" where
  "rel_ups [] ys = 0"
| "rel_ups xs [] = 0"
| "rel_ups (x # xs) (y # ys) = (if x = y then 0 else 1) + rel_ups xs ys"

lemma rel_fold:
  assumes "list_all normal_name xs" and "components r = map Normal ns"
  shows "\<exists>r' t'. fold (\<lambda>(a, b) (rest, target_rel). (push rest a, push target_rel b))
      (List.map_filter rel_step (zip_longest_std (map Normal xs) (map Normal ys))) (r, t) = (r', t') \<and>
    components r' = map Normal (ns @ rel_rest xs ys) \<and>
    components t' = components t @ replicate (rel_ups xs ys) ParentDir"
  using assms
proof (induction xs ys arbitrary: r t ns rule: rel_rest.induct)
  case (1 ys)
  have "List.map_filter rel_step (map RightOnly zs) = []" for zs :: "component list"
    by (induction zs) (simp_all add: map_filter_simps)
  with 1 show ?case by (simp del: list.map_comp map_map)
next
  case (2 x xs)
  have "fold (\<lambda>(a, b) (rest, target_rel). (push rest a, push target_rel b))
      (List.map_filter rel_step (map LeftOnly (map Normal zs))) (r, t) = (r', t') \<Longrightarrow>
    list_all normal_name zs \<Longrightarrow>
    components r' = components r @ map Normal zs \<and> components t' = components t" for zs r t r' t'
    by (induction zs arbitrary: r t) (auto simp: map_filter_simps components_push_normal)
  moreover obtain r' t' where e: "fold (\<lambda>(a, b) (rest, target_rel). (push rest a, push target_rel b))
      (List.map_filter rel_step (map LeftOnly (map Normal (x # xs)))) (r, t) = (r', t')" by fastforce
  ultimately have "components r' = components r @ map Normal (x # xs) \<and> components t' = components t"
    using 2 by blast
  with e 2 show ?case by (auto simp del: fold.simps)
next
  case (3 x xs y ys)
  let ?f = "\<lambda>(a, b) (rest, target_rel). (push rest a, push target_rel b)"
  show ?case
  proof (cases "x = y")
    case True
    with "3.IH"[of "push r []" ns "push t []"] "3.prems" show ?thesis
      by (simp add: map_filter_simps)
  next
    case False
    with "3.IH"[of "push r x" "ns @ [x]" "push t [dot, dot]"] "3.prems" show ?thesis
      by (simp add: map_filter_simps components_push_normal components_push_parent replicate_app_Cons_same)
  qed
qed

lemma convert_components:
  assumes "zip_longest_ok zl" and "plain_abs source xs" and "parent target = Some dir"
    and "plain_abs dir ys"
  shows "\<exists>r. convert_abs_rel zl source target = Inr r \<and>
    components r = replicate (rel_ups xs ys) ParentDir @ map Normal (rel_rest xs ys)"
proof -
  have "list_all normal_name xs"
    using assms(2) normal_component_name[of _ source] by (auto simp: plain_abs_def list_all_iff)
  then obtain rest t where f: "fold (\<lambda>(a, b) (rest, target_rel). (push rest a, push target_rel b))
      (List.map_filter rel_step (zip_longest_std (map Normal xs) (map Normal ys))) ([], []) = (rest, t)"
    and r: "components rest = map Normal (rel_rest xs ys)"
    and t: "components t = replicate (rel_ups xs ys) ParentDir"
    using rel_fold[of xs "[]" "[]" ys "[]"] by auto
  have "components (push t rest) = components t @ components rest"
    using relative_from_components[OF r] by (simp add: components_push_relative)
  moreover have "convert_abs_rel zl source target = Inr (push t rest)"
    using assms f
    by (simp add: convert_abs_rel_def zip_longest_ok_def plain_abs_def map_filter_simps push_def[of "[]"]
        has_root_def[of "[]"])
  ultimately show ?thesis using r t by simp
qed

lemma rel_ups_le: "rel_ups xs ys \<le> length ys"
  by (induction xs ys rule: rel_ups.induct) auto

text \<open>Where the walk from the directory of the link along the result ends.\<close>

definition rel_names :: "bytes list \<Rightarrow> bytes list \<Rightarrow> bytes list" where
  "rel_names xs ys = take (length ys - rel_ups xs ys) ys @ rel_rest xs ys"

lemma walk_rel:
  "walk ys (replicate (rel_ups xs ys) ParentDir @ map Normal (rel_rest xs ys)) = rel_names xs ys"
proof -
  let ?n = "length ys - rel_ups xs ys"
  have "length (drop ?n ys) = rel_ups xs ys" using rel_ups_le[of xs ys] by simp
  from walk_parents[OF this[symmetric], of "take ?n ys"] show ?thesis
    by (simp add: walk_append walk_Normal rel_names_def)
qed

text \<open>
  The condition under which it ends at the source: behind the common prefix, the directory of the
  link is not longer than the source, and differs from it at every position.
\<close>

fun all_differ :: "bytes list \<Rightarrow> bytes list \<Rightarrow> bool" where
  "all_differ xs [] = True"
| "all_differ [] (y # ys) = False"
| "all_differ (x # xs) (y # ys) = (x \<noteq> y \<and> all_differ xs ys)"

fun rel_exact :: "bytes list \<Rightarrow> bytes list \<Rightarrow> bool" where
  "rel_exact xs [] = True"
| "rel_exact [] (y # ys) = False"
| "rel_exact (x # xs) (y # ys) = (if x = y then rel_exact xs ys else all_differ xs ys)"

lemma rel_simps_Nil [simp]: "rel_rest xs [] = xs" "rel_ups xs [] = 0"
  by (cases xs; simp)+

lemma all_differ_ups: "all_differ xs ys \<longleftrightarrow> rel_ups xs ys = length ys"
proof (induction xs ys rule: all_differ.induct)
  case (3 x xs y ys)
  then show ?case using rel_ups_le[of xs ys] by auto
qed simp_all

lemma all_differ_rest: "all_differ xs ys \<Longrightarrow> rel_rest xs ys = xs"
  by (induction xs ys rule: all_differ.induct) auto

lemma rel_names_exact: "rel_names xs ys = xs \<longleftrightarrow> rel_exact xs ys"
proof (induction xs ys rule: rel_exact.induct)
  case (3 x xs y ys)
  have le: "rel_ups xs ys \<le> length ys" by (rule rel_ups_le)
  show ?case
  proof (cases "x = y")
    case True
    with 3 le show ?thesis by (simp add: rel_names_def Suc_diff_le)
  next
    case False
    show ?thesis
    proof (cases "rel_ups xs ys = length ys")
      case True
      with False all_differ_rest[of xs ys] show ?thesis by (simp add: rel_names_def all_differ_ups)
    next
      case less: False
      with le obtain k where "length ys - rel_ups xs ys = Suc k" by (cases "length ys - rel_ups xs ys") auto
      with False less show ?thesis by (simp add: rel_names_def all_differ_ups)
    qed
  qed
qed (simp_all add: rel_names_def)

section \<open>Properties\<close>

text \<open>
  C11: For a source and a link whose directory is plain and absolute, following the relative path
  from the directory of the link ends at the source exactly when, behind their common prefix, the
  directory of the link is not deeper than the source and differs from it at every position.
\<close>

theorem convert_abs_rel_exact:
  assumes "zip_longest_ok zl" and "plain_abs source xs" and "parent target = Some dir"
    and "plain_abs dir ys"
  shows "\<exists>r. convert_abs_rel zl source target = Inr r \<and>
    (walk ys (components r) = xs \<longleftrightarrow> rel_exact xs ys)"
  using convert_components[OF assms] by (metis walk_rel rel_names_exact)

theorem convert_abs_rel_exact_witness:
  "\<exists>r. convert_abs_rel zip_longest_std (bstr ''/lib64/libc.so.6'') (bstr ''/var/libc.so'') = Inr r \<and>
    (walk [bstr ''var''] (components r) = [bstr ''lib64'', bstr ''libc.so.6''] \<longleftrightarrow>
      rel_exact [bstr ''lib64'', bstr ''libc.so.6''] [bstr ''var''])"
proof (rule convert_abs_rel_exact)
  show "zip_longest_ok zip_longest_std" by (simp add: zip_longest_ok_def)
  show "plain_abs (bstr ''/lib64/libc.so.6'') [bstr ''lib64'', bstr ''libc.so.6'']"
    unfolding plain_abs_def by code_simp
  show "parent (bstr ''/var/libc.so'') = Some (bstr ''/var'')" by code_simp
  show "plain_abs (bstr ''/var'') [bstr ''var'']" unfolding plain_abs_def by code_simp
qed


end
