(* ===== verification/LddQueue.thy ===== *)
theory LddQueue
  imports LddCorrect RelPath "HOL-Library.List_Lexorder"
begin

text \<open>
  The function \<open>ldd\<close> of \<open>src/lib.rs\<close>: the work queue of binaries, filled with the given files and
  by the search of each binary. The queue is a pool that worker threads drain, so the order in
  which binaries are taken is open: the step relation takes any of them, and the function takes
  the one a schedule names. A search runs as one step; the file system does not change meanwhile.
\<close>

section \<open>The code\<close>

text \<open>The shared state, the paths that are collected, and the errors that are reported.\<close>

record ldd_run =
  run_state :: ldd_state
  results :: "path list"
  reported :: "(path \<times> recurse_error) list"

text \<open>The closure of \<open>filter_map\<close>; a panic in it ends the whole computation.\<close>

definition ldd_process ::
  "byteorder \<Rightarrow> fs \<Rightarrow> ldd_env \<Rightarrow> (path set \<Rightarrow> path list) \<Rightarrow> bool \<Rightarrow> path \<times> path set \<Rightarrow> ldd_run \<Rightarrow>
    (unit, ldd_run) res" where
  "ldd_process bo F env order report_error job r = (case job of (path, lpaths) \<Rightarrow>
    if \<not> fs_exists F (dest_path env @ path) then
      (case recurse bo F env order path lpaths (run_state r) of
        (Inl Panic, s) \<Rightarrow> Inl Panic
      | (Inl (Fail e), s) \<Rightarrow> Inr (r\<lparr>run_state := s, results := results r @ [path],
          reported := reported r @ (if report_error then [(path, e)] else [])\<rparr>)
      | (Inr _, s) \<Rightarrow> Inr (r\<lparr>run_state := s, results := results r @ [path]\<rparr>))
    else Inr r)"

definition with_queue :: "(path \<times> path set) list \<Rightarrow> ldd_run \<Rightarrow> ldd_run" where
  "with_queue q r = r\<lparr>run_state := (run_state r)\<lparr>queue := q\<rparr>\<rparr>"

text \<open>A hash set is iterated in some order, each element once.\<close>

definition set_order :: "(path set \<Rightarrow> path list) \<Rightarrow> bool" where
  "set_order order \<longleftrightarrow> (\<forall>S. finite S \<longrightarrow> set (order S) = S \<and> distinct (order S))"

text \<open>One worker takes one job.\<close>

inductive ldd_step :: "byteorder \<Rightarrow> fs \<Rightarrow> ldd_env \<Rightarrow> bool \<Rightarrow> ldd_run \<Rightarrow> ldd_run \<Rightarrow> bool"
  for bo F env report_error where
  take_job: "queue (run_state r) = before @ job # after \<Longrightarrow> set_order order \<Longrightarrow>
    ldd_process bo F env order report_error job (with_queue (before @ after) r) = Inr r' \<Longrightarrow>
    ldd_step bo F env report_error r r'"

text \<open>
  The loop under a schedule: \<open>pick\<close> names the job that is taken next and \<open>order\<close> the iteration
  order of its hash set, both from the number of steps that are left.
\<close>

fun ldd_loop ::
  "byteorder \<Rightarrow> fs \<Rightarrow> ldd_env \<Rightarrow> (nat \<Rightarrow> path set \<Rightarrow> path list) \<Rightarrow> (nat \<Rightarrow> nat) \<Rightarrow> bool \<Rightarrow> nat \<Rightarrow>
    ldd_run \<Rightarrow> (unit, ldd_run) res option" where
  "ldd_loop bo F env order pick report_error fuel r =
    (if queue (run_state r) = [] then Some (Inr r)
     else case fuel of
       0 \<Rightarrow> None
     | Suc n \<Rightarrow>
         let q = queue (run_state r); i = pick n mod length q
         in (case ldd_process bo F env (order n) report_error (q ! i)
               (with_queue (take i q @ drop (Suc i) q) r) of
             Inl e \<Rightarrow> Some (Inl e)
           | Inr r' \<Rightarrow> ldd_loop bo F env order pick report_error n r'))"

declare ldd_loop.simps [simp del]

definition standard_libdirs :: "path list" where
  "standard_libdirs = [bstr ''/lib64/dyninst'', bstr ''/lib64'']"

definition result_ok :: "('e, 'a) res \<Rightarrow> 'a option" where
  "result_ok r = (case r of Inl _ \<Rightarrow> None | Inr x \<Rightarrow> Some x)"

definition ldd_setup :: "endianness \<Rightarrow> fs \<Rightarrow> path \<Rightarrow> ldd_env" where
  "ldd_setup native F dest =
    ldd_new (result_ok (read_ld_so_cache native F (bstr ''/''))) standard_libdirs dest"

text \<open>The queue before the workers start; the \<open>unwrap\<close> panics on a file without a directory.\<close>

definition ldd_initial :: "path list \<Rightarrow> ldd_run" where
  "ldd_initial paths = \<lparr>
    run_state = \<lparr>canon_cache = Map.empty, visited = set paths, queue = map (\<lambda>p. (p, {})) paths\<rparr>,
    results = [], reported = []\<rparr>"

definition ldd ::
  "byteorder \<Rightarrow> endianness \<Rightarrow> fs \<Rightarrow> (nat \<Rightarrow> path set \<Rightarrow> path list) \<Rightarrow> (nat \<Rightarrow> nat) \<Rightarrow> nat \<Rightarrow>
    path list \<Rightarrow> bool \<Rightarrow> path \<Rightarrow> (unit, path list) res option" where
  "ldd bo native F order pick fuel files report_error dest =
    (case map_res (file_canonicalize_dir F) files of
      Inl _ \<Rightarrow> Some (Inl Panic)
    | Inr paths \<Rightarrow> map_option (map_sum id results)
        (ldd_loop bo F (ldd_setup native F dest) order pick report_error fuel (ldd_initial paths)))"

section \<open>A work list that ends\<close>

text \<open>
  The contract of a work list over keys of a finite universe: a step takes one job and adds one
  for each of some keys it sees for the first time.
\<close>

locale worklist =
  fixes step :: "'s \<Rightarrow> 's \<Rightarrow> bool" and todo :: "'s \<Rightarrow> nat" and seen :: "'s \<Rightarrow> 'k set" and U :: "'k set"
  assumes step_jobs: "step s t \<Longrightarrow> finite U \<and> (\<exists>new. todo t + 1 \<le> todo s + card new \<and>
    new \<subseteq> U \<inter> (seen t - seen s)) \<and> seen s \<subseteq> seen t"
begin

definition potential :: "'s \<Rightarrow> nat" where
  "potential s = todo s + card (U - seen s)"

lemma step_potential:
  assumes "step s t"
  shows "potential t < potential s"
proof -
  from step_jobs[OF assms] obtain new where U: "finite U"
    and todo: "todo t + 1 \<le> todo s + card new" and new: "new \<subseteq> U \<inter> (seen t - seen s)"
    and mono: "seen s \<subseteq> seen t"
    by blast
  have "card new + card (U - seen t) = card (new \<union> (U - seen t))"
    using U new by (subst card_Un_disjoint) (auto intro: finite_subset)
  also have "\<dots> \<le> card (U - seen s)"
    using U new mono by (intro card_mono) auto
  finally show ?thesis using todo by (simp add: potential_def)
qed

lemma run_length: "(step ^^ n) s t \<Longrightarrow> n + potential t \<le> potential s"
proof (induction n arbitrary: t)
  case 0
  then show ?case by simp
next
  case (Suc n)
  then obtain u where "(step ^^ n) s u" "step u t" by auto
  with Suc.IH step_potential show ?case by fastforce
qed

lemma terminates: "wfP (\<lambda>t s. step s t)"
  by (rule wfp_if_convertible_to_nat[of _ potential]) (rule step_potential)

end

section \<open>One step\<close>

lemma with_queue_simps [simp]:
  "queue (run_state (with_queue q r)) = q" "visited (run_state (with_queue q r)) = visited (run_state r)"
  "canon_cache (run_state (with_queue q r)) = canon_cache (run_state r)"
  "results (with_queue q r) = results r" "reported (with_queue q r) = reported r"
  by (simp_all add: with_queue_def)

lemma cache_ok_with_queue [simp]: "cache_ok F (run_state (with_queue q r)) = cache_ok F (run_state r)"
  by (simp add: cache_ok_def)

lemma ldd_process_grows:
  assumes "cache_ok F (run_state r)" and "ldd_process bo F env order report job r = Inr r'"
  shows "cache_ok F (run_state r') \<and> (\<exists>lpaths. grows F env lpaths (run_state r) (run_state r'))"
proof (cases "fs_exists F (dest_path env @ fst job)")
  case True
  with assms show ?thesis by (cases job) (auto simp: ldd_process_def intro: grows_refl)
next
  case False
  obtain res s' where rec: "recurse bo F env order (fst job) (snd job) (run_state r) = (res, s')" by fastforce
  with assms(2) False have "run_state r' = s'"
    by (cases job) (auto simp: ldd_process_def split: sum.splits fault.splits)
  with recurse_grows[OF assms(1) rec] show ?thesis by simp
qed

section \<open>Termination\<close>

text \<open>
  A bound on the file system: finitely many places that a search can come upon hold a file that
  is there and not installed.
\<close>

definition fs_bounded :: "fs \<Rightarrow> ldd_env \<Rightarrow> path set \<Rightarrow> bool" where
  "fs_bounded F env U \<longleftrightarrow> finite U \<and> (\<forall>q. wanted F env (candidate F q) \<longrightarrow> candidate F q \<in> U)"

definition bounded_step ::
  "byteorder \<Rightarrow> fs \<Rightarrow> ldd_env \<Rightarrow> bool \<Rightarrow> path set \<Rightarrow> ldd_run \<Rightarrow> ldd_run \<Rightarrow> bool" where
  "bounded_step bo F env report U r r' \<longleftrightarrow>
    ldd_step bo F env report r r' \<and> cache_ok F (run_state r) \<and> fs_bounded F env U"

lemma ldd_step_cache_ok:
  "ldd_step bo F env report r r' \<Longrightarrow> cache_ok F (run_state r) \<Longrightarrow> cache_ok F (run_state r')"
  by (induction rule: ldd_step.induct) (auto dest: ldd_process_grows[rotated])

definition queue_length :: "ldd_run \<Rightarrow> nat" where
  "queue_length r = length (queue (run_state r))"

definition seen_paths :: "ldd_run \<Rightarrow> path set" where
  "seen_paths r = visited (run_state r)"

interpretation ldd_queue: worklist "bounded_step bo F env report U" queue_length seen_paths U
  for bo F env report U
proof
  fix r r'
  assume "bounded_step bo F env report U r r'"
  then have step: "ldd_step bo F env report r r'" and ok: "cache_ok F (run_state r)"
    and U: "fs_bounded F env U" by (simp_all add: bounded_step_def)
  from step obtain before job after order where
    q: "queue (run_state r) = before @ job # after"
    and proc: "ldd_process bo F env order report job (with_queue (before @ after) r) = Inr r'"
    by (cases rule: ldd_step.cases)
  from ok obtain l where "grows F env l (run_state (with_queue (before @ after) r)) (run_state r')"
    using ldd_process_grows[OF _ proc] by auto
  then obtain new where new: "queue (run_state r') = (before @ after) @ map (\<lambda>p. (p, l)) new"
    "distinct new" "set new \<subseteq> visited (run_state r') - visited (run_state r)"
    "visited (run_state r) \<subseteq> visited (run_state r')"
    "\<forall>p \<in> set new. wanted F env p \<and> p \<in> range (candidate F)"
    unfolding grows_def by auto
  have "queue_length r' + 1 \<le> queue_length r + card (set new)"
    using q new(1,2) by (simp add: queue_length_def distinct_card)
  moreover have "set new \<subseteq> U \<inter> (seen_paths r' - seen_paths r)"
    using new(3,5) U by (auto simp: seen_paths_def fs_bounded_def)
  ultimately show "finite U \<and> (\<exists>new. queue_length r' + 1 \<le> queue_length r + card new \<and>
      new \<subseteq> U \<inter> (seen_paths r' - seen_paths r)) \<and> seen_paths r \<subseteq> seen_paths r'"
    using new(4) U unfolding seen_paths_def fs_bounded_def by blast
qed

definition orders_ok :: "(nat \<Rightarrow> path set \<Rightarrow> path list) \<Rightarrow> bool" where
  "orders_ok order \<longleftrightarrow> (\<forall>n. set_order (order n))"

text \<open>A turn of the loop is a step of the relation.\<close>

lemma ldd_loop_turn:
  assumes "queue (run_state r) \<noteq> []" and "orders_ok order"
  defines "q \<equiv> queue (run_state r)"
  shows "ldd_loop bo F env order pick report (Suc n) r =
    (case ldd_process bo F env (order n) report (q ! (pick n mod length q))
        (with_queue (take (pick n mod length q) q @ drop (Suc (pick n mod length q)) q) r) of
      Inl e \<Rightarrow> Some (Inl e)
    | Inr r' \<Rightarrow> ldd_loop bo F env order pick report n r')"
    and "ldd_process bo F env (order n) report (q ! (pick n mod length q))
        (with_queue (take (pick n mod length q) q @ drop (Suc (pick n mod length q)) q) r) = Inr r' \<Longrightarrow>
      ldd_step bo F env report r r'"
proof -
  let ?i = "pick n mod length q"
  have i: "?i < length q" using assms(1) by (simp add: q_def)
  show "ldd_loop bo F env order pick report (Suc n) r =
    (case ldd_process bo F env (order n) report (q ! ?i)
        (with_queue (take ?i q @ drop (Suc ?i) q) r) of
      Inl e \<Rightarrow> Some (Inl e)
    | Inr r' \<Rightarrow> ldd_loop bo F env order pick report n r')"
    using assms(1) by (subst ldd_loop.simps) (simp add: q_def Let_def)
  assume p: "ldd_process bo F env (order n) report (q ! ?i)
      (with_queue (take ?i q @ drop (Suc ?i) q) r) = Inr r'"
  show "ldd_step bo F env report r r'"
    by (rule ldd_step.take_job[where before = "take ?i q" and after = "drop (Suc ?i) q"
          and job = "q ! ?i" and order = "order n"])
      (use i p assms(2) in \<open>simp_all add: q_def id_take_nth_drop orders_ok_def\<close>)
qed

lemma ldd_loop_terminates:
  assumes "fs_bounded F env U" and "orders_ok order"
  shows "cache_ok F (run_state r) \<Longrightarrow> ldd_queue.potential U r \<le> fuel \<Longrightarrow>
    ldd_loop bo F env order pick report fuel r \<noteq> None"
proof (induction fuel arbitrary: r)
  case 0
  then have "queue_length r = 0" by (simp add: ldd_queue.potential_def)
  then have "queue (run_state r) = []" by (simp add: queue_length_def)
  then show ?case by (subst ldd_loop.simps) simp
next
  case (Suc n)
  show ?case
  proof (cases "queue (run_state r) = []")
    case True
    then show ?thesis by (subst ldd_loop.simps) simp
  next
    case False
    let ?q = "queue (run_state r)"
    let ?i = "pick n mod length ?q"
    note turn = ldd_loop_turn[OF False assms(2), where bo = bo and F = F and env = env and pick = pick and report = report and n = n]
    show ?thesis
    proof (cases "ldd_process bo F env (order n) report (?q ! ?i)
        (with_queue (take ?i ?q @ drop (Suc ?i) ?q) r)")
      case (Inl e)
      then show ?thesis unfolding turn(1) by simp
    next
      case (Inr r')
      from turn(2)[OF Inr] have step: "ldd_step bo F env report r r'" .
      with Suc.prems(1) assms(1) have "bounded_step bo F env report U r r'"
        by (simp add: bounded_step_def)
      from ldd_queue.step_potential[OF this] Suc.prems(2) have "ldd_queue.potential U r' \<le> n" by simp
      with Suc.IH ldd_step_cache_ok[OF step Suc.prems(1)]
      have "ldd_loop bo F env order pick report n r' \<noteq> None" by blast
      with Inr show ?thesis unfolding turn(1) by simp
    qed
  qed
qed

lemma ldd_loop_reaches:
  assumes "orders_ok order"
  shows "ldd_loop bo F env order pick report fuel r = Some (Inr r') \<Longrightarrow>
    (ldd_step bo F env report)\<^sup>*\<^sup>* r r' \<and> queue (run_state r') = []"
proof (induction fuel arbitrary: r)
  case 0
  then show ?case by (subst (asm) ldd_loop.simps) (simp split: if_splits)
next
  case (Suc n)
  show ?case
  proof (cases "queue (run_state r) = []")
    case True
    with Suc.prems show ?thesis by (subst (asm) ldd_loop.simps) simp
  next
    case False
    let ?q = "queue (run_state r)"
    let ?i = "pick n mod length ?q"
    note turn = ldd_loop_turn[OF False assms, where bo = bo and F = F and env = env and pick = pick and report = report and n = n]
    from Suc.prems obtain r1 where r1: "ldd_process bo F env (order n) report (?q ! ?i)
        (with_queue (take ?i ?q @ drop (Suc ?i) ?q) r) = Inr r1"
      and rest: "ldd_loop bo F env order pick report n r1 = Some (Inr r')"
      unfolding turn(1) by (auto split: sum.splits)
    from turn(2)[OF r1] Suc.IH[OF rest] show ?thesis by (auto intro: converse_rtranclp_into_rtranclp)
  qed
qed

lemma ldd_initial_cache_ok: "cache_ok F (run_state (ldd_initial paths))"
  by (simp add: ldd_initial_def cache_ok_def)

lemma ldd_returns:
  assumes "ldd bo native F order pick fuel files report dest = Some (Inr res)"
  obtains paths r where "map_res (file_canonicalize_dir F) files = Inr paths"
    "ldd_loop bo F (ldd_setup native F dest) order pick report fuel (ldd_initial paths) = Some (Inr r)"
    "res = results r"
proof (cases "map_res (file_canonicalize_dir F) files")
  case (Inl e)
  with assms show ?thesis by (simp add: ldd_def)
next
  case (Inr paths)
  with assms obtain z where z: "ldd_loop bo F (ldd_setup native F dest) order pick report fuel
      (ldd_initial paths) = Some z" "map_sum id results z = Inr res"
    by (auto simp: ldd_def)
  then show ?thesis by (cases z) (auto intro: that[OF Inr])
qed

section \<open>An example\<close>

lemma ex_fs_bounded: "fs_bounded ex_fs ex_env {bstr ''/bin/x'', bstr ''/lib64/libc.so.6''}"
  by (simp add: fs_bounded_def wanted_def)

lemma ex_cache_missing: "read_ld_so_cache native ex_fs (bstr ''/'') = Inl (Fail (OsError ENOENT))"
proof -
  have "push (bstr ''/'') (bstr ''etc/ld.so.cache'') = bstr ''/etc/ld.so.cache''"
    by (simp add: push_def has_root_def)
  moreover have "fs_read ex_fs (bstr ''/etc/ld.so.cache'') = Inl (OsError ENOENT)"
    by (simp add: ex_fs_def plain_fs_def)
  ultimately show ?thesis by (simp only: read_ld_so_cache_def io_result_simps bind_res_Inl)
qed

lemma ex_setup: "ldd_setup native ex_fs (bstr ''/dest'') = ex_env"
  by (simp only: ldd_setup_def ex_cache_missing result_ok_def sum.case standard_libdirs_def ex_env_def)

definition ex_order :: "nat \<Rightarrow> path set \<Rightarrow> path list" where
  "ex_order n S = sorted_list_of_set S"

lemma ex_order_ok: "orders_ok ex_order"
  by (simp add: orders_ok_def set_order_def ex_order_def)

lemma ex_file: "map_res (file_canonicalize_dir ex_fs) [bstr ''/bin/x''] = Inr [bstr ''/bin/x'']"
proof -
  have "file_name (bstr ''/bin/x'') = Some (bstr ''x'')" by code_simp
  moreover have "push (bstr ''/bin'') (bstr ''x'') = bstr ''/bin/x''"
    by (simp add: push_def has_root_def)
  ultimately have "file_canonicalize_dir ex_fs (bstr ''/bin/x'') = Inr (bstr ''/bin/x'')"
    by (simp only: file_canonicalize_dir_def option.case ex_paths ex_fs_simps sum.case)
  then show ?thesis by (simp only: map_res.simps bind_res_Inr)
qed

lemma elf_empty: "elf_from_reader bo [] = Inl (Fail InvalidMagic)"
  by (simp add: elf_from_reader_def header_from_reader_def rd_bind_apply rd_map_fail_def
      read_exact_short)

lemma ex_not_elf: "collect_deps bo ex_fs (bstr ''/lib64/libc.so.6'') l = Inl (Fail NotDynamic)"
proof -
  have rd: "fs_read ex_fs (bstr ''/lib64/libc.so.6'') = Inr []" by (simp add: ex_fs_def plain_fs_def)
  show ?thesis
    unfolding collect_deps_def rd by (simp add: elf_empty)
qed

definition ex_final :: ldd_run where
  "ex_final = \<lparr>run_state = ex_done\<lparr>queue := []\<rparr>,
    results = [bstr ''/bin/x'', bstr ''/lib64/libc.so.6''],
    reported = [(bstr ''/lib64/libc.so.6'', NotDynamic)]\<rparr>"

lemma ex_turns:
  "ldd_process byteorder_std ex_fs ex_env (ex_order n) True (bstr ''/bin/x'', {})
     (with_queue [] (ldd_initial [bstr ''/bin/x''])) =
   Inr \<lparr>run_state = ex_done, results = [bstr ''/bin/x''], reported = []\<rparr>"
  "ldd_process byteorder_std ex_fs ex_env (ex_order n) True (bstr ''/lib64/libc.so.6'', {})
     (with_queue [] \<lparr>run_state = ex_done, results = [bstr ''/bin/x''], reported = []\<rparr>) = Inr ex_final"
proof -
  have start: "run_state (with_queue [] (ldd_initial [bstr ''/bin/x''])) = ex_start"
    by (simp add: with_queue_def ldd_initial_def ex_start_def)
  have "ex_order n {} = []" by (simp add: ex_order_def)
  note rec = ex_recurse_order[of "ex_order n", OF this]
  show "ldd_process byteorder_std ex_fs ex_env (ex_order n) True (bstr ''/bin/x'', {})
     (with_queue [] (ldd_initial [bstr ''/bin/x''])) =
   Inr \<lparr>run_state = ex_done, results = [bstr ''/bin/x''], reported = []\<rparr>"
    unfolding ldd_process_def prod.case start rec
    by (simp add: ex_env_simps with_queue_def ldd_initial_def)
  show "ldd_process byteorder_std ex_fs ex_env (ex_order n) True (bstr ''/lib64/libc.so.6'', {})
     (with_queue [] \<lparr>run_state = ex_done, results = [bstr ''/bin/x''], reported = []\<rparr>) = Inr ex_final"
    unfolding ldd_process_def prod.case recurse_def ex_not_elf
    by (simp add: ex_env_simps with_queue_def ex_final_def)
qed

lemma ex_queues:
  "queue (run_state (ldd_initial [bstr ''/bin/x''])) = [(bstr ''/bin/x'', {})]"
  "queue ex_done = [(bstr ''/lib64/libc.so.6'', {})]" "queue (run_state ex_final) = []"
  by (simp_all add: ldd_initial_def ex_done_def ex_final_def)

lemma ex_steps:
  "(ldd_step byteorder_std ex_fs ex_env True)\<^sup>*\<^sup>* (ldd_initial [bstr ''/bin/x'']) ex_final"
proof -
  let ?r = "\<lparr>run_state = ex_done, results = [bstr ''/bin/x''], reported = []\<rparr>"
  have ord: "set_order (ex_order 0)" using ex_order_ok by (simp add: orders_ok_def)
  have "ldd_step byteorder_std ex_fs ex_env True (ldd_initial [bstr ''/bin/x'']) ?r"
    by (rule ldd_step.take_job[OF _ ord, where before = "[]" and after = "[]", unfolded append_Nil])
      (rule ex_queues(1), rule ex_turns(1))
  moreover have "ldd_step byteorder_std ex_fs ex_env True ?r ex_final"
    by (rule ldd_step.take_job[OF _ ord, where before = "[]" and after = "[]", unfolded append_Nil])
      (simp only: ldd_run.select_convs ex_queues(2), rule ex_turns(2))
  ultimately show ?thesis by (meson converse_rtranclp_into_rtranclp rtranclp.rtrancl_refl)
qed

lemma ex_ldd:
  "ldd byteorder_std LittleEndian ex_fs ex_order (\<lambda>_. 0) 3 [bstr ''/bin/x''] True (bstr ''/dest'') =
    Some (Inr [bstr ''/bin/x'', bstr ''/lib64/libc.so.6''])"
proof -
  let ?r = "\<lparr>run_state = ex_done, results = [bstr ''/bin/x''], reported = []\<rparr>"
  have ne: "queue (run_state (ldd_initial [bstr ''/bin/x''])) \<noteq> []" "queue (run_state ?r) \<noteq> []"
    by (simp_all only: ex_queues ldd_run.select_convs) simp_all
  have "ldd_loop byteorder_std ex_fs ex_env ex_order (\<lambda>_. 0) True (Suc (Suc (Suc 0)))
      (ldd_initial [bstr ''/bin/x'']) = ldd_loop byteorder_std ex_fs ex_env ex_order (\<lambda>_. 0) True (Suc (Suc 0)) ?r"
    unfolding ldd_loop_turn(1)[OF ne(1) ex_order_ok] by (simp add: ex_queues(1) ex_turns(1) del: bstr_Cons)
  also have "\<dots> = ldd_loop byteorder_std ex_fs ex_env ex_order (\<lambda>_. 0) True (Suc 0) ex_final"
    unfolding ldd_loop_turn(1)[OF ne(2) ex_order_ok] by (simp add: ex_queues(2) ex_turns(2) del: bstr_Cons)
  also have "\<dots> = Some (Inr ex_final)" by (subst ldd_loop.simps) (simp add: ex_queues(3))
  finally show ?thesis
    unfolding ldd_def ex_file ex_setup numeral_3_eq_3 sum.case
    by (simp add: ex_final_def del: bstr_Cons)
qed

section \<open>Properties\<close>

text \<open>
  C16: With fuel for every given file and every place a search can come upon, the computation
  returns, whatever the schedule and the iteration orders are.
\<close>

theorem ldd_terminates:
  assumes "fs_bounded F (ldd_setup native F dest) U" and "orders_ok order"
    and "length files + card U \<le> fuel"
  shows "ldd bo native F order pick fuel files report dest \<noteq> None"
proof (cases "map_res (file_canonicalize_dir F) files")
  case (Inl e)
  then show ?thesis by (simp add: ldd_def)
next
  case (Inr paths)
  have len: "length paths = length files" using Inr by (simp add: map_res_eq_Inr list_all2_lengthD)
  have "card (U - seen_paths (ldd_initial paths)) \<le> card U"
    using assms(1) by (intro card_mono) (auto simp: fs_bounded_def)
  then have "ldd_queue.potential U (ldd_initial paths) \<le> fuel"
    using assms(3) len by (simp add: ldd_queue.potential_def queue_length_def ldd_initial_def)
  from ldd_loop_terminates[OF assms(1,2) ldd_initial_cache_ok this] Inr show ?thesis
    by (simp add: ldd_def)
qed

theorem ldd_terminates_witness:
  "ldd byteorder_std LittleEndian ex_fs ex_order (\<lambda>_. 0) 3 [bstr ''/bin/x''] True (bstr ''/dest'') \<noteq> None"
proof (rule ldd_terminates[OF _ ex_order_ok])
  show "fs_bounded ex_fs (ldd_setup LittleEndian ex_fs (bstr ''/dest''))
      {bstr ''/bin/x'', bstr ''/lib64/libc.so.6''}"
    unfolding ex_setup by (rule ex_fs_bounded)
qed simp

end
