(* ===== verification/LddInterleave.thy ===== *)
theory LddInterleave
  imports LddQueue "HOL-Library.Multiset"
begin

text \<open>
  The searches of \<open>src/elfkit/ldd.rs\<close> as the worker threads interleave them. A search is cut at the
  operations on the shared state: the test-and-insert of a candidate in the set of visited paths, and
  the enqueueing of a binary. Between two steps of one search any steps of others may happen. The
  canonicalisation cache is left within the step of the candidate, since it cannot be observed.
\<close>

section \<open>One search, step by step\<close>

text \<open>Where a search is in its three loops over candidates: what is left of the current one.\<close>

datatype probe = AtPaths "path list" | AtCache "path list" | AtDefault "path list"

text \<open>
  The local variables of \<open>recurse\<close>: the run paths and the order they are iterated in, the dependency
  that is looked for and those behind it, and a candidate that was marked and is still to be enqueued.
\<close>

record search =
  s_lpaths :: "path set"
  s_dirs :: "path list"
  s_dep :: bytes
  s_deps :: "bytes list"
  s_probe :: probe
  s_pending :: "path option"

datatype progress = Going search | Finished "(recurse_error, unit) res"

text \<open>\<open>continue 'outer\<close>.\<close>

definition next_dep :: "search \<Rightarrow> progress" where
  "next_dep w = (case s_deps w of
      [] \<Rightarrow> Finished (Inr ())
    | d # ds \<Rightarrow> Going (w\<lparr>s_dep := d, s_deps := ds, s_probe := AtPaths (s_dirs w), s_pending := None\<rparr>))"

definition start_search :: "path list \<Rightarrow> path set \<Rightarrow> bytes list \<Rightarrow> progress" where
  "start_search dirs lpaths deps = next_dep
    \<lparr>s_lpaths = lpaths, s_dirs = dirs, s_dep = [], s_deps = deps, s_probe = AtPaths [], s_pending = None\<rparr>"

text \<open>The candidate with its directory canonicalised, and whether it was inserted.\<close>

definition check :: "fs \<Rightarrow> path \<Rightarrow> ldd_state \<Rightarrow> (path \<times> bool) \<times> ldd_state" where
  "check F p s = (case canonical_or_self F p s of (q, s) \<Rightarrow>
    if q \<notin> visited s then ((q, True), mark_visited q s) else ((q, False), s))"

definition pending_of :: "fs \<Rightarrow> ldd_env \<Rightarrow> path \<Rightarrow> path option" where
  "pending_of F env q = (if wanted F env q then Some q else None)"

definition search_step :: "fs \<Rightarrow> ldd_env \<Rightarrow> search \<Rightarrow> ldd_state \<Rightarrow> progress \<times> ldd_state" where
  "search_step F env w s = (case s_pending w of
      Some p \<Rightarrow> (case s_probe w of
          AtCache _ \<Rightarrow> Going (w\<lparr>s_pending := None\<rparr>)
        | _ \<Rightarrow> next_dep w, enqueue (p, s_lpaths w) s)
    | None \<Rightarrow> (case s_probe w of
          AtPaths [] \<Rightarrow> (case Option.bind (env_cache env) (\<lambda>cache. cache (s_dep w)) of
              Some vals \<Rightarrow> Going (w\<lparr>s_probe := AtCache vals\<rparr>)
            | None \<Rightarrow> Going (w\<lparr>s_probe := AtDefault (default_libdir env)\<rparr>), s)
        | AtPaths (l # ls) \<Rightarrow> (case check F (push l (s_dep w)) s of ((q, new), s) \<Rightarrow>
            (if new then Going (w\<lparr>s_probe := AtPaths ls, s_pending := pending_of F env q\<rparr>) else next_dep w, s))
        | AtCache [] \<Rightarrow> (next_dep w, s)
        | AtCache (f # vals) \<Rightarrow> (case check F f s of ((q, new), s) \<Rightarrow>
            (Going (w\<lparr>s_probe := AtCache vals, s_pending := if new then pending_of F env q else None\<rparr>), s))
        | AtDefault [] \<Rightarrow> (Finished (Inl (Fail (UnableToFind (s_dep w) (s_lpaths w)))), s)
        | AtDefault (l # ls) \<Rightarrow> (case check F (push l (s_dep w)) s of ((q, new), s) \<Rightarrow>
            (if new then Going (w\<lparr>s_probe := AtDefault ls, s_pending := pending_of F env q\<rparr>) else next_dep w, s))))"

text \<open>A search that no other disturbs.\<close>

inductive runs_alone ::
  "fs \<Rightarrow> ldd_env \<Rightarrow> progress \<Rightarrow> ldd_state \<Rightarrow> (recurse_error, unit) res \<Rightarrow> ldd_state \<Rightarrow> bool" for F env where
  stop: "runs_alone F env (Finished r) s r s"
| step: "search_step F env w s = (p, t) \<Longrightarrow> runs_alone F env p t r u \<Longrightarrow> runs_alone F env (Going w) s r u"

inductive_cases runs_aloneE: "runs_alone F env (Finished r) s r' t"

section \<open>Alone it is the function\<close>

text \<open>What is left of the search, in terms of the loops.\<close>

definition rest_of :: "fs \<Rightarrow> ldd_env \<Rightarrow> search \<Rightarrow> ldd_state \<Rightarrow> (recurse_error, unit) res \<times> ldd_state" where
  "rest_of F env w s =
    (let deps = find_deps F env (s_dirs w) (s_lpaths w) (s_deps w);
         fail = (Inl (Fail (UnableToFind (s_dep w) (s_lpaths w))));
         default = (\<lambda>ls s. case search_default F env (s_lpaths w) (s_dep w) ls s of
           (True, s) \<Rightarrow> deps s | (False, s) \<Rightarrow> (fail, s))
     in case s_pending w of
          Some p \<Rightarrow> (let s = enqueue (p, s_lpaths w) s in case s_probe w of
              AtCache vals \<Rightarrow> deps (search_cache F env (s_lpaths w) vals s)
            | _ \<Rightarrow> deps s)
        | None \<Rightarrow> (case s_probe w of
              AtPaths ls \<Rightarrow> (case search_lpaths F env (s_lpaths w) (s_dep w) ls s of
                  (True, s) \<Rightarrow> deps s
                | (False, s) \<Rightarrow> (case Option.bind (env_cache env) (\<lambda>cache. cache (s_dep w)) of
                    Some vals \<Rightarrow> deps (search_cache F env (s_lpaths w) vals s)
                  | None \<Rightarrow> default (default_libdir env) s))
            | AtCache vals \<Rightarrow> deps (search_cache F env (s_lpaths w) vals s)
            | AtDefault ls \<Rightarrow> default ls s))"

definition rest_of_progress ::
  "fs \<Rightarrow> ldd_env \<Rightarrow> progress \<Rightarrow> ldd_state \<Rightarrow> (recurse_error, unit) res \<times> ldd_state" where
  "rest_of_progress F env p s = (case p of Going w \<Rightarrow> rest_of F env w s | Finished r \<Rightarrow> (r, s))"

lemma rest_of_next_dep:
  "rest_of_progress F env (next_dep w) s = find_deps F env (s_dirs w) (s_lpaths w) (s_deps w) s"
  by (cases "s_deps w")
    (auto simp: next_dep_def rest_of_progress_def rest_of_def find_dep_def Let_def split: prod.splits bool.splits option.splits)

lemmas rest_of_simps =
  rest_of_def[where w = "\<lparr>s_lpaths = lpaths, s_dirs = dirs, s_dep = d, s_deps = deps, s_probe = p, s_pending = q\<rparr>"
    for lpaths dirs d deps p q, unfolded search.select_convs Let_def]

text \<open>The three ways a check can go.\<close>

lemma check_cases:
  fixes F p s env
  obtains (seen) q s1 where "canonical_or_self F p s = (q, s1)" "q \<in> visited s1" "check F p s = ((q, False), s1)"
  | (unwanted) q s1 where "canonical_or_self F p s = (q, s1)" "q \<notin> visited s1" "\<not> wanted F env q"
      "check F p s = ((q, True), mark_visited q s1)"
  | (fresh) q s1 where "canonical_or_self F p s = (q, s1)" "q \<notin> visited s1" "wanted F env q"
      "check F p s = ((q, True), mark_visited q s1)"
  by (cases "canonical_or_self F p s") (force simp: check_def)

lemma search_step_rest:
  assumes "search_step F env w s = (p, t)"
  shows "rest_of_progress F env p t = rest_of F env w s"
proof (cases w)
  case (fields lpaths dirs d deps probe pend)
  have going: "rest_of_progress F env (Going w) s = rest_of F env w s" for w s
    by (simp add: rest_of_progress_def)
  note run = assms[unfolded fields search_step_def search.select_convs search.update_convs]
    and simps = fields going rest_of_next_dep rest_of_simps pending_of_def Let_def
  show ?thesis
  proof (cases pend)
    case (Some x)
    with run show ?thesis by (cases probe) (auto simp: simps)
  next
    case None
    show ?thesis
    proof (cases probe)
      case (AtPaths ls)
      show ?thesis
      proof (cases ls)
        case Nil
        with run None AtPaths show ?thesis
          by (cases "Option.bind (env_cache env) (\<lambda>cache. cache d)") (auto simp: simps)
      next
        case (Cons l ls')
        with run None AtPaths show ?thesis
          by (cases rule: check_cases[where F = F and env = env and p = "push l d" and s = s]) (auto simp: simps)
      qed
    next
      case (AtCache vals)
      show ?thesis
      proof (cases vals)
        case Nil
        with run None AtCache show ?thesis by (auto simp: simps)
      next
        case (Cons f vals')
        with run None AtCache show ?thesis
          by (cases rule: check_cases[where F = F and env = env and p = f and s = s]) (auto simp: simps)
      qed
    next
      case (AtDefault ls)
      show ?thesis
      proof (cases ls)
        case Nil
        with run None AtDefault show ?thesis by (auto simp: simps rest_of_progress_def)
      next
        case (Cons l ls')
        with run None AtDefault show ?thesis
          by (cases rule: check_cases[where F = F and env = env and p = "push l d" and s = s]) (auto simp: simps)
      qed
    qed
  qed
qed

lemma runs_alone_rest: "runs_alone F env p s r t \<Longrightarrow> (r, t) = rest_of_progress F env p s"
proof (induction rule: runs_alone.induct)
  case (stop r s)
  then show ?case by (simp add: rest_of_progress_def)
next
  case (step w s p t r u)
  with search_step_rest[OF step.hyps(1)] show ?case by (simp add: rest_of_progress_def)
qed

section \<open>A search ends\<close>

definition tail_cost :: "ldd_env \<Rightarrow> bytes \<Rightarrow> nat" where
  "tail_cost env d = (case Option.bind (env_cache env) (\<lambda>cache. cache d) of
      Some vals \<Rightarrow> 2 * length vals + 1 | None \<Rightarrow> 2 * length (default_libdir env) + 1)"

text \<open>A bound on the steps that are left.\<close>

definition steps_left :: "ldd_env \<Rightarrow> search \<Rightarrow> nat" where
  "steps_left env w = (\<Sum>d \<leftarrow> s_deps w. 2 * length (s_dirs w) + tail_cost env d + 1) +
    (case s_probe w of
      AtPaths ls \<Rightarrow> 2 * length ls + tail_cost env (s_dep w) + 1
    | AtCache vals \<Rightarrow> 2 * length vals + 1
    | AtDefault ls \<Rightarrow> 2 * length ls + 1) + (if s_pending w = None then 0 else 1)"

lemma next_dep_steps: "next_dep w = Going w' \<Longrightarrow> steps_left env w' < steps_left env w"
  by (cases "s_probe w") (auto simp: next_dep_def steps_left_def split: list.splits)

lemma search_step_less:
  assumes "search_step F env w s = (Going w', t)"
  shows "steps_left env w' < steps_left env w"
proof (cases w)
  case (fields lpaths dirs d deps probe pend)
  have next_less: "steps_left env w' < steps_left env w" if "next_dep w = Going w'"
    using next_dep_steps[OF that] .
  note run = assms[unfolded search_step_def]
  show ?thesis
  proof (cases probe)
    case (AtPaths ls)
    with run fields next_less show ?thesis
      by (cases pend; cases ls) (auto simp: steps_left_def tail_cost_def pending_of_def
          split: option.splits prod.splits if_splits)
  next
    case (AtCache ls)
    with run fields next_less show ?thesis
      by (cases pend; cases ls) (auto simp: steps_left_def pending_of_def split: option.splits prod.splits if_splits)
  next
    case (AtDefault ls)
    with run fields next_less show ?thesis
      by (cases pend; cases ls) (auto simp: steps_left_def pending_of_def split: option.splits prod.splits if_splits)
  qed
qed

lemma runs_alone_ends: "\<exists>r t. runs_alone F env p s r t"
proof (cases p)
  case (Going w)
  have "\<exists>r t. runs_alone F env (Going w) s r t"
  proof (induction "steps_left env w" arbitrary: w s rule: less_induct)
    case less
    obtain p t where step: "search_step F env w s = (p, t)" by fastforce
    show ?case
    proof (cases p)
      case (Going w')
      with search_step_less[OF step[unfolded Going]] less step show ?thesis
        by (blast intro: runs_alone.step)
    next
      case (Finished r)
      with step show ?thesis by (auto intro: runs_alone.intros)
    qed
  qed
  with Going show ?thesis by simp
qed (auto intro: runs_alone.stop)

text \<open>Undisturbed, the steps compute \<open>find_deps\<close>.\<close>

lemma runs_alone_iff:
  "runs_alone F env (start_search dirs lpaths deps) s r t \<longleftrightarrow> find_deps F env dirs lpaths deps s = (r, t)"
proof -
  have rest: "rest_of_progress F env (start_search dirs lpaths deps) s = find_deps F env dirs lpaths deps s"
    by (simp add: start_search_def rest_of_next_dep)
  obtain r' t' where run: "runs_alone F env (start_search dirs lpaths deps) s r' t'"
    using runs_alone_ends by blast
  show ?thesis
    using runs_alone_rest[OF run] runs_alone_rest[of F env "start_search dirs lpaths deps" s r t] run rest by auto
qed

text \<open>\<open>recurse\<close> up to its loop over the needed names, and the steps from there on.\<close>

definition start_recurse ::
  "byteorder \<Rightarrow> fs \<Rightarrow> ldd_env \<Rightarrow> (path set \<Rightarrow> path list) \<Rightarrow> path \<Rightarrow> path set \<Rightarrow> progress" where
  "start_recurse bo F env order path lpaths = (case collect_deps bo F path lpaths of
      Inl e \<Rightarrow> Finished (Inl e)
    | Inr (lpaths, deps) \<Rightarrow> start_search (order lpaths) lpaths deps)"

lemma runs_alone_recurse:
  "runs_alone F env (start_recurse bo F env order path lpaths) s r t \<longleftrightarrow>
    recurse bo F env order path lpaths s = (r, t)"
  by (auto simp: start_recurse_def recurse_def runs_alone_iff split: sum.splits
      elim: runs_aloneE intro: runs_alone.stop)

section \<open>The effect of a step\<close>

definition pending :: "progress \<Rightarrow> path option" where
  "pending p = (case p of Going w \<Rightarrow> s_pending w | Finished _ \<Rightarrow> None)"

lemma pending_simps [simp]:
  "pending (Going w) = s_pending w" "pending (Finished r) = None" "pending (next_dep w) = None"
  by (simp_all add: pending_def next_dep_def split: list.split)

lemma check_effect:
  assumes "cache_ok F s" and "check F p s = ((q, new), s')"
  shows "q = candidate F p" "cache_ok F s'" "queue s' = queue s" "new \<longleftrightarrow> q \<notin> visited s"
    "visited s' = insert q (visited s)"
proof -
  obtain q1 s1 where c: "canonical_or_self F p s = (q1, s1)" by fastforce
  note ok = canonical_or_self_ok[OF assms(1) c]
  have s': "s' = (if q1 \<in> visited s then s1 else mark_visited q1 s1)" "q = q1" "new \<longleftrightarrow> q1 \<notin> visited s"
    using assms(2) ok(3) by (auto simp: check_def c split: if_splits)
  show "q = candidate F p" "cache_ok F s'" "queue s' = queue s" "new \<longleftrightarrow> q \<notin> visited s"
    "visited s' = insert q (visited s)"
    using ok by (simp_all add: s' insert_absorb)
qed

text \<open>A step with nothing pending checks one candidate, or leaves the shared state alone.\<close>

lemma search_step_checks:
  assumes "s_pending w = None" and "search_step F env w s = (p, s')"
  obtains (no_check) "s' = s" "pending p = None"
  | (some_check) c q new where "check F c s = ((q, new), s')" "pending p = (if new then pending_of F env q else None)"
proof -
  have checked: thesis if "s' = snd (check F c s)"
    "pending p = (if snd (fst (check F c s)) then pending_of F env (fst (fst (check F c s))) else None)" for c
    using that
    by (intro some_check[of c "fst (fst (check F c s))" "snd (fst (check F c s))"]) simp_all
  show thesis
  proof (cases "s_probe w")
    case (AtPaths ls)
    with assms no_check show ?thesis
      by (cases ls) (auto simp: search_step_def case_prod_beta split: option.splits intro: checked)
  next
    case (AtCache fs)
    with assms no_check show ?thesis
      by (cases fs) (auto simp: search_step_def case_prod_beta intro: checked)
  next
    case (AtDefault ls)
    with assms no_check show ?thesis
      by (cases ls) (auto simp: search_step_def case_prod_beta intro: checked)
  qed
qed

text \<open>
  A step leaves the set and the queue alone, or it inserts one candidate, or it enqueues the pending
  one. In each case the canonicalisation cache stays true.
\<close>

lemma search_step_effect:
  assumes ok: "cache_ok F s" and step: "search_step F env w s = (p, s')"
  obtains (quiet) "cache_ok F s'" "visited s' = visited s" "queue s' = queue s"
      "pending p = None" "s_pending w = None"
  | (marked) q where "cache_ok F s'" "q \<in> range (candidate F)" "q \<notin> visited s"
      "visited s' = insert q (visited s)" "queue s' = queue s"
      "pending p = pending_of F env q" "s_pending w = None"
  | (enqueued) q where "cache_ok F s'" "s_pending w = Some q" "visited s' = visited s"
      "queue s' = queue s @ [(q, s_lpaths w)]" "pending p = None"
proof (cases "s_pending w")
  case (Some q)
  with step ok show ?thesis
    by (intro enqueued[of q]) (auto simp: search_step_def split: probe.splits)
next
  case None
  from None step show ?thesis
  proof (cases rule: search_step_checks)
    case no_check
    with None ok show ?thesis by (auto intro: quiet)
  next
    case (some_check c q new)
    with check_effect[OF ok some_check(1)] None show ?thesis
      by (cases new) (auto simp: insert_absorb intro: quiet marked)
  qed
qed

end
