(* ===== verification/LddPool.thy ===== *)
theory LddPool
  imports LddInterleave
begin

text \<open>
  The pool of worker threads that drain the queue of \<open>ldd\<close> (\<open>src/lib.rs\<close>), each of them running a
  search whose steps interleave with those of the others. The invariant follows every path from the
  set of visited paths over the queue and the workers into the results.
\<close>

section \<open>The code\<close>

text \<open>The shared state with the results, and the workers: a binary and how far its search is.\<close>

record pool =
  pool_run :: ldd_run
  workers :: "(path \<times> progress) list"

definition pool_initial :: "path list \<Rightarrow> pool" where
  "pool_initial paths = \<lparr>pool_run = ldd_initial paths, workers = []\<rparr>"

definition with_state :: "ldd_state \<Rightarrow> ldd_run \<Rightarrow> ldd_run" where
  "with_state s r = r\<lparr>run_state := s\<rparr>"

text \<open>What the closure of \<open>filter_map\<close> does once \<open>recurse\<close> has returned.\<close>

definition finish_job :: "bool \<Rightarrow> path \<Rightarrow> (recurse_error, unit) res \<Rightarrow> ldd_run \<Rightarrow> ldd_run" where
  "finish_job report_error path res r = r\<lparr>results := results r @ [path],
    reported := reported r @ (case res of
      Inl (Fail e) \<Rightarrow> if report_error then [(path, e)] else [] | _ \<Rightarrow> [])\<rparr>"

text \<open>
  A worker drops a binary that is installed, starts the search of one that is not, does a step of
  its search, or ends. A worker that panicked does not end: the panic is raised again when all
  workers have stopped.
\<close>

inductive pool_step :: "byteorder \<Rightarrow> fs \<Rightarrow> ldd_env \<Rightarrow> bool \<Rightarrow> pool \<Rightarrow> pool \<Rightarrow> bool"
  for bo F env report_error where
  skip: "queue (run_state r) = before @ (path, lpaths) # after \<Longrightarrow> fs_exists F (dest_path env @ path) \<Longrightarrow>
    pool_step bo F env report_error \<lparr>pool_run = r, workers = ws\<rparr>
      \<lparr>pool_run = with_queue (before @ after) r, workers = ws\<rparr>"
| start: "queue (run_state r) = before @ (path, lpaths) # after \<Longrightarrow> \<not> fs_exists F (dest_path env @ path) \<Longrightarrow>
    set_order order \<Longrightarrow>
    pool_step bo F env report_error \<lparr>pool_run = r, workers = ws\<rparr>
      \<lparr>pool_run = with_queue (before @ after) r,
       workers = (path, start_recurse bo F env order path lpaths) # ws\<rparr>"
| work: "search_step F env w (run_state r) = (p, s) \<Longrightarrow>
    pool_step bo F env report_error \<lparr>pool_run = r, workers = left @ (path, Going w) # right\<rparr>
      \<lparr>pool_run = with_state s r, workers = left @ (path, p) # right\<rparr>"
| finish: "res \<noteq> Inl Panic \<Longrightarrow>
    pool_step bo F env report_error \<lparr>pool_run = r, workers = left @ (path, Finished res) # right\<rparr>
      \<lparr>pool_run = finish_job report_error path res r, workers = left @ right\<rparr>"

definition pool_idle :: "pool \<Rightarrow> bool" where
  "pool_idle r \<longleftrightarrow> queue (run_state (pool_run r)) = [] \<and> workers r = []"

definition pool_panicked :: "pool \<Rightarrow> bool" where
  "pool_panicked r \<longleftrightarrow> Finished (Inl Panic) \<in> snd ` set (workers r)"

section \<open>A schedule of whole searches is an interleaving\<close>

lemma with_state_simps [simp]:
  "run_state (with_state s r) = s" "results (with_state s r) = results r"
  "reported (with_state s r) = reported r" "with_state t (with_state s r) = with_state t r"
  "with_state (run_state r) r = r"
  by (simp_all add: with_state_def)

lemma finish_job_simps [simp]:
  "run_state (finish_job b p res r) = run_state r" "results (finish_job b p res r) = results r @ [p]"
  by (simp_all add: finish_job_def)

lemma runs_alone_pool:
  "runs_alone F env p s res t \<Longrightarrow> run_state r = s \<Longrightarrow>
    (pool_step bo F env report)\<^sup>*\<^sup>* \<lparr>pool_run = r, workers = [(path, p)]\<rparr>
      \<lparr>pool_run = with_state t r, workers = [(path, Finished res)]\<rparr>"
proof (induction arbitrary: r rule: runs_alone.induct)
  case (stop res s)
  then show ?case by (auto simp: with_state_def)
next
  case (step w s p t res u)
  have "pool_step bo F env report \<lparr>pool_run = r, workers = [(path, Going w)]\<rparr>
      \<lparr>pool_run = with_state t r, workers = [(path, p)]\<rparr>"
    using pool_step.work[where left = "[]" and right = "[]"] step.hyps(1) step.prems by simp
  also have "(pool_step bo F env report)\<^sup>*\<^sup>* \<dots>
      \<lparr>pool_run = with_state u r, workers = [(path, Finished res)]\<rparr>"
    using step.IH[of "with_state t r"] by simp
  finally show ?case .
qed

lemma ldd_process_finish:
  "ldd_process bo F env order report (path, lpaths) r = Inr r' \<Longrightarrow> \<not> fs_exists F (dest_path env @ path) \<Longrightarrow>
    \<exists>res s. recurse bo F env order path lpaths (run_state r) = (res, s) \<and> res \<noteq> Inl Panic \<and>
      r' = finish_job report path res (with_state s r)"
  by (auto simp: ldd_process_def finish_job_def with_state_def split: prod.splits sum.splits fault.splits)

lemma ldd_step_pooled:
  assumes "ldd_step bo F env report r r'"
  shows "(pool_step bo F env report)\<^sup>*\<^sup>* \<lparr>pool_run = r, workers = []\<rparr> \<lparr>pool_run = r', workers = []\<rparr>"
  using assms
proof cases
  case (take_job before job after order)
  obtain path lpaths where job: "job = (path, lpaths)" by fastforce
  let ?r = "with_queue (before @ after) r"
  note q = take_job(1)[unfolded job] and proc = take_job(3)[unfolded job]
  show ?thesis
  proof (cases "fs_exists F (dest_path env @ path)")
    case True
    with proc have "r' = ?r" by (simp add: ldd_process_def)
    with pool_step.skip[OF q True] show ?thesis by blast
  next
    case False
    from ldd_process_finish[OF proc False] obtain res s
      where res: "recurse bo F env order path lpaths (run_state ?r) = (res, s)" "res \<noteq> Inl Panic"
        "r' = finish_job report path res (with_state s ?r)"
      by blast
    have "pool_step bo F env report \<lparr>pool_run = r, workers = []\<rparr>
        \<lparr>pool_run = ?r, workers = [(path, start_recurse bo F env order path lpaths)]\<rparr>"
      by (rule pool_step.start[OF q False take_job(2)])
    also have "(pool_step bo F env report)\<^sup>*\<^sup>* \<dots>
        \<lparr>pool_run = with_state s ?r, workers = [(path, Finished res)]\<rparr>"
      using res(1) by (intro runs_alone_pool[OF _ refl]) (simp add: runs_alone_recurse)
    also have "pool_step bo F env report \<dots> \<lparr>pool_run = r', workers = []\<rparr>"
      using pool_step.finish[OF res(2), where left = "[]" and right = "[]"] res(3) by simp
    finally show ?thesis .
  qed
qed

lemma ldd_steps_pooled:
  "(ldd_step bo F env report)\<^sup>*\<^sup>* r r' \<Longrightarrow>
    (pool_step bo F env report)\<^sup>*\<^sup>* \<lparr>pool_run = r, workers = []\<rparr> \<lparr>pool_run = r', workers = []\<rparr>"
  by (induction rule: rtranclp_induct) (auto dest: ldd_step_pooled)

section \<open>Where a search is\<close>

text \<open>The search of a binary was finished, with every needed name settled.\<close>

definition searched :: "byteorder \<Rightarrow> fs \<Rightarrow> ldd_env \<Rightarrow> path \<Rightarrow> path set \<Rightarrow> bool" where
  "searched bo F env p V \<longleftrightarrow> (\<exists>lpaths lpaths' deps dirs.
    collect_deps bo F p lpaths = Inr (lpaths', deps) \<and> set dirs = lpaths' \<and>
    list_all (\<lambda>dep. settled F env dirs dep V) deps)"

lemma searched_mono: "searched bo F env p V \<Longrightarrow> V \<subseteq> W \<Longrightarrow> searched bo F env p W"
  unfolding searched_def list_all_iff by (blast intro: settled_mono)

lemma scan_entries_finite: "scan_entries path ds acc = Inr out \<Longrightarrow> finite (fst acc) \<Longrightarrow> finite (fst out)"
  by (induction path ds acc rule: scan_entries.induct)
    (auto simp: add_run_paths_def bind_res_eq_Inr split: dynamic_content.splits option.splits if_splits)

lemma scan_sections_finite:
  "scan_sections bo img eh path idx secs acc = Inr out \<Longrightarrow> finite (fst acc) \<Longrightarrow> finite (fst out)"
proof (induction bo img eh path idx secs acc rule: scan_sections.induct)
  case (2 bo img eh path shndx rest secs acc)
  then show ?case
    by (fastforce simp: bind_res_eq_Inr split: if_splits sum.splits option.splits
        dest: scan_entries_finite)
qed simp

lemma collect_deps_finite:
  "collect_deps bo F path lpaths = Inr (lpaths', deps) \<Longrightarrow> finite lpaths \<Longrightarrow> finite lpaths'"
  by (erule collect_depsE, drule scan_sections_finite) simp_all

text \<open>An error that is reported is the failure to read the binary, or a name without candidates.\<close>

definition explained :: "byteorder \<Rightarrow> fs \<Rightarrow> ldd_env \<Rightarrow> path \<Rightarrow> recurse_error \<Rightarrow> bool" where
  "explained bo F env path e \<longleftrightarrow> (\<exists>lpaths. collect_deps bo F path lpaths = Inl (Fail e)) \<or>
    (\<exists>lpaths lpaths' deps dirs dep. collect_deps bo F path lpaths = Inr (lpaths', deps) \<and>
      set dirs = lpaths' \<and> dep \<in> set deps \<and> e = UnableToFind dep lpaths' \<and>
      list_all (\<lambda>l. \<not> wanted F env (candidate F (push l dep))) (dirs @ default_libdir env) \<and>
      Option.bind (env_cache env) (\<lambda>cache. cache dep) = None)"

text \<open>The directories that were passed have no wanted candidate.\<close>

definition passed :: "fs \<Rightarrow> ldd_env \<Rightarrow> bytes \<Rightarrow> path list \<Rightarrow> path list \<Rightarrow> bool" where
  "passed F env d dirs ls \<longleftrightarrow> set ls \<subseteq> set dirs \<and>
    (\<forall>l \<in> set dirs. l \<in> set ls \<or> \<not> wanted F env (candidate F (push l d)))"

definition probe_ok :: "fs \<Rightarrow> ldd_env \<Rightarrow> path set \<Rightarrow> search \<Rightarrow> bool" where
  "probe_ok F env V w \<longleftrightarrow> (case s_probe w of
      AtPaths ls \<Rightarrow> if s_pending w = None then passed F env (s_dep w) (s_dirs w) ls
        else settled F env (s_dirs w) (s_dep w) V
    | AtCache vals \<Rightarrow> (case Option.bind (env_cache env) (\<lambda>cache. cache (s_dep w)) of
        None \<Rightarrow> False | Some all \<Rightarrow> \<forall>f \<in> set all. f \<in> set vals \<or> candidate F f \<in> V)
    | AtDefault ls \<Rightarrow> if s_pending w = None then passed F env (s_dep w) (s_dirs w) [] \<and>
          passed F env (s_dep w) (default_libdir env) ls \<and>
          Option.bind (env_cache env) (\<lambda>cache. cache (s_dep w)) = None
        else settled F env (s_dirs w) (s_dep w) V)"

text \<open>The binary was read, and the names before the ones in \<open>deps\<close> are settled.\<close>

definition so_far :: "byteorder \<Rightarrow> fs \<Rightarrow> ldd_env \<Rightarrow> path set \<Rightarrow> path \<Rightarrow> search \<Rightarrow> bytes list \<Rightarrow> bool" where
  "so_far bo F env V path w deps \<longleftrightarrow> finite (s_lpaths w) \<and> set (s_dirs w) = s_lpaths w \<and>
    (\<exists>lpaths before. collect_deps bo F path lpaths = Inr (s_lpaths w, before @ deps) \<and>
      list_all (\<lambda>d. settled F env (s_dirs w) d V) before)"

definition worker_ok :: "byteorder \<Rightarrow> fs \<Rightarrow> ldd_env \<Rightarrow> path set \<Rightarrow> path \<times> progress \<Rightarrow> bool" where
  "worker_ok bo F env V a \<longleftrightarrow> (case a of
      (path, Going w) \<Rightarrow> so_far bo F env V path w (s_dep w # s_deps w) \<and> probe_ok F env V w
    | (path, Finished (Inr _)) \<Rightarrow> searched bo F env path V
    | (path, Finished (Inl (Fail e))) \<Rightarrow> explained bo F env path e
    | (path, Finished (Inl Panic)) \<Rightarrow> True)"

lemma worker_ok_simps:
  "worker_ok bo F env V (path, Going w) \<longleftrightarrow>
    so_far bo F env V path w (s_dep w # s_deps w) \<and> probe_ok F env V w"
  "worker_ok bo F env V (path, Finished (Inr u)) \<longleftrightarrow> searched bo F env path V"
  "worker_ok bo F env V (path, Finished (Inl (Fail e))) \<longleftrightarrow> explained bo F env path e"
  "worker_ok bo F env V (path, Finished (Inl Panic))"
  by (simp_all add: worker_ok_def)

lemma so_far_mono: "so_far bo F env V path w deps \<Longrightarrow> V \<subseteq> W \<Longrightarrow> so_far bo F env W path w deps"
  unfolding so_far_def list_all_iff by (blast intro: settled_mono)

lemma probe_ok_mono: "probe_ok F env V w \<Longrightarrow> V \<subseteq> W \<Longrightarrow> probe_ok F env W w"
  by (auto simp: probe_ok_def split: probe.splits option.splits if_splits intro: settled_mono)

lemma worker_ok_mono: "worker_ok bo F env V a \<Longrightarrow> V \<subseteq> W \<Longrightarrow> worker_ok bo F env W a"
  by (auto simp: worker_ok_def split: prod.splits progress.splits sum.splits fault.splits
      intro: so_far_mono probe_ok_mono searched_mono)

lemma so_far_update [simp]:
  "so_far bo F env V path (w\<lparr>s_probe := pr\<rparr>) deps = so_far bo F env V path w deps"
  "so_far bo F env V path (w\<lparr>s_pending := x\<rparr>) deps = so_far bo F env V path w deps"
  by (simp_all add: so_far_def)

lemma next_dep_ok:
  assumes "so_far bo F env V path w (s_deps w)"
  shows "worker_ok bo F env V (path, next_dep w)"
proof (cases "s_deps w")
  case Nil
  with assms show ?thesis
    by (auto simp: next_dep_def worker_ok_simps searched_def so_far_def)
next
  case (Cons d ds)
  with assms show ?thesis
    by (auto simp: next_dep_def worker_ok_simps so_far_def probe_ok_def passed_def)
qed

lemma so_far_next:
  assumes "so_far bo F env V path w (d # deps)" and "settled F env (s_dirs w) d V"
  shows "so_far bo F env V path w deps"
proof -
  from assms(1) obtain lpaths before where *: "finite (s_lpaths w)" "set (s_dirs w) = s_lpaths w"
    "collect_deps bo F path lpaths = Inr (s_lpaths w, (before @ [d]) @ deps)"
    "list_all (\<lambda>d. settled F env (s_dirs w) d V) before"
    by (auto simp: so_far_def)
  with assms(2) show ?thesis
    unfolding so_far_def by (intro conjI exI[of _ lpaths] exI[of _ "before @ [d]"]) auto
qed

lemma start_recurse_ok:
  assumes "set_order order" and "finite lpaths"
  shows "worker_ok bo F env V (path, start_recurse bo F env order path lpaths)"
proof (cases "collect_deps bo F path lpaths")
  case (Inl e)
  then show ?thesis
    by (cases e) (auto simp: start_recurse_def worker_ok_simps explained_def)
next
  case (Inr x)
  then obtain lpaths' deps where c: "collect_deps bo F path lpaths = Inr (lpaths', deps)" by (cases x) auto
  have fin: "finite lpaths'" by (rule collect_deps_finite[OF c assms(2)])
  with assms(1) c show ?thesis
    unfolding start_recurse_def start_search_def
    by (auto simp: so_far_def set_order_def intro!: next_dep_ok exI[of _ lpaths] exI[of _ "[]"])
qed

lemma settledI:
  "l \<in> set dirs \<or> l \<in> set (default_libdir env) \<Longrightarrow> candidate F (push l d) \<in> V \<Longrightarrow> settled F env dirs d V"
  unfolding settled_def list_ex_iff by auto

text \<open>A candidate in a directory: what the search does after the check keeps it in order.\<close>

lemma dir_step_ok:
  assumes ok: "cache_ok F s" and far: "so_far bo F env (visited s) path w (s_dep w # s_deps w)"
    and check: "check F (push l (s_dep w)) s = ((q, new), s')"
    and l: "l \<in> set (s_dirs w) \<or> l \<in> set (default_libdir env)"
    and pass: "\<not> wanted F env (candidate F (push l (s_dep w))) \<Longrightarrow>
      probe_ok F env (visited s') (w\<lparr>s_probe := pr, s_pending := None\<rparr>)"
    and pr: "\<nexists>vals. pr = AtCache vals"
  shows "worker_ok bo F env (visited s')
    (path, if new then Going (w\<lparr>s_probe := pr, s_pending := pending_of F env q\<rparr>) else next_dep w)"
proof -
  note c = check_effect[OF ok check]
  have far': "so_far bo F env (visited s') path w (s_dep w # s_deps w)"
    using far by (rule so_far_mono) (auto simp: c(5))
  have settled: "settled F env (s_dirs w) (s_dep w) (visited s')"
    using l by (rule settledI) (simp add: c(5) flip: c(1))
  show ?thesis
  proof (cases new)
    case False
    with next_dep_ok[OF so_far_next[OF far' settled]] show ?thesis by simp
  next
    case True
    have far2: "so_far bo F env (visited s') path (w\<lparr>s_probe := pr, s_pending := x\<rparr>) (s_dep w # s_deps w)" for x
      using far' by (simp add: so_far_def)
    have "probe_ok F env (visited s') (w\<lparr>s_probe := pr, s_pending := pending_of F env q\<rparr>)"
    proof (cases "wanted F env q")
      case True
      with settled pr show ?thesis by (cases pr) (auto simp: probe_ok_def pending_of_def)
    next
      case False
      with pass c(1) show ?thesis by (simp add: pending_of_def)
    qed
    with True far2 show ?thesis by (simp add: worker_ok_simps)
  qed
qed

lemma passed_next:
  "passed F env d dirs (l # ls) \<Longrightarrow> \<not> wanted F env (candidate F (push l d)) \<Longrightarrow> passed F env d dirs ls"
  by (auto simp: passed_def)

lemma search_step_pending_ok:
  assumes "worker_ok bo F env (visited s) (path, Going w)" and "s_pending w = Some q"
    and "search_step F env w s = (p, s')"
  shows "worker_ok bo F env (visited s') (path, p)"
proof -
  have far: "so_far bo F env (visited s) path w (s_dep w # s_deps w)" and probe: "probe_ok F env (visited s) w"
    using assms(1) by (simp_all add: worker_ok_simps)
  have V: "visited s' = visited s" using assms(2,3) by (auto simp: search_step_def)
  show ?thesis
  proof (cases "\<exists>vals. s_probe w = AtCache vals")
    case True
    with assms(2,3) have "p = Going (w\<lparr>s_pending := None\<rparr>)" by (auto simp: search_step_def)
    with far probe True V show ?thesis by (auto simp: worker_ok_simps so_far_def probe_ok_def)
  next
    case False
    with assms(2,3) have p: "p = next_dep w" by (cases "s_probe w") (simp_all add: search_step_def)
    have "settled F env (s_dirs w) (s_dep w) (visited s)"
      using False probe assms(2) by (cases "s_probe w") (simp_all add: probe_ok_def)
    from next_dep_ok[OF so_far_next[OF far this]] show ?thesis unfolding p V .
  qed
qed

lemma paths_step_ok:
  assumes ok: "cache_ok F s" and worker: "worker_ok bo F env (visited s) (path, Going w)"
    and step: "search_step F env w s = (p, s')" and at: "s_pending w = None" "s_probe w = AtPaths ls"
  shows "worker_ok bo F env (visited s') (path, p)"
proof -
  have far: "so_far bo F env (visited s) path w (s_dep w # s_deps w)"
    and pass: "passed F env (s_dep w) (s_dirs w) ls"
    using worker at by (simp_all add: worker_ok_simps probe_ok_def)
  show ?thesis
  proof (cases ls)
    case Nil
    with step pass far at show ?thesis
      by (cases "Option.bind (env_cache env) (\<lambda>cache. cache (s_dep w))")
        (auto simp: search_step_def worker_ok_simps probe_ok_def passed_def)
  next
    case (Cons l ls')
    obtain q new t where c: "check F (push l (s_dep w)) s = ((q, new), t)" by (metis prod.exhaust)
    from step at Cons c have p: "p = (if new then Going (w\<lparr>s_probe := AtPaths ls', s_pending := pending_of F env q\<rparr>)
        else next_dep w)" "s' = t" by (simp_all add: search_step_def)
    from pass Cons have "passed F env (s_dep w) (s_dirs w) (l # ls')" "l \<in> set (s_dirs w)"
      by (auto simp: passed_def)
    then show ?thesis
      unfolding p by (intro dir_step_ok[OF ok far c]) (auto simp: probe_ok_def dest: passed_next)
  qed
qed

lemma default_step_ok:
  assumes ok: "cache_ok F s" and worker: "worker_ok bo F env (visited s) (path, Going w)"
    and step: "search_step F env w s = (p, s')" and at: "s_pending w = None" "s_probe w = AtDefault ls"
  shows "worker_ok bo F env (visited s') (path, p)"
proof -
  have far: "so_far bo F env (visited s) path w (s_dep w # s_deps w)"
    and pass: "passed F env (s_dep w) (s_dirs w) []" "passed F env (s_dep w) (default_libdir env) ls"
      "Option.bind (env_cache env) (\<lambda>cache. cache (s_dep w)) = None"
    using worker at by (simp_all add: worker_ok_simps probe_ok_def)
  show ?thesis
  proof (cases ls)
    case Nil
    with step at have p: "p = Finished (Inl (Fail (UnableToFind (s_dep w) (s_lpaths w))))"
      by (simp add: search_step_def)
    from far obtain lpaths before where
      "collect_deps bo F path lpaths = Inr (s_lpaths w, before @ s_dep w # s_deps w)"
      "set (s_dirs w) = s_lpaths w" by (auto simp: so_far_def)
    with pass Nil have "explained bo F env path (UnableToFind (s_dep w) (s_lpaths w))"
      unfolding explained_def passed_def list_all_iff
      by (intro disjI2 exI[of _ lpaths] exI[of _ "s_lpaths w"] exI[of _ "before @ s_dep w # s_deps w"]
          exI[of _ "s_dirs w"] exI[of _ "s_dep w"]) auto
    then show ?thesis by (simp add: p worker_ok_simps)
  next
    case (Cons l ls')
    obtain q new t where c: "check F (push l (s_dep w)) s = ((q, new), t)" by (metis prod.exhaust)
    from step at Cons c have p: "p = (if new then Going (w\<lparr>s_probe := AtDefault ls', s_pending := pending_of F env q\<rparr>)
        else next_dep w)" "s' = t" by (simp_all add: search_step_def)
    from pass(2) Cons have "passed F env (s_dep w) (default_libdir env) (l # ls')" "l \<in> set (default_libdir env)"
      by (auto simp: passed_def)
    with pass(1,3) show ?thesis
      unfolding p by (intro dir_step_ok[OF ok far c]) (auto simp: probe_ok_def dest: passed_next)
  qed
qed

lemma cache_step_ok:
  assumes ok: "cache_ok F s" and worker: "worker_ok bo F env (visited s) (path, Going w)"
    and step: "search_step F env w s = (p, s')" and at: "s_pending w = None" "s_probe w = AtCache vals"
  shows "worker_ok bo F env (visited s') (path, p)"
proof -
  have far: "so_far bo F env (visited s) path w (s_dep w # s_deps w)" using worker by (simp add: worker_ok_simps)
  from worker at obtain all where all: "Option.bind (env_cache env) (\<lambda>cache. cache (s_dep w)) = Some all"
    "\<forall>f \<in> set all. f \<in> set vals \<or> candidate F f \<in> visited s"
    by (auto simp: worker_ok_simps probe_ok_def split: option.splits)
  show ?thesis
  proof (cases vals)
    case Nil
    with all have "settled F env (s_dirs w) (s_dep w) (visited s)" by (auto simp: settled_def)
    moreover from step at Nil have "p = next_dep w" "s' = s" by (simp_all add: search_step_def)
    ultimately show ?thesis using next_dep_ok[OF so_far_next[OF far]] by simp
  next
    case (Cons f vals')
    obtain q new t where c: "check F f s = ((q, new), t)" by (metis prod.exhaust)
    note e = check_effect[OF ok c]
    from step at Cons c have p: "p = Going (w\<lparr>s_probe := AtCache vals',
        s_pending := if new then pending_of F env q else None\<rparr>)" "s' = t"
      by (simp_all add: search_step_def)
    have "\<forall>f \<in> set all. f \<in> set vals' \<or> candidate F f \<in> visited t"
      using all(2) Cons e(1,5) by auto
    moreover have "so_far bo F env (visited t) path w (s_dep w # s_deps w)"
      using far by (rule so_far_mono) (auto simp: e(5))
    ultimately show ?thesis
      using all(1) unfolding p by (simp add: worker_ok_simps probe_ok_def)
  qed
qed

lemma search_step_ok:
  assumes "cache_ok F s" and "worker_ok bo F env (visited s) (path, Going w)"
    and "search_step F env w s = (p, s')"
  shows "worker_ok bo F env (visited s') (path, p)"
proof (cases "s_pending w")
  case (Some q)
  with search_step_pending_ok[OF assms(2) _ assms(3)] show ?thesis by blast
next
  case None
  with assms show ?thesis
    by (cases "s_probe w") (auto intro: paths_step_ok cache_step_ok default_step_ok)
qed

section \<open>Where a path is\<close>

text \<open>
  The paths that wait in the queue, are being searched, were marked and are about to be enqueued, or
  are results. A path that was marked because it is wanted never leaves them.
\<close>

definition pending_paths :: "(path \<times> progress) list \<Rightarrow> path list" where
  "pending_paths ws = List.map_filter (\<lambda>a. pending (snd a)) ws"

definition pool_paths :: "pool \<Rightarrow> path multiset" where
  "pool_paths r = mset (map fst (queue (run_state (pool_run r)))) + mset (map fst (workers r)) +
    mset (pending_paths (workers r)) + mset (results (pool_run r))"

definition tracked :: "fs \<Rightarrow> ldd_env \<Rightarrow> path list \<Rightarrow> path set \<Rightarrow> path multiset \<Rightarrow> bool" where
  "tracked F env paths V K \<longleftrightarrow> set paths \<union> set_mset K \<subseteq> V \<and>
    (\<forall>p \<in># K. p \<in> set paths \<or> wanted F env p) \<and> (\<forall>q \<in> V. wanted F env q \<longrightarrow> q \<in># K) \<and>
    (\<forall>p \<in> set paths. fs_exists F (dest_path env @ p) \<or> p \<in># K) \<and>
    (distinct paths \<longrightarrow> (\<forall>p. count K p \<le> 1))"

lemma pending_paths_simps [simp]:
  "pending_paths [] = []"
  "pending_paths ((p, next_dep w) # ws) = pending_paths ws"
  "pending_paths ((p, Finished r) # ws) = pending_paths ws"
  "pending_paths (ls @ rs) = pending_paths ls @ pending_paths rs"
  by (simp_all add: pending_paths_def List.map_filter_def)

lemma pending_paths_Cons:
  "pending_paths ((p, q) # ws) = (case pending q of None \<Rightarrow> [] | Some x \<Rightarrow> [x]) @ pending_paths ws"
  by (simp add: pending_paths_def map_filter_simps split: option.split)

lemma pending_start [simp]: "pending (start_recurse bo F env order path lpaths) = None"
  by (simp add: start_recurse_def start_search_def split: sum.split prod.split)

lemma tracked_initial: "tracked F env paths (set paths) (mset paths)"
  by (auto simp: tracked_def wanted_def distinct_count_atmost_1)

lemma tracked_drop:
  "tracked F env paths V (add_mset p K) \<Longrightarrow> fs_exists F (dest_path env @ p) \<Longrightarrow> tracked F env paths V K"
  unfolding tracked_def wanted_def by (auto simp del: count_add_mset) (metis count_add_mset le_SucI le_trans lessI less_imp_le)

lemma tracked_add:
  "tracked F env paths V K \<Longrightarrow> q \<notin> V \<Longrightarrow> wanted F env q \<Longrightarrow>
    tracked F env paths (insert q V) (add_mset q K)"
  by (auto simp: tracked_def count_eq_zero_iff)

lemma tracked_insert:
  "tracked F env paths V K \<Longrightarrow> \<not> wanted F env q \<Longrightarrow> tracked F env paths (insert q V) K"
  by (auto simp: tracked_def)

lemma tracked_distinct: "tracked F env paths V (mset xs) \<Longrightarrow> distinct paths \<Longrightarrow> distinct xs"
  by (force simp: tracked_def distinct_count_atmost_1 le_Suc_eq count_eq_zero_iff)

text \<open>What a step of a search does to the places of the paths.\<close>

lemma pool_paths_work:
  assumes "cache_ok F (run_state r)" and "search_step F env w (run_state r) = (p, s)"
    and "tracked F env paths (visited (run_state r))
      (pool_paths \<lparr>pool_run = r, workers = left @ (path, Going w) # right\<rparr>)"
  shows "tracked F env paths (visited s)
      (pool_paths \<lparr>pool_run = with_state s r, workers = left @ (path, p) # right\<rparr>)"
  using assms(1,2)
proof (cases rule: search_step_effect)
  case quiet
  with assms(3) show ?thesis by (simp add: pool_paths_def pending_paths_Cons)
next
  case (marked q)
  let ?K = "pool_paths \<lparr>pool_run = r, workers = left @ (path, Going w) # right\<rparr>"
  show ?thesis
  proof (cases "wanted F env q")
    case True
    with marked have "pool_paths \<lparr>pool_run = with_state s r, workers = left @ (path, p) # right\<rparr> = add_mset q ?K"
      by (simp add: pool_paths_def pending_paths_Cons pending_of_def)
    with tracked_add[OF assms(3) marked(3) True] marked(4) show ?thesis by simp
  next
    case False
    with marked have "pool_paths \<lparr>pool_run = with_state s r, workers = left @ (path, p) # right\<rparr> = ?K"
      by (simp add: pool_paths_def pending_paths_Cons pending_of_def)
    with tracked_insert[OF assms(3) False] marked(4) show ?thesis by simp
  qed
next
  case (enqueued q)
  with assms(3) show ?thesis by (simp add: pool_paths_def pending_paths_Cons add_mset_commute)
qed

section \<open>The invariant\<close>

text \<open>
  The binaries among the visited paths that are to be installed, and a set of visited paths that is
  closed under the search: each of those binaries was searched, or its failure has a reason.
\<close>

definition to_install :: "fs \<Rightarrow> ldd_env \<Rightarrow> path list \<Rightarrow> path set \<Rightarrow> path set" where
  "to_install F env paths V =
    {p \<in> V. p \<in> set paths \<and> \<not> fs_exists F (dest_path env @ p) \<or> wanted F env p}"

definition search_closed :: "byteorder \<Rightarrow> fs \<Rightarrow> ldd_env \<Rightarrow> path list \<Rightarrow> path set \<Rightarrow> bool" where
  "search_closed bo F env paths V \<longleftrightarrow> set paths \<subseteq> V \<and>
    (\<forall>p \<in> to_install F env paths V. searched bo F env p V \<or> (\<exists>e. explained bo F env p e))"

definition results_ok :: "byteorder \<Rightarrow> fs \<Rightarrow> ldd_env \<Rightarrow> bool \<Rightarrow> path set \<Rightarrow> ldd_run \<Rightarrow> bool" where
  "results_ok bo F env report V r \<longleftrightarrow> (\<forall>p \<in> set (results r). \<not> fs_exists F (dest_path env @ p) \<and>
      (searched bo F env p V \<or> (\<exists>e. explained bo F env p e \<and> (report \<longrightarrow> (p, e) \<in> set (reported r))))) \<and>
    (\<forall>(p, e) \<in> set (reported r). p \<in> set (results r) \<and> explained bo F env p e)"

definition pool_inv :: "byteorder \<Rightarrow> fs \<Rightarrow> ldd_env \<Rightarrow> bool \<Rightarrow> path list \<Rightarrow> pool \<Rightarrow> bool" where
  "pool_inv bo F env report paths r \<longleftrightarrow> cache_ok F (run_state (pool_run r)) \<and>
    (\<forall>j \<in> set (queue (run_state (pool_run r))). finite (snd j)) \<and>
    (\<forall>a \<in> set (workers r). worker_ok bo F env (visited (run_state (pool_run r))) a \<and>
      \<not> fs_exists F (dest_path env @ fst a)) \<and>
    tracked F env paths (visited (run_state (pool_run r))) (pool_paths r) \<and>
    results_ok bo F env report (visited (run_state (pool_run r))) (pool_run r)"

lemma results_ok_mono:
  "results_ok bo F env report V r \<Longrightarrow> V \<subseteq> W \<Longrightarrow> results_ok bo F env report W r"
  unfolding results_ok_def by (blast intro: searched_mono)

lemma results_ok_state [simp]:
  "results_ok bo F env report V (with_state s r) = results_ok bo F env report V r"
  "results_ok bo F env report V (with_queue q r) = results_ok bo F env report V r"
  by (simp_all add: results_ok_def)

lemma results_ok_finish:
  assumes "results_ok bo F env report V r" and "worker_ok bo F env V (path, Finished res)"
    and "\<not> fs_exists F (dest_path env @ path)" and "res \<noteq> Inl Panic"
  shows "results_ok bo F env report V (finish_job report path res r)"
proof (cases res)
  case (Inr u)
  with assms show ?thesis by (auto simp: results_ok_def finish_job_def worker_ok_simps)
next
  case (Inl x)
  with assms(4) obtain e where "res = Inl (Fail e)" by (cases x) auto
  with assms show ?thesis by (fastforce simp: results_ok_def finish_job_def worker_ok_simps)
qed

text \<open>What the invariant says when nothing is left to do.\<close>

lemma tracked_to_install:
  assumes "tracked F env paths V (mset xs)" and "\<forall>p \<in> set xs. \<not> fs_exists F (dest_path env @ p)"
  shows "set xs = to_install F env paths V"
  using assms by (auto simp: tracked_def to_install_def)

lemma pool_inv_idle:
  assumes inv: "pool_inv bo F env report paths r" and "pool_idle r"
  defines "V \<equiv> visited (run_state (pool_run r))"
  shows "set (results (pool_run r)) = to_install F env paths V" "search_closed bo F env paths V"
    "distinct paths \<Longrightarrow> distinct (results (pool_run r))" "results_ok bo F env report V (pool_run r)"
proof -
  have "pool_paths r = mset (results (pool_run r))"
    using assms(2) by (simp add: pool_idle_def pool_paths_def)
  with inv have t: "tracked F env paths V (mset (results (pool_run r)))"
    and ok: "results_ok bo F env report V (pool_run r)"
    by (simp_all add: pool_inv_def V_def)
  show *: "set (results (pool_run r)) = to_install F env paths V"
    using ok by (intro tracked_to_install[OF t]) (simp add: results_ok_def)
  have "set paths \<subseteq> V" using t by (simp add: tracked_def)
  moreover have "searched bo F env p V \<or> (\<exists>e. explained bo F env p e)" if "p \<in> set (results (pool_run r))" for p
    using ok that by (auto simp: results_ok_def)
  ultimately show "search_closed bo F env paths V" unfolding search_closed_def * by blast
  show "distinct paths \<Longrightarrow> distinct (results (pool_run r))" by (rule tracked_distinct[OF t])
  show "results_ok bo F env report V (pool_run r)" by (rule ok)
qed

lemma pool_inv_initial: "pool_inv bo F env report paths (pool_initial paths)"
  using tracked_initial[of F env paths]
  by (simp add: pool_inv_def pool_initial_def ldd_initial_def cache_ok_def pool_paths_def results_ok_def comp_def)

lemma pool_inv_work:
  assumes "search_step F env w (run_state r) = (p, s)"
    and "pool_inv bo F env report paths \<lparr>pool_run = r, workers = left @ (path, Going w) # right\<rparr>"
  shows "pool_inv bo F env report paths \<lparr>pool_run = with_state s r, workers = left @ (path, p) # right\<rparr>"
proof -
  let ?r = "\<lparr>pool_run = r, workers = left @ (path, Going w) # right\<rparr>"
  have inv: "cache_ok F (run_state r)" "\<forall>j \<in> set (queue (run_state r)). finite (snd j)"
    "\<forall>a \<in> set (left @ (path, Going w) # right). worker_ok bo F env (visited (run_state r)) a \<and>
      \<not> fs_exists F (dest_path env @ fst a)"
    "tracked F env paths (visited (run_state r)) (pool_paths ?r)"
    "results_ok bo F env report (visited (run_state r)) r"
    using assms(2) by (simp_all add: pool_inv_def)
  have w: "worker_ok bo F env (visited (run_state r)) (path, Going w)" using inv(3) by simp
  have effect: "cache_ok F s \<and> visited (run_state r) \<subseteq> visited s \<and> (\<forall>j \<in> set (queue s). finite (snd j))"
    using inv(1) assms(1)
  proof (cases rule: search_step_effect)
    case (enqueued q)
    from w have "finite (s_lpaths w)" by (simp add: worker_ok_simps so_far_def)
    with enqueued inv(2) show ?thesis by simp
  qed (use inv(2) in auto)
  then have "worker_ok bo F env (visited s) a" if "a \<in> set (left @ right)" for a
    using inv(3) that by (auto intro: worker_ok_mono)
  with search_step_ok[OF inv(1) w assms(1)] inv(3)
  have "\<forall>a \<in> set (left @ (path, p) # right). worker_ok bo F env (visited s) a \<and>
      \<not> fs_exists F (dest_path env @ fst a)" by auto
  with effect pool_paths_work[OF inv(1) assms(1) inv(4)] results_ok_mono[OF inv(5)] show ?thesis
    by (simp add: pool_inv_def)
qed

lemma pool_inv_step:
  "pool_step bo F env report r r' \<Longrightarrow> pool_inv bo F env report paths r \<Longrightarrow> pool_inv bo F env report paths r'"
proof (induction rule: pool_step.induct)
  case (skip r before path lpaths after ws)
  then have "tracked F env paths (visited (run_state r)) (add_mset path
      (pool_paths \<lparr>pool_run = with_queue (before @ after) r, workers = ws\<rparr>))"
    by (simp add: pool_inv_def pool_paths_def)
  from tracked_drop[OF this skip.hyps(2)] skip show ?case by (simp add: pool_inv_def)
next
  case (start r before path lpaths after order ws)
  then have "finite lpaths" by (simp add: pool_inv_def)
  with start start_recurse_ok show ?case
    by (simp add: pool_inv_def pool_paths_def pending_paths_Cons)
next
  case (work w r p s left path right)
  then show ?case by (rule pool_inv_work)
next
  case (finish res r left path right)
  then have "worker_ok bo F env (visited (run_state r)) (path, Finished res)"
    "\<not> fs_exists F (dest_path env @ path)" by (simp_all add: pool_inv_def)
  with finish results_ok_finish show ?case by (simp add: pool_inv_def pool_paths_def)
qed

lemma pool_inv_reachable:
  "(pool_step bo F env report)\<^sup>*\<^sup>* (pool_initial paths) r \<Longrightarrow> pool_inv bo F env report paths r"
  by (induction rule: rtranclp_induct) (auto intro: pool_inv_initial pool_inv_step)

section \<open>Every run ends\<close>

text \<open>What is open: jobs, and places of \<open>U\<close> that can still become jobs.\<close>

definition open_paths :: "path set \<Rightarrow> pool \<Rightarrow> nat" where
  "open_paths U r = length (queue (run_state (pool_run r))) + length (pending_paths (workers r)) +
    card (U - visited (run_state (pool_run r)))"

definition weight :: "ldd_env \<Rightarrow> progress \<Rightarrow> nat" where
  "weight env p = (case p of Going w \<Rightarrow> steps_left env w + 2 | Finished _ \<Rightarrow> 1)"

definition work_left :: "ldd_env \<Rightarrow> pool \<Rightarrow> nat" where
  "work_left env r = (\<Sum>a \<leftarrow> workers r. weight env (snd a))"

lemma search_step_weight:
  "search_step F env w s = (p, s') \<Longrightarrow> weight env p < weight env (Going w)"
  by (cases p) (auto simp: weight_def dest: search_step_less)

lemma search_step_open:
  assumes "cache_ok F (run_state r)" and "search_step F env w (run_state r) = (p, s)"
    and "fs_bounded F env U"
  shows "open_paths U \<lparr>pool_run = with_state s r, workers = left @ (path, p) # right\<rparr> \<le>
    open_paths U \<lparr>pool_run = r, workers = left @ (path, Going w) # right\<rparr>"
  using assms(1,2)
proof (cases rule: search_step_effect)
  case (marked q)
  have fin: "finite (U - visited (run_state r))" using assms(3) by (simp add: fs_bounded_def)
  have less: "card (U - insert q (visited (run_state r))) \<le> card (U - visited (run_state r))"
    using fin by (intro card_mono) auto
  show ?thesis
  proof (cases "wanted F env q")
    case True
    with assms(3) marked(2) have "q \<in> U" by (auto simp: fs_bounded_def)
    with marked(3) have eq: "U - visited (run_state r) = insert q (U - insert q (visited (run_state r)))" by blast
    have "card (insert q (U - insert q (visited (run_state r)))) = Suc (card (U - insert q (visited (run_state r))))"
      by (rule card_insert_disjoint) (use assms(3) in \<open>simp_all add: fs_bounded_def\<close>)
    then have "card (U - visited (run_state r)) = Suc (card (U - insert q (visited (run_state r))))"
      by (subst eq)
    with marked True show ?thesis by (simp add: open_paths_def pending_paths_Cons pending_of_def)
  next
    case False
    with marked less show ?thesis by (simp add: open_paths_def pending_paths_Cons pending_of_def)
  qed
qed (simp_all add: open_paths_def pending_paths_Cons)

lemma pool_step_decreases:
  "pool_step bo F env report r r' \<Longrightarrow> pool_inv bo F env report paths r \<Longrightarrow> fs_bounded F env U \<Longrightarrow>
    (r', r) \<in> measures [open_paths U, work_left env]"
proof (induction rule: pool_step.induct)
  case (work w r p s left path right)
  have "cache_ok F (run_state r)" using work.prems(1) by (simp add: pool_inv_def)
  note places = search_step_open[OF this work.hyps work.prems(2), of left path right]
  have "work_left env \<lparr>pool_run = with_state s r, workers = left @ (path, p) # right\<rparr> <
      work_left env \<lparr>pool_run = r, workers = left @ (path, Going w) # right\<rparr>"
    using search_step_weight[OF work.hyps] by (simp add: work_left_def)
  then show ?case by (intro measures_lesseq[where f = "open_paths U", OF places] measures_less)
qed (auto simp: open_paths_def work_left_def weight_def pending_paths_Cons finish_job_def)

lemma pool_runs_end:
  assumes "fs_bounded F env U" and "f 0 = pool_initial paths"
    and "\<And>i. pool_step bo F env report (f i) (f (Suc i))"
  shows False
proof -
  have inv: "pool_inv bo F env report paths (f i)" for i
    by (induction i) (auto simp: assms(2) intro: pool_inv_initial pool_inv_step assms(3))
  have "(f (Suc i), f i) \<in> measures [open_paths U, work_left env]" for i
    by (rule pool_step_decreases[OF assms(3) inv assms(1)])
  with wf_measures[of "[open_paths U, work_left env]"] show False
    unfolding wf_iff_no_infinite_down_chain by blast
qed

lemma set_order_exists: "set_order sorted_list_of_set"
  by (simp add: set_order_def)

lemma pool_progress:
  assumes "\<not> pool_idle r" and "\<not> pool_panicked r"
  shows "\<exists>r'. pool_step bo F env report r r'"
proof (cases r)
  case (fields r0 ws)
  show ?thesis
  proof (cases ws)
    case Nil
    with assms(1) fields have "queue (run_state r0) \<noteq> []" by (simp add: pool_idle_def)
    then obtain path lpaths after where "queue (run_state r0) = [] @ (path, lpaths) # after"
      by (cases "queue (run_state r0)") auto
    with fields set_order_exists show ?thesis
      by (cases "fs_exists F (dest_path env @ path)") (blast intro: pool_step.skip pool_step.start)+
  next
    case (Cons a ws')
    obtain path p where a: "a = (path, p)" by fastforce
    show ?thesis
    proof (cases p)
      case (Going w)
      obtain q s where "search_step F env w (run_state r0) = (q, s)" by fastforce
      from pool_step.work[OF this, where left = "[]" and right = ws' and path = path] fields Cons a Going
      show ?thesis by auto
    next
      case (Finished res)
      with assms(2) fields Cons a have "res \<noteq> Inl Panic" by (auto simp: pool_panicked_def)
      from pool_step.finish[OF this, where left = "[]" and right = ws' and path = path and bo = bo and F = F and
          env = env and report_error = report and r = r0] fields Cons a Finished
      show ?thesis by auto
    qed
  qed
qed

section \<open>Properties\<close>

lemma ldd_result_facts:
  assumes "ldd bo native F order pick fuel files report dest = Some (Inr res)" and "orders_ok order"
  shows "\<exists>paths V. map_res (file_canonicalize_dir F) files = Inr paths \<and>
    set res = to_install F (ldd_setup native F dest) paths V \<and>
    search_closed bo F (ldd_setup native F dest) paths V \<and> (if distinct paths then distinct res else True)"
  using assms(1)
proof (rule ldd_returns)
  fix paths r
  assume paths: "map_res (file_canonicalize_dir F) files = Inr paths" and res: "res = results r"
    and loop: "ldd_loop bo F (ldd_setup native F dest) order pick report fuel (ldd_initial paths) =
      Some (Inr r)"
  let ?r = "\<lparr>pool_run = r, workers = []\<rparr>"
  from ldd_loop_reaches[OF assms(2) loop]
  have "(pool_step bo F (ldd_setup native F dest) report)\<^sup>*\<^sup>* (pool_initial paths) ?r" and idle: "pool_idle ?r"
    unfolding pool_initial_def pool_idle_def by (auto intro: ldd_steps_pooled)
  note final = pool_inv_idle[OF pool_inv_reachable[OF this(1)] idle, unfolded pool.select_convs]
  from final(1-3) paths show ?thesis
    unfolding res by (intro exI[of _ paths] exI[of _ "visited (run_state r)"]) simp
qed



lemma ex_pooled:
  "(pool_step byteorder_std ex_fs ex_env True)\<^sup>*\<^sup>* (pool_initial [bstr ''/bin/x''])
    \<lparr>pool_run = ex_final, workers = []\<rparr>"
  unfolding pool_initial_def by (rule ldd_steps_pooled[OF ex_steps])

text \<open>
  C4: However the steps of the workers interleave, when the pool is idle the results are the given
  files that are not installed and the wanted candidates that were visited, none twice when the given
  files differ. Every result was searched with all its needed names settled, or its failure was
  reported; and each report is of a result, and is the failure to read the binary or a name without
  any candidate.
\<close>

theorem pool_result:
  assumes "(pool_step bo F env True)\<^sup>*\<^sup>* (pool_initial paths) r" and "pool_idle r"
  shows "set (results (pool_run r)) = to_install F env paths (visited (run_state (pool_run r))) \<and>
    (if distinct paths then distinct (results (pool_run r)) else True) \<and>
    list_all (\<lambda>p. searched bo F env p (visited (run_state (pool_run r))))
      (filter (\<lambda>p. p \<notin> fst ` set (reported (pool_run r))) (results (pool_run r))) \<and>
    list_all (\<lambda>(p, e). p \<in> set (results (pool_run r)) \<and> explained bo F env p e) (reported (pool_run r))"
proof -
  note final = pool_inv_idle[OF pool_inv_reachable[OF assms(1)] assms(2)]
  from final(4) have "list_all (\<lambda>p. searched bo F env p (visited (run_state (pool_run r))))
      (filter (\<lambda>p. p \<notin> fst ` set (reported (pool_run r))) (results (pool_run r)))"
    "list_all (\<lambda>(p, e). p \<in> set (results (pool_run r)) \<and> explained bo F env p e) (reported (pool_run r))"
    by (force simp: results_ok_def list_all_iff)+
  with final(1,3) show ?thesis by simp
qed

text \<open>The same for workers that do not interleave.\<close>

lemma ldd_results_searched:
  assumes "(ldd_step bo F env True)\<^sup>*\<^sup>* (ldd_initial paths) r" and "queue (run_state r) = []"
  shows "list_all (\<lambda>p. searched bo F env p (visited (run_state r)))
    (filter (\<lambda>p. p \<notin> fst ` set (reported r)) (results r))"
proof -
  have "pool_inv bo F env True paths \<lparr>pool_run = r, workers = []\<rparr>"
    using ldd_steps_pooled[OF assms(1)] by (intro pool_inv_reachable) (simp add: pool_initial_def)
  then show ?thesis by (force simp: pool_inv_def results_ok_def list_all_iff)
qed

theorem pool_result_witness:
  "set (results ex_final) = to_install ex_fs ex_env [bstr ''/bin/x''] (visited (run_state ex_final)) \<and>
    list_all (\<lambda>(p, e). p \<in> set (results ex_final) \<and> explained byteorder_std ex_fs ex_env p e)
      (reported ex_final)"
proof -
  have "pool_idle \<lparr>pool_run = ex_final, workers = []\<rparr>" by (simp add: pool_idle_def ex_queues(3))
  from pool_result[OF ex_pooled this] show ?thesis unfolding pool.select_convs by blast
qed

text \<open>
  C17: No run of the pool goes on forever when the places a search can come upon are finitely many,
  and a pool that is not idle can go on unless a worker has panicked.
\<close>

theorem pool_terminates:
  assumes "fs_bounded F env U"
  shows "(\<nexists>f. f 0 = pool_initial paths \<and> (\<forall>i. pool_step bo F env report (f i) (f (Suc i)))) \<and>
    (pool_idle r \<or> pool_panicked r \<or> (\<exists>r'. pool_step bo F env report r r'))"
  using pool_runs_end[OF assms] pool_progress by blast

theorem pool_terminates_witness:
  "(\<nexists>f. f 0 = pool_initial [bstr ''/bin/x''] \<and>
      (\<forall>i. pool_step byteorder_std ex_fs ex_env True (f i) (f (Suc i)))) \<and>
    (pool_idle (pool_initial [bstr ''/bin/x'']) \<or> pool_panicked (pool_initial [bstr ''/bin/x'']) \<or>
      (\<exists>r'. pool_step byteorder_std ex_fs ex_env True (pool_initial [bstr ''/bin/x'']) r'))"
  by (rule pool_terminates[OF ex_fs_bounded])

text \<open>
  C18: A result of \<open>ldd\<close> under a schedule of whole searches is one of the pool, whose workers
  interleave step by step.
\<close>

theorem ldd_pooled:
  assumes "ldd bo native F order pick fuel files report dest = Some (Inr res)" and "orders_ok order"
  shows "\<exists>paths r. map_res (file_canonicalize_dir F) files = Inr paths \<and>
    (pool_step bo F (ldd_setup native F dest) report)\<^sup>*\<^sup>* (pool_initial paths) r \<and> pool_idle r \<and>
    results (pool_run r) = res"
  using assms(1)
proof (rule ldd_returns)
  fix paths r
  assume paths: "map_res (file_canonicalize_dir F) files = Inr paths" and res: "res = results r"
    and loop: "ldd_loop bo F (ldd_setup native F dest) order pick report fuel (ldd_initial paths) =
      Some (Inr r)"
  from ldd_loop_reaches[OF assms(2) loop] paths res show ?thesis
    by (intro exI[of _ paths] exI[of _ "\<lparr>pool_run = r, workers = []\<rparr>"])
      (auto simp: pool_initial_def pool_idle_def intro: ldd_steps_pooled)
qed

theorem ldd_pooled_witness:
  "\<exists>paths r. map_res (file_canonicalize_dir ex_fs) [bstr ''/bin/x''] = Inr paths \<and>
    (pool_step byteorder_std ex_fs (ldd_setup LittleEndian ex_fs (bstr ''/dest'')) True)\<^sup>*\<^sup>*
      (pool_initial paths) r \<and> pool_idle r \<and>
    results (pool_run r) = [bstr ''/bin/x'', bstr ''/lib64/libc.so.6'']"
  by (rule ldd_pooled[OF ex_ldd ex_order_ok])

end
