(* ===== verification/Syscalls.thy ===== *)
theory Syscalls
  imports RustStd
begin

text \<open>
  The conversions of system call results of \<open>src/file/mod.rs\<close>: \<open>cvt\<close>, \<open>cvt_r\<close> and
  \<open>cvt_ignore_perm\<close>. The kernel is a parameter: a call takes the state of the system to its return
  value, the value of \<open>errno\<close> and the next state.
\<close>

definition EINTR :: nat where "EINTR = 4"
definition ENXIO :: nat where "ENXIO = 6"
definition EEXIST :: nat where "EEXIST = 17"
definition EXDEV :: nat where "EXDEV = 18"
definition ENOSYS :: nat where "ENOSYS = 38"
definition ENODATA :: nat where "ENODATA = 61"
definition EOPNOTSUPP :: nat where "EOPNOTSUPP = 95"

lemmas errno_defs = EPERM_def ENOENT_def EINVAL_def EINTR_def ENXIO_def EEXIST_def EXDEV_def
  ENOSYS_def ENODATA_def EOPNOTSUPP_def

type_synonym sys_ret = "int \<times> nat"
type_synonym 's syscall = "'s \<Rightarrow> sys_ret \<times> 's"

text \<open>\<open>is_minus_one\<close>, the same for every integer type.\<close>

definition is_minus_one :: "int \<Rightarrow> bool" where
  "is_minus_one t \<longleftrightarrow> t = -1"

definition cvt :: "sys_ret \<Rightarrow> io_error + int" where
  "cvt r = (if is_minus_one (fst r) then Inl (OsError (snd r)) else Inr (fst r))"

text \<open>\<open>err.raw_os_error()\<close>.\<close>

fun raw_os_error :: "io_error \<Rightarrow> nat option" where
  "raw_os_error (OsError e) = Some e"
| "raw_os_error _ = None"

definition interrupted :: "io_error \<Rightarrow> bool" where
  "interrupted e \<longleftrightarrow> raw_os_error e = Some EINTR"

text \<open>The loop of \<open>cvt_r\<close> repeats an interrupted call; it ends only when the kernel lets it.\<close>

partial_function (option) cvt_r :: "'s syscall \<Rightarrow> 's \<Rightarrow> ((io_error + int) \<times> 's) option" where
  "cvt_r f s =
    (case f s of (r, s') \<Rightarrow>
      (case cvt r of
        Inl e \<Rightarrow> if interrupted e then cvt_r f s' else Some (Inl e, s')
      | Inr t \<Rightarrow> Some (Inr t, s')))"

definition cvt_ignore_perm :: "sys_ret \<Rightarrow> bool \<Rightarrow> io_error + int" where
  "cvt_ignore_perm r ignore_eperm =
    (if is_minus_one (fst r) then
       let e = OsError (snd r)
       in if ignore_eperm then (if raw_os_error e = Some EPERM then Inr 0 else Inl e) else Inl e
     else Inr (fst r))"

section \<open>Facts\<close>

lemma cvt_simps [simp]:
  "cvt (-1, e) = Inl (OsError e)"
  "t \<noteq> -1 \<Longrightarrow> cvt (t, e) = Inr t"
  by (simp_all add: cvt_def is_minus_one_def)

lemma cvt_cases:
  obtains (err) e where "r = (-1, e)" "cvt r = Inl (OsError e)"
  | (ok) t e where "r = (t, e)" "t \<noteq> -1" "cvt r = Inr t"
  by (cases r) (auto simp: cvt_def is_minus_one_def split: if_splits)

lemma cvt_eq_Inr: "cvt r = Inr t \<longleftrightarrow> fst r = t \<and> t \<noteq> -1"
  by (auto simp: cvt_def is_minus_one_def)

lemma cvt_eq_Inl: "cvt r = Inl e \<longleftrightarrow> fst r = -1 \<and> e = OsError (snd r)"
  by (auto simp: cvt_def is_minus_one_def)

lemma interrupted_OsError [simp]: "interrupted (OsError e) \<longleftrightarrow> e = EINTR"
  by (simp add: interrupted_def)

lemma cvt_r_final:
  assumes "cvt_r f s = Some (r, s')"
  shows "r \<noteq> Inl (OsError EINTR)"
proof -
  have "cvt_r f s = Some y \<Longrightarrow> fst y \<noteq> Inl (OsError EINTR)" for y
    by (rule cvt_r.raw_induct[of "\<lambda>f s y. fst y \<noteq> Inl (OsError EINTR)"])
      (auto split: sum.splits if_splits prod.splits)
  with assms show ?thesis by fastforce
qed

lemma cvt_r_step: "f s = ((-1, EINTR), s') \<Longrightarrow> cvt_r f s = cvt_r f s'"
  by (subst cvt_r.simps) simp

lemma cvt_r_done:
  "f s = ((t, e), s') \<Longrightarrow> \<not> (t = -1 \<and> e = EINTR) \<Longrightarrow> cvt_r f s = Some (cvt (t, e), s')"
  by (subst cvt_r.simps) (auto simp: cvt_def is_minus_one_def)

text \<open>
  A call that is interrupted \<open>n\<close> times and then ends otherwise is repeated exactly that often,
  and its last result is the result; a result of \<open>cvt_r\<close> is never an interruption.
\<close>

lemma cvt_r_retries:
  assumes "list_all (\<lambda>i. f (st i) = ((-1, EINTR), st (i + 1))) [0..<n]"
    and "f (st n) = ((t, e), s')" and "\<not> (t = -1 \<and> e = EINTR)"
  shows "cvt_r f (st 0) = Some (cvt (t, e), s')"
proof -
  have "cvt_r f (st 0) = cvt_r f (st k)" if "k \<le> n" for k
    using that
  proof (induction k)
    case 0
    show ?case ..
  next
    case (Suc k)
    then have "f (st k) = ((-1, EINTR), st (Suc k))"
      using assms(1) by (simp add: list_all_iff)
    then have "cvt_r f (st k) = cvt_r f (st (Suc k))" by (rule cvt_r_step)
    with Suc show ?case by simp
  qed
  then have "cvt_r f (st 0) = cvt_r f (st n)" by simp
  also have "\<dots> = Some (cvt (t, e), s')" by (rule cvt_r_done) (rule assms)+
  finally show ?thesis .
qed

end
