(* ===== verification/CStrVIter.thy ===== *)
theory CStrVIter
  imports RustStd
begin

text \<open>
  The iterator \<open>CStrVIterator\<close> of \<open>src/cstrviter/mod.rs\<close> over the NUL-terminated strings of a
  byte slice, as \<open>flistxattr\<close> returns them. The state is the slice that is left; each item is
  passed to \<open>CStr::from_bytes_with_nul_unchecked\<close>, whose safety condition is that the only NUL
  byte of the item is its last.
\<close>

text \<open>The scan of \<open>next\<close>, with its counter \<open>index\<close>.\<close>

fun nul_index :: "nat \<Rightarrow> bytes \<Rightarrow> nat option" where
  "nul_index index [] = None"
| "nul_index index (elt # s) = (if elt = 0 then Some index else nul_index (index + 1) s)"

definition cstrv_next :: "bytes \<Rightarrow> (bytes \<times> bytes) option" where
  "cstrv_next sl = (case nul_index 0 sl of
      None \<Rightarrow> None
    | Some index \<Rightarrow> Some (take (index + 1) sl, drop (index + 1) sl))"

lemma nul_index_Some:
  "nul_index k s = Some i \<Longrightarrow> \<exists>n t. s = n @ 0 # t \<and> 0 \<notin> set n \<and> i = k + length n"
proof (induction k s rule: nul_index.induct)
  case (2 index elt s)
  show ?case
  proof (cases "elt = 0")
    case True
    with 2 show ?thesis by (intro exI[of _ "[]"] exI[of _ s]) simp
  next
    case False
    with 2 obtain n t where "s = n @ 0 # t" "0 \<notin> set n" "i = index + 1 + length n" by auto
    with False show ?thesis by (intro exI[of _ "elt # n"] exI[of _ t]) simp
  qed
qed simp

lemma nul_index_None: "nul_index k s = None \<longleftrightarrow> 0 \<notin> set s"
  by (induction k s rule: nul_index.induct) auto

lemma nul_index_append: "0 \<notin> set n \<Longrightarrow> nul_index k (n @ 0 # t) = Some (k + length n)"
  by (induction n arbitrary: k) auto

lemma cstrv_next_Some:
  "cstrv_next s = Some (a, b) \<Longrightarrow> \<exists>n. a = n @ [0] \<and> 0 \<notin> set n \<and> s = a @ b"
  by (auto simp: cstrv_next_def split: option.splits dest!: nul_index_Some)

lemma cstrv_next_append: "0 \<notin> set n \<Longrightarrow> cstrv_next (n @ 0 # t) = Some (n @ [0], t)"
  by (simp add: cstrv_next_def nul_index_append)

lemma cstrv_next_None: "cstrv_next s = None \<longleftrightarrow> 0 \<notin> set s"
  using nul_index_None[of 0 s] by (auto simp: cstrv_next_def split: option.splits)

text \<open>The items a \<open>for\<close> loop over the iterator sees.\<close>

function cstrv_items :: "bytes \<Rightarrow> bytes list" where
  "cstrv_items sl = (case cstrv_next sl of
      None \<Rightarrow> []
    | Some (a, b) \<Rightarrow> a # cstrv_items b)"
  by pat_completeness auto
termination
  by (relation "measure length") (auto dest!: cstrv_next_Some)

declare cstrv_items.simps [simp del]

lemma cstrv_items_append:
  "0 \<notin> set n \<Longrightarrow> cstrv_items (n @ 0 # t) = (n @ [0]) # cstrv_items t"
  by (subst cstrv_items.simps) (simp add: cstrv_next_append)

lemma cstrv_items_no_nul: "0 \<notin> set s \<Longrightarrow> cstrv_items s = []"
  by (subst cstrv_items.simps) (simp add: cstrv_next_None[THEN iffD2])

text \<open>
  Every item ends in the one NUL byte it contains, which is what the unchecked conversion to
  a C string requires, and the items are the input up to a rest without a NUL byte.
\<close>

lemma cstrv_items_sound:
  "\<exists>names rest. cstrv_items s = map (\<lambda>n. n @ [0]) names \<and> s = concat (cstrv_items s) @ rest \<and>
    0 \<notin> \<Union> (set ` set names) \<and> 0 \<notin> set rest"
proof (induction s rule: cstrv_items.induct)
  case (1 s)
  show ?case
  proof (cases "cstrv_next s")
    case None
    then show ?thesis
      by (intro exI[of _ "[]"] exI[of _ s]) (simp add: cstrv_items_no_nul cstrv_next_None)
  next
    case (Some p)
    obtain a b where p: "p = (a, b)" by fastforce
    with Some obtain n where n: "a = n @ [0]" "0 \<notin> set n" "s = a @ b"
      using cstrv_next_Some by blast
    from "1.IH"[OF Some p[symmetric]] obtain names rest where
      "cstrv_items b = map (\<lambda>n. n @ [0]) names" "b = concat (cstrv_items b) @ rest"
      "0 \<notin> \<Union> (set ` set names)" "0 \<notin> set rest" by blast
    with n show ?thesis
      by (intro exI[of _ "n # names"] exI[of _ rest]) (simp add: cstrv_items_append)
  qed
qed

text \<open>
  A buffer of NUL-terminated names, followed by bytes without a terminator, is iterated as
  exactly those names.
\<close>

lemma cstrv_items_roundtrip:
  assumes "list_all (\<lambda>n. 0 \<notin> set n) names" and "0 \<notin> set rest"
  shows "cstrv_items (concat (map (\<lambda>n. n @ [0]) names) @ rest) = map (\<lambda>n. n @ [0]) names"
  using assms by (induction names) (simp_all add: cstrv_items_append cstrv_items_no_nul)

lemma cstrv_items_roundtrip_witness:
  "cstrv_items (concat (map (\<lambda>n. n @ [0]) [bstr ''user.a'', bstr ''security.x'']) @ [7]) =
    map (\<lambda>n. n @ [0]) [bstr ''user.a'', bstr ''security.x'']"
  by (rule cstrv_items_roundtrip) simp_all

end
