(* ===== verification/AclCopy.thy ===== *)
theory AclCopy
  imports Syscalls CStrVIter
begin

text \<open>
  \<open>acl_copy_fd\<close> of \<open>src/acl/mod.rs\<close>: the extended attributes of one open file are copied to
  another one. The three system calls are a parameter, with what they leave in the buffer.
\<close>

record 's xattr_calls =
  flistxattr :: "nat \<Rightarrow> 's \<Rightarrow> (sys_ret \<times> bytes) \<times> 's"
  fgetxattr :: "bytes \<Rightarrow> nat \<Rightarrow> 's \<Rightarrow> (sys_ret \<times> bytes) \<times> 's"
  fsetxattr :: "bytes \<Rightarrow> bytes \<Rightarrow> nat \<Rightarrow> 's \<Rightarrow> sys_ret \<times> 's"

text \<open>The error of a chained result: its context string and the error of the system.\<close>

type_synonym chain_error = "string \<times> io_error"

definition no_xattr :: "nat \<Rightarrow> bool" where
  "no_xattr e \<longleftrightarrow> e = ENODATA \<or> e = EOPNOTSUPP"

text \<open>The early return on a failed call: success when there are no attributes to copy.\<close>

definition xattr_failed :: "string \<Rightarrow> nat \<Rightarrow> chain_error + unit" where
  "xattr_failed ctx e = (if no_xattr e then Inr () else Inl (ctx, OsError e))"

text \<open>
  The loop over the names. The attribute is set with the length the first call reported and the
  bytes the second one delivered; every early return ends the whole loop.
\<close>

fun acl_copy_names ::
  "'s xattr_calls \<Rightarrow> bool \<Rightarrow> bytes list \<Rightarrow> 's \<Rightarrow> (chain_error + unit) \<times> 's" where
  "acl_copy_names X ignore_eperm [] s = (Inr (), s)"
| "acl_copy_names X ignore_eperm (name # names) s =
    (case fgetxattr X name 0 s of (((num_bytes, e), _), s) \<Rightarrow>
      if num_bytes < 0 then (xattr_failed ''acl_copy_fd fgetxattr'' e, s)
      else (case fgetxattr X name (nat num_bytes) s of (((ret, e), buf), s) \<Rightarrow>
        if ret < 0 then (xattr_failed ''acl_copy_fd fgetxattr'' e, s)
        else
          let buffer = take (nat ret) buf
          in (case fsetxattr X name buffer (nat num_bytes) s of ((ret, e), s) \<Rightarrow>
            if ret < 0 then
              if e = EPERM then
                if \<not> ignore_eperm then (Inl (''acl_copy_fd fsetxattr'', OsError e), s)
                else acl_copy_names X ignore_eperm names s
              else if e = EOPNOTSUPP then acl_copy_names X ignore_eperm names s
              else (Inl (''acl_copy_fd fsetxattr'', OsError e), s)
            else acl_copy_names X ignore_eperm names s)))"

definition acl_copy_fd :: "'s xattr_calls \<Rightarrow> bool \<Rightarrow> 's \<Rightarrow> (chain_error + unit) \<times> 's" where
  "acl_copy_fd X ignore_eperm s =
    (case flistxattr X 0 s of (((t, e), _), s) \<Rightarrow>
      if t < 0 then (xattr_failed ''acl_copy_fd num_bytes'' e, s)
      else if t > 0 then
        (case flistxattr X (nat t) s of (((t, e), buf), s) \<Rightarrow>
          if t < 0 then (xattr_failed ''acl_copy_fd names'' e, s)
          else acl_copy_names X ignore_eperm (cstrv_items (take (nat t) buf)) s)
      else (Inr (), s))"

section \<open>What the calls promise\<close>

text \<open>
  The manual pages for a source whose attributes do not change: a buffer of size 0 asks for the
  size, a large enough one is filled; setting an attribute succeeds or is refused with an error
  that depends on the attribute. \<open>view\<close> reads the attributes of the target off the system state.
\<close>

type_synonym attributes = "(bytes \<times> bytes) list"

definition name_list :: "attributes \<Rightarrow> bytes" where
  "name_list attrs = concat (map (\<lambda>a. fst a @ [0]) attrs)"

definition xattr_laws ::
  "'s xattr_calls \<Rightarrow> attributes \<Rightarrow> (bytes \<Rightarrow> nat option) \<Rightarrow> ('s \<Rightarrow> bytes \<rightharpoonup> bytes) \<Rightarrow> bool" where
  "xattr_laws X attrs refuse view \<longleftrightarrow>
    list_all (\<lambda>a. 0 \<notin> set (fst a)) attrs \<and> distinct (map fst attrs) \<and>
    (\<forall>s. \<exists>e b s'. flistxattr X 0 s = (((int (length (name_list attrs)), e), b), s') \<and> view s' = view s) \<and>
    (\<forall>s. \<exists>e s'. flistxattr X (length (name_list attrs)) s =
      (((int (length (name_list attrs)), e), name_list attrs), s') \<and> view s' = view s) \<and>
    (\<forall>n v s. (n, v) \<in> set attrs \<longrightarrow>
      (\<exists>e b s'. fgetxattr X (n @ [0]) 0 s = (((int (length v), e), b), s') \<and> view s' = view s) \<and>
      (\<exists>e s'. fgetxattr X (n @ [0]) (length v) s = (((int (length v), e), v), s') \<and> view s' = view s) \<and>
      (\<exists>r s'. fsetxattr X (n @ [0]) v (length v) s = (r, s') \<and>
        (case refuse n of
          None \<Rightarrow> 0 \<le> fst r \<and> view s' = (view s)(n \<mapsto> v)
        | Some e \<Rightarrow> r = (-1, e) \<and> view s' = view s)))"

text \<open>Whether an error of setting an attribute is passed over.\<close>

definition tolerated :: "bool \<Rightarrow> nat \<Rightarrow> bool" where
  "tolerated ignore_eperm e \<longleftrightarrow> e = EPERM \<and> ignore_eperm \<or> e = EOPNOTSUPP"

text \<open>What the target has of the first attributes, and the rest of it unchanged.\<close>

fun put_attrs :: "(bytes \<Rightarrow> nat option) \<Rightarrow> attributes \<Rightarrow> (bytes \<rightharpoonup> bytes) \<Rightarrow> (bytes \<rightharpoonup> bytes)" where
  "put_attrs refuse [] m = m"
| "put_attrs refuse ((n, v) # attrs) m =
    put_attrs refuse attrs (if refuse n = None then m(n \<mapsto> v) else m)"

text \<open>One attribute under the laws.\<close>

lemma acl_copy_names_step:
  assumes "xattr_laws X all refuse view" and "(n, v) \<in> set all"
  shows "\<exists>s'. view s' = (if refuse n = None then (view s)(n \<mapsto> v) else view s) \<and>
    acl_copy_names X ig ((n @ [0]) # names) s =
      (case refuse n of
        None \<Rightarrow> acl_copy_names X ig names s'
      | Some e \<Rightarrow> if tolerated ig e then acl_copy_names X ig names s'
                  else (Inl (''acl_copy_fd fsetxattr'', OsError e), s'))"
proof -
  note laws = assms(1)[unfolded xattr_laws_def]
  obtain e1 b1 s1 where g1: "fgetxattr X (n @ [0]) 0 s = (((int (length v), e1), b1), s1)" "view s1 = view s"
    using laws assms(2) by metis
  obtain e2 s2 where g2: "fgetxattr X (n @ [0]) (length v) s1 = (((int (length v), e2), v), s2)"
    "view s2 = view s1"
    using laws assms(2) by metis
  obtain r s3 where g3: "fsetxattr X (n @ [0]) v (length v) s2 = (r, s3)"
    "case refuse n of None \<Rightarrow> 0 \<le> fst r \<and> view s3 = (view s2)(n \<mapsto> v)
      | Some e \<Rightarrow> r = (-1, e) \<and> view s3 = view s2"
    using laws assms(2) by metis
  show ?thesis
  proof (cases "refuse n")
    case None
    with g1 g2 g3 show ?thesis
      by (cases r) (intro exI[of _ s3], simp add: Let_def)
  next
    case (Some e)
    with g1 g2 g3 show ?thesis
      by (intro exI[of _ s3]) (auto simp: Let_def tolerated_def EPERM_def EOPNOTSUPP_def)
  qed
qed

lemma acl_copy_names_laws:
  assumes "xattr_laws X all refuse view"
  shows "set attrs \<subseteq> set all \<Longrightarrow> acl_copy_names X ig (map (\<lambda>a. fst a @ [0]) attrs) s = (out, s') \<Longrightarrow>
    (case out of
      Inr _ \<Rightarrow> view s' = put_attrs refuse attrs (view s) \<and>
        (\<forall>a \<in> set attrs. \<forall>e. refuse (fst a) = Some e \<longrightarrow> tolerated ig e)
    | Inl err \<Rightarrow> \<exists>a \<in> set attrs. \<exists>e. refuse (fst a) = Some e \<and> \<not> tolerated ig e \<and>
        err = (''acl_copy_fd fsetxattr'', OsError e))"
proof (induction attrs arbitrary: s)
  case Nil
  then show ?case by auto
next
  case (Cons a attrs)
  obtain n v where a: "a = (n, v)" by fastforce
  with Cons.prems have mem: "(n, v) \<in> set all" by simp
  obtain s1 where s1: "view s1 = (if refuse n = None then (view s)(n \<mapsto> v) else view s)"
    and eq: "acl_copy_names X ig ((n @ [0]) # map (\<lambda>a. fst a @ [0]) attrs) s =
      (case refuse n of
        None \<Rightarrow> acl_copy_names X ig (map (\<lambda>a. fst a @ [0]) attrs) s1
      | Some e \<Rightarrow> if tolerated ig e then acl_copy_names X ig (map (\<lambda>a. fst a @ [0]) attrs) s1
                  else (Inl (''acl_copy_fd fsetxattr'', OsError e), s1))"
    using acl_copy_names_step[OF assms mem] by blast
  have run: "acl_copy_names X ig ((n @ [0]) # map (\<lambda>a. fst a @ [0]) attrs) s = (out, s')"
    using Cons.prems(2) by (simp add: a)
  show ?case
  proof (cases "\<exists>e. refuse n = Some e \<and> \<not> tolerated ig e")
    case True
    with run eq a show ?thesis by auto
  next
    case False
    with run eq have "acl_copy_names X ig (map (\<lambda>a. fst a @ [0]) attrs) s1 = (out, s')"
      by (auto split: option.splits)
    with Cons.IH Cons.prems(1) s1 False show ?thesis
      by (auto simp: a split: sum.splits)
  qed
qed

section \<open>Properties\<close>

lemma put_attrs_lookup:
  "distinct (map fst attrs) \<Longrightarrow> put_attrs refuse attrs m n =
    (case map_of attrs n of None \<Rightarrow> m n | Some v \<Rightarrow> if refuse n = None then Some v else m n)"
proof (induction attrs arbitrary: m)
  case (Cons a attrs)
  then show ?case
    by (cases a) (auto split: option.splits dest: map_of_SomeD intro: rev_image_eqI)
qed simp

lemma cstrv_items_names:
  "list_all (\<lambda>a. 0 \<notin> set (fst a)) attrs \<Longrightarrow> cstrv_items (name_list attrs) = map (\<lambda>a. fst a @ [0]) attrs"
  by (induction attrs) (simp_all add: name_list_def cstrv_items_append cstrv_items_no_nul)

text \<open>
  C19: When copying the attributes succeeds, the target has every attribute of the source except
  those it refused with an error that is passed over, and its other attributes are unchanged.
\<close>

theorem acl_copy_all:
  assumes "xattr_laws X attrs refuse view" and "acl_copy_fd X ignore_eperm s = (Inr (), s')"
  shows "view s' = (\<lambda>n. case map_of attrs n of
      None \<Rightarrow> view s n
    | Some v \<Rightarrow> (case refuse n of None \<Rightarrow> Some v | Some e \<Rightarrow> view s n)) \<and>
    list_all (\<lambda>a. case refuse (fst a) of None \<Rightarrow> True | Some e \<Rightarrow> tolerated ignore_eperm e) attrs"
proof -
  let ?n = "length (name_list attrs)"
  have names: "cstrv_items (name_list attrs) = map (\<lambda>a. fst a @ [0]) attrs"
    and dist: "distinct (map fst attrs)"
    using assms(1) by (simp_all add: xattr_laws_def cstrv_items_names)
  obtain e1 b1 s1 where l1: "flistxattr X 0 s = (((int ?n, e1), b1), s1)" "view s1 = view s"
    using assms(1)[unfolded xattr_laws_def] by metis
  obtain e2 s2 where l2: "flistxattr X ?n s1 = (((int ?n, e2), name_list attrs), s2)" "view s2 = view s1"
    using assms(1)[unfolded xattr_laws_def] by metis
  have copied: "view s' = put_attrs refuse attrs (view s) \<and>
      (\<forall>a \<in> set attrs. \<forall>e. refuse (fst a) = Some e \<longrightarrow> tolerated ignore_eperm e)"
  proof (cases "attrs = []")
    case True
    with assms(2) l1 show ?thesis by (auto simp: acl_copy_fd_def name_list_def)
  next
    case False
    then have "?n > 0" by (cases attrs) (simp_all add: name_list_def)
    with assms(2) l1 l2 have "acl_copy_names X ignore_eperm (map (\<lambda>a. fst a @ [0]) attrs) s2 = (Inr (), s')"
      by (simp add: acl_copy_fd_def names)
    from acl_copy_names_laws[OF assms(1) subset_refl this] l1(2) l2(2) show ?thesis by simp
  qed
  then show ?thesis
    by (auto simp: put_attrs_lookup[OF dist] list_all_iff fun_eq_iff split: option.splits)
qed

text \<open>A system whose state is the attributes of the target, as an instance.\<close>

definition ex_xattr :: "attributes \<Rightarrow> (bytes \<Rightarrow> nat option) \<Rightarrow> (bytes \<rightharpoonup> bytes) xattr_calls" where
  "ex_xattr attrs refuse = \<lparr>
    flistxattr = (\<lambda>n s. (((int (length (name_list attrs)), 0), take n (name_list attrs)), s)),
    fgetxattr = (\<lambda>name n s. (case map_of attrs (butlast name) of
        None \<Rightarrow> (((-1, ENODATA), []), s)
      | Some v \<Rightarrow> (((int (length v), 0), take n v), s))),
    fsetxattr = (\<lambda>name v n s. (case refuse (butlast name) of
        None \<Rightarrow> ((0, 0), s(butlast name \<mapsto> take n v))
      | Some e \<Rightarrow> ((-1, e), s)))\<rparr>"

lemma ex_xattr_laws:
  "list_all (\<lambda>a. 0 \<notin> set (fst a)) attrs \<Longrightarrow> distinct (map fst attrs) \<Longrightarrow>
    xattr_laws (ex_xattr attrs refuse) attrs refuse (\<lambda>s. s)"
  by (auto simp: xattr_laws_def ex_xattr_def split: option.splits)

definition ex_attrs :: attributes where
  "ex_attrs = [(bstr ''user.a'', [1, 2]), (bstr ''security.x'', [3])]"

definition ex_refuse :: "bytes \<Rightarrow> nat option" where
  "ex_refuse n = (if n = bstr ''security.x'' then Some EPERM else None)"

lemma ex_acl_run:
  "acl_copy_fd (ex_xattr ex_attrs ex_refuse) True Map.empty = (Inr (), [bstr ''user.a'' \<mapsto> [1, 2]])"
  by (simp add: acl_copy_fd_def ex_xattr_def ex_attrs_def name_list_def cstrv_items_append
      cstrv_items_no_nul ex_refuse_def EPERM_def Let_def cstrv_items.simps cstrv_next_def)

theorem acl_copy_all_witness:
  "[bstr ''user.a'' \<mapsto> [1, 2]] = (\<lambda>n. case map_of ex_attrs n of
      None \<Rightarrow> Map.empty n
    | Some v \<Rightarrow> (case ex_refuse n of None \<Rightarrow> Some v | Some e \<Rightarrow> Map.empty n)) \<and>
    list_all (\<lambda>a. case ex_refuse (fst a) of None \<Rightarrow> True | Some e \<Rightarrow> tolerated True e) ex_attrs"
  by (rule acl_copy_all[OF ex_xattr_laws ex_acl_run]) (simp_all add: ex_attrs_def)

text \<open>
  An attribute that is gone between the listing and the reading ends the copying with success,
  although an attribute behind it is there and could be set.
\<close>

lemma acl_copy_gone:
  "acl_copy_fd ((ex_xattr [(bstr ''user.b'', [1])] (\<lambda>_. None))\<lparr>flistxattr :=
      flistxattr (ex_xattr [(bstr ''user.a'', []), (bstr ''user.b'', [1])] (\<lambda>_. None))\<rparr>) True Map.empty =
    (Inr (), Map.empty) \<and>
  acl_copy_fd (ex_xattr [(bstr ''user.b'', [1])] (\<lambda>_. None)) True Map.empty =
    (Inr (), [bstr ''user.b'' \<mapsto> [1]])"
  by (simp add: acl_copy_fd_def ex_xattr_def name_list_def cstrv_items_append
      cstrv_items_no_nul Let_def cstrv_items.simps cstrv_next_def xattr_failed_def no_xattr_def)

end
