(* ===== verification/CopyData.thy ===== *)
theory CopyData
  imports AclCopy
begin

text \<open>
  The loop of \<open>copy\<close> in \<open>src/file/mod.rs\<close> that transfers the data of one open file to another: the
  extents found by \<open>lseek\<close>, the three ways to transfer one (\<open>copy_file_range\<close>, \<open>sendfile\<close>, reading
  and writing) with the fallbacks between them, and the position bookkeeping. The system calls are
  a parameter. The offsets that the first two calls write back are overwritten before they are
  used again, because \<open>srcpos\<close> has moved then.
\<close>

section \<open>The code\<close>

datatype whence = SEEK_SET | SEEK_DATA | SEEK_HOLE

record 's file_calls =
  lseek_in :: "int \<Rightarrow> whence \<Rightarrow> 's syscall"
  lseek_out :: "int \<Rightarrow> 's syscall"
  copy_file_range :: "int \<Rightarrow> nat \<Rightarrow> 's syscall"
  sendfile :: "int \<Rightarrow> nat \<Rightarrow> 's syscall"
  read_in :: "nat \<Rightarrow> 's \<Rightarrow> (io_error + bytes) \<times> 's"
  write_out :: "bytes \<Rightarrow> 's \<Rightarrow> (io_error + unit) \<times> 's"

text \<open>The local variables; the last two are the process-wide flags.\<close>

record copy_vars =
  srcpos :: int
  next_beg :: int
  next_end :: int
  next_len :: int
  can_handle_sparse :: bool
  use_copy_file_range :: bool
  use_sendfile :: bool
  has_copy_file_range :: bool
  has_sendfile :: bool

type_synonym ('s, 'a) copy_res = "(chain_error + 'a) \<times> 's"

text \<open>The first extent.\<close>

definition copy_start ::
  "'s file_calls \<Rightarrow> int \<Rightarrow> bool \<Rightarrow> bool \<Rightarrow> bool \<Rightarrow> 's \<Rightarrow> copy_vars \<times> 's" where
  "copy_start K bytes_to_copy sparse has_cfr has_sf s =
    (case (if sparse then
             (case lseek_in K 0 SEEK_DATA s of ((ret, _), s) \<Rightarrow>
               if ret = -1 then (0, False, s) else (ret, True, s))
           else (0, False, s)) of (beg, sparse, s) \<Rightarrow>
     case (if sparse then
             (case lseek_in K beg SEEK_HOLE s of ((ret, _), s) \<Rightarrow>
               if ret = -1 then (bytes_to_copy, False, s) else (ret, True, s))
           else (bytes_to_copy, False, s)) of (end_, sparse, s) \<Rightarrow>
     (\<lparr>srcpos = 0, next_beg = beg, next_end = end_, next_len = end_ - beg,
       can_handle_sparse = sparse, use_copy_file_range = has_cfr, use_sendfile = has_sf,
       has_copy_file_range = has_cfr, has_sendfile = has_sf\<rparr>, s))"

text \<open>The extent of a later turn.\<close>

definition next_extent :: "'s file_calls \<Rightarrow> int \<Rightarrow> copy_vars \<Rightarrow> 's \<Rightarrow> ('s, copy_vars) copy_res" where
  "next_extent K bytes_to_copy v s =
    (if srcpos v \<noteq> 0 then
       if can_handle_sparse v then
         (case lseek_in K (srcpos v) SEEK_DATA s of (r, s) \<Rightarrow>
           (case cvt r of
             Inl e \<Rightarrow> (Inl (''lseek64 SEEK_DATA'', e), s)
           | Inr beg \<Rightarrow> (case lseek_in K beg SEEK_HOLE s of (r, s) \<Rightarrow>
               (case cvt r of
                 Inl e \<Rightarrow> (Inl (''lseek64 SEEK_HOLE'', e), s)
               | Inr end_ \<Rightarrow>
                   (Inr (v\<lparr>next_beg := beg, next_end := end_, next_len := end_ - beg\<rparr>), s)))))
       else (Inr (v\<lparr>next_beg := srcpos v, next_end := bytes_to_copy - srcpos v\<rparr>), s)
     else (Inr v, s))"

definition copy_range :: "'s file_calls \<Rightarrow> copy_vars \<Rightarrow> 's \<Rightarrow> ('s, copy_vars) copy_res" where
  "copy_range K v s =
    (case copy_file_range K (next_beg v) (nat (next_len v)) s of (r, s) \<Rightarrow>
      (case cvt r of
        Inr n \<Rightarrow> (Inr (v\<lparr>srcpos := srcpos v + n\<rparr>), s)
      | Inl err \<Rightarrow>
          if raw_os_error err \<in> {Some ENOSYS, Some EPERM} then
            (Inr (v\<lparr>has_copy_file_range := False, use_copy_file_range := False\<rparr>), s)
          else if raw_os_error err \<in> {Some EXDEV, Some EINVAL} then
            (Inr (v\<lparr>use_copy_file_range := False\<rparr>), s)
          else (Inl (''copy_file_range'', err), s)))"

text \<open>The position of the target, and for reading that of the source as well.\<close>

definition seek_target :: "'s file_calls \<Rightarrow> copy_vars \<Rightarrow> 's \<Rightarrow> ('s, unit) copy_res" where
  "seek_target K v s =
    (if next_beg v \<noteq> 0 then
       (case lseek_out K (next_beg v) s of (r, s) \<Rightarrow>
         (case cvt r of Inl e \<Rightarrow> (Inl (''lseek64 SEEK_SET'', e), s) | Inr _ \<Rightarrow> (Inr (), s)))
     else (Inr (), s))"

definition seek_both :: "'s file_calls \<Rightarrow> copy_vars \<Rightarrow> 's \<Rightarrow> ('s, unit) copy_res" where
  "seek_both K v s =
    (case lseek_in K (next_beg v) SEEK_SET s of (r, s) \<Rightarrow>
      (case cvt r of
        Inl e \<Rightarrow> (Inl (''lseek64 SEEK_SET'', e), s)
      | Inr _ \<Rightarrow> seek_target K v s))"

definition copy_sendfile :: "'s file_calls \<Rightarrow> copy_vars \<Rightarrow> 's \<Rightarrow> ('s, copy_vars) copy_res" where
  "copy_sendfile K v s =
    (case (if can_handle_sparse v then seek_target K v s else (Inr (), s)) of
      (Inl e, s) \<Rightarrow> (Inl e, s)
    | (Inr _, s) \<Rightarrow>
        (case sendfile K (next_beg v) (nat (next_len v)) s of (r, s) \<Rightarrow>
          (case cvt r of
            Inr n \<Rightarrow> (Inr (v\<lparr>srcpos := srcpos v + n\<rparr>), s)
          | Inl err \<Rightarrow>
              if raw_os_error err \<in> {Some ENOSYS, Some EPERM} then
                (Inr (v\<lparr>has_sendfile := False, use_sendfile := False\<rparr>), s)
              else if raw_os_error err = Some EINVAL then (Inr (v\<lparr>use_sendfile := False\<rparr>), s)
              else (Inl (''sendfile'', err), s))))"

definition default_buf_size :: int where "default_buf_size = 8 * 1024"

text \<open>The inner loop, with \<open>written\<close>, \<open>next_len\<close> and the early end of the input.\<close>

partial_function (option) read_write_loop ::
  "'s file_calls \<Rightarrow> int \<Rightarrow> int \<Rightarrow> int \<Rightarrow> 's \<Rightarrow> ('s, int \<times> int \<times> int) copy_res option" where
  "read_write_loop K pos len written s =
    (if len > 0 then
       (case read_in K (nat (min len default_buf_size)) s of (r, s) \<Rightarrow>
         (case r of
           Inr buf \<Rightarrow>
             if buf = [] then Some (Inr (pos + written, len, written), s)
             else (case write_out K buf s of (w, s) \<Rightarrow>
               (case w of
                 Inl e \<Rightarrow> Some (Inl (''write_all'', e), s)
               | Inr _ \<Rightarrow> read_write_loop K pos (len - int (length buf))
                   (written + int (length buf)) s))
         | Inl e \<Rightarrow>
             if interrupted e then read_write_loop K pos len written s
             else Some (Inl (''read'', e), s)))
     else Some (Inr (pos, len, written), s))"

definition copy_read_write ::
  "'s file_calls \<Rightarrow> copy_vars \<Rightarrow> 's \<Rightarrow> ('s, copy_vars) copy_res option" where
  "copy_read_write K v s =
    (case (if can_handle_sparse v then seek_both K v s else (Inr (), s)) of
      (Inl e, s) \<Rightarrow> Some (Inl e, s)
    | (Inr _, s) \<Rightarrow>
        map_option (\<lambda>(r, s). case r of
            Inl e \<Rightarrow> (Inl e, s)
          | Inr (pos, len, written) \<Rightarrow>
              (Inr (v\<lparr>srcpos := pos + written, next_len := len\<rparr>), s))
          (read_write_loop K (srcpos v) (next_len v) 0 s))"

text \<open>One turn of the loop.\<close>

definition copy_turn ::
  "'s file_calls \<Rightarrow> int \<Rightarrow> copy_vars \<Rightarrow> 's \<Rightarrow> ('s, copy_vars) copy_res option" where
  "copy_turn K bytes_to_copy v s =
    (case next_extent K bytes_to_copy v s of
      (Inl e, s) \<Rightarrow> Some (Inl e, s)
    | (Inr v, s) \<Rightarrow>
        if next_len v \<le> 0 then Some (Inr (v\<lparr>srcpos := next_end v\<rparr>), s)
        else if use_copy_file_range v then Some (copy_range K v s)
        else if use_sendfile v then Some (copy_sendfile K v s)
        else copy_read_write K v s)"

partial_function (option) copy_loop ::
  "'s file_calls \<Rightarrow> int \<Rightarrow> copy_vars \<Rightarrow> 's \<Rightarrow> ('s, copy_vars) copy_res option" where
  "copy_loop K bytes_to_copy v s =
    (if srcpos v < bytes_to_copy then
       Option.bind (copy_turn K bytes_to_copy v s) (\<lambda>(r, s). case r of
           Inl e \<Rightarrow> Some (Inl e, s)
         | Inr v \<Rightarrow> copy_loop K bytes_to_copy v s)
     else Some (Inr v, s))"

definition copy_data ::
  "'s file_calls \<Rightarrow> int \<Rightarrow> bool \<Rightarrow> bool \<Rightarrow> bool \<Rightarrow> 's \<Rightarrow> ('s, copy_vars) copy_res option" where
  "copy_data K bytes_to_copy sparse has_cfr has_sf s =
    (case copy_start K bytes_to_copy sparse has_cfr has_sf s of (v, s) \<Rightarrow>
      copy_loop K bytes_to_copy v s)"

section \<open>What the calls promise\<close>

text \<open>What a state shows of the two open files: the bytes of the target and both positions.\<close>

record copy_view =
  cv_dst :: bytes
  cv_in :: nat
  cv_out :: nat

definition write_at :: "bytes \<Rightarrow> nat \<Rightarrow> bytes \<Rightarrow> bytes" where
  "write_at dst off b =
    (if b = [] then dst
     else take off dst @ replicate (off - length dst) 0 @ b @ drop (off + length b) dst)"

definition src_part :: "bytes \<Rightarrow> nat \<Rightarrow> nat \<Rightarrow> bytes" where
  "src_part src off n = take n (drop off src)"

text \<open>
  The manual pages, for a source \<open>src\<close> that does not change. \<open>data\<close> tells which of its positions are
  stored, the holes between them read as zeros. A failed call changes nothing, a transfer that
  starts inside of the source makes progress and never goes beyond its end. \<open>view\<close> reads the files
  off the state.
\<close>

definition seek_laws :: "'s file_calls \<Rightarrow> bytes \<Rightarrow> (nat \<Rightarrow> bool) \<Rightarrow> ('s \<Rightarrow> copy_view) \<Rightarrow> bool" where
  "seek_laws K src data view \<longleftrightarrow>
    (\<forall>off s t e s'. lseek_in K off SEEK_DATA s = ((t, e), s') \<longrightarrow> 0 \<le> off \<longrightarrow>
      (if t = -1 then view s' = view s
       else off \<le> t \<and> t < int (length src) \<and> data (nat t) \<and>
         (\<forall>p. off \<le> int p \<longrightarrow> int p < t \<longrightarrow> \<not> data p) \<and> view s' = (view s)\<lparr>cv_in := nat t\<rparr>)) \<and>
    (\<forall>off s t e s'. lseek_in K off SEEK_HOLE s = ((t, e), s') \<longrightarrow>
      0 \<le> off \<longrightarrow> off < int (length src) \<longrightarrow> data (nat off) \<longrightarrow>
      off < t \<and> t \<le> int (length src) \<and> (\<forall>p. off \<le> int p \<longrightarrow> int p < t \<longrightarrow> data p) \<and>
      view s' = (view s)\<lparr>cv_in := nat t\<rparr>) \<and>
    (\<forall>off s t e s'. lseek_in K off SEEK_SET s = ((t, e), s') \<longrightarrow> t \<noteq> -1 \<longrightarrow>
      view s' = (view s)\<lparr>cv_in := nat off\<rparr>) \<and>
    (\<forall>off s t e s'. lseek_out K off s = ((t, e), s') \<longrightarrow> t \<noteq> -1 \<longrightarrow>
      view s' = (view s)\<lparr>cv_out := nat off\<rparr>) \<and>
    (\<forall>p < length src. \<not> data p \<longrightarrow> src ! p = 0) \<and> (\<forall>p. data p \<longrightarrow> p < length src)"

definition transfer_ok :: "bytes \<Rightarrow> int \<Rightarrow> nat \<Rightarrow> int \<Rightarrow> bool" where
  "transfer_ok src off n t \<longleftrightarrow> 0 \<le> t \<and> t \<le> int n \<and> off + t \<le> int (length src) \<and> (0 < n \<longrightarrow> 0 < t)"

definition transfer_laws :: "'s file_calls \<Rightarrow> bytes \<Rightarrow> ('s \<Rightarrow> copy_view) \<Rightarrow> bool" where
  "transfer_laws K src view \<longleftrightarrow>
    (\<forall>off n s t e s'. copy_file_range K off n s = ((t, e), s') \<longrightarrow> 0 \<le> off \<longrightarrow> off < int (length src) \<longrightarrow>
      (if t = -1 then view s' = view s
       else transfer_ok src off n t \<and> view s' = (view s)\<lparr>
         cv_dst := write_at (cv_dst (view s)) (nat off) (src_part src (nat off) (nat t))\<rparr>)) \<and>
    (\<forall>off n s t e s'. sendfile K off n s = ((t, e), s') \<longrightarrow> 0 \<le> off \<longrightarrow> off < int (length src) \<longrightarrow>
      (if t = -1 then view s' = view s
       else transfer_ok src off n t \<and> view s' = (view s)\<lparr>
         cv_dst := write_at (cv_dst (view s)) (cv_out (view s)) (src_part src (nat off) (nat t)),
         cv_out := cv_out (view s) + nat t\<rparr>)) \<and>
    (\<forall>n s e s'. read_in K n s = (Inl e, s') \<longrightarrow> view s' = view s \<and> \<not> interrupted e) \<and>
    (\<forall>n s b s'. read_in K n s = (Inr b, s') \<longrightarrow>
      length b \<le> n \<and> b = src_part src (cv_in (view s)) (length b) \<and>
      (0 < n \<longrightarrow> cv_in (view s) < length src \<longrightarrow> b \<noteq> []) \<and>
      view s' = (view s)\<lparr>cv_in := cv_in (view s) + length b\<rparr>) \<and>
    (\<forall>b s u s'. write_out K b s = (Inr u, s') \<longrightarrow>
      view s' = (view s)\<lparr>cv_dst := write_at (cv_dst (view s)) (cv_out (view s)) b,
        cv_out := cv_out (view s) + length b\<rparr>)"

end
