(* ===== verification/CopyCorrect.thy ===== *)
theory CopyCorrect
  imports CopyData
begin

text \<open>
  The copy loop of \<open>src/file/mod.rs\<close> makes the target equal to the source: the invariant of the loop,
  carried through the three ways to transfer an extent, and a measure that every turn decreases.
\<close>

section \<open>Writing into the target\<close>

lemma write_at_Nil [simp]: "write_at dst off [] = dst"
  by (simp add: write_at_def)

lemma length_write_at: "b \<noteq> [] \<Longrightarrow> length (write_at dst off b) = max (length dst) (off + length b)"
  by (simp add: write_at_def)

lemma nth_write_at:
  assumes "b \<noteq> []" and "p < max (length dst) (off + length b)"
  shows "write_at dst off b ! p =
    (if p < off then (if p < length dst then dst ! p else 0)
     else if p < off + length b then b ! (p - off) else dst ! p)"
  using assms by (auto simp: write_at_def nth_append min_def)

lemma write_at_append: "write_at (write_at dst off a) (off + length a) b = write_at dst off (a @ b)"
proof (cases "a = [] \<or> b = []")
  case False
  then have ne: "a \<noteq> []" "b \<noteq> []" by simp_all
  show ?thesis
  proof (rule nth_equalityI)
    fix p assume "p < length (write_at (write_at dst off a) (off + length a) b)"
    with ne have p: "p < max (length dst) (off + length a + length b)" by (simp add: length_write_at)
    consider "p < off" | "off \<le> p" "p < off + length a"
      | "off + length a \<le> p" "p < off + length a + length b" | "off + length a + length b \<le> p"
      by linarith
    then show "write_at (write_at dst off a) (off + length a) b ! p = write_at dst off (a @ b) ! p"
      using p by cases (auto simp: nth_write_at length_write_at ne nth_append less_max_iff_disj)
  qed (simp add: length_write_at ne)
qed auto

lemma length_src_part [simp]: "off + n \<le> length src \<Longrightarrow> length (src_part src off n) = n"
  by (simp add: src_part_def)

lemma src_part_append: "src_part src off (m + n) = src_part src off m @ src_part src (off + m) n"
  by (simp add: src_part_def take_add add.commute)

lemma src_part_0 [simp]: "src_part src off 0 = []"
  by (simp add: src_part_def)

lemma nth_src_part: "p < n \<Longrightarrow> off + n \<le> length src \<Longrightarrow> src_part src off n ! p = src ! (off + p)"
  by (simp add: src_part_def)

text \<open>The target while the first \<open>pos\<close> bytes are settled.\<close>

definition dst_inv :: "bytes \<Rightarrow> bool \<Rightarrow> int \<Rightarrow> bytes \<Rightarrow> bool" where
  "dst_inv src sparse pos dst \<longleftrightarrow> length dst \<le> length src \<and>
    (\<forall>p. int p < pos \<longrightarrow> p < length dst \<and> dst ! p = src ! p) \<and>
    (sparse \<longrightarrow> length dst = length src \<and> (\<forall>p < length src. dst ! p = src ! p \<or> dst ! p = 0))"

lemma dst_inv_done: "dst_inv src sparse (int (length src)) dst \<Longrightarrow> dst = src"
  by (intro nth_equalityI) (auto simp: dst_inv_def intro: antisym not_le_imp_less)

lemma dst_inv_init: "k \<le> length src \<Longrightarrow> (sparse \<Longrightarrow> k = length src) \<Longrightarrow> dst_inv src sparse 0 (replicate k 0)"
  by (simp add: dst_inv_def)

text \<open>A part of the source is written to its place; the gap before it is a hole.\<close>

lemma dst_inv_write:
  assumes inv: "dst_inv src sparse pos dst"
    and off: "pos \<le> int off" "off + n \<le> length src" "0 < n" "sparse \<or> pos = int off"
    and hole: "\<And>p. pos \<le> int p \<Longrightarrow> p < off \<Longrightarrow> src ! p = 0"
  shows "dst_inv src sparse (pos + int n) (write_at dst off (src_part src off n))"
proof -
  let ?b = "src_part src off n"
  have b: "length ?b = n" "?b \<noteq> []" using off by (auto simp flip: length_greater_0_conv)
  have len: "length (write_at dst off ?b) = max (length dst) (off + n)" by (simp add: length_write_at b)
  have at: "write_at dst off ?b ! p = (if p < off then (if p < length dst then dst ! p else 0)
      else if p < off + n then src ! p else dst ! p)" if "p < max (length dst) (off + n)" for p
    using that off by (auto simp: nth_write_at b nth_src_part)
  have old: "p < length dst" "dst ! p = src ! p" if "int p < pos" for p
    using inv that by (auto simp: dst_inv_def)
  have "p < max (length dst) (off + n) \<and> write_at dst off ?b ! p = src ! p" if p: "int p < pos + int n" for p
  proof -
    have lt: "p < max (length dst) (off + n)" using p off(1) by linarith
    show ?thesis
    proof (cases "int p < pos")
      case True
      then show ?thesis using old[OF True] lt off(1) by (auto simp: at)
    next
      case False
      show ?thesis
      proof (cases "p < off")
        case True
        with off(4) False have sparse by auto
        with inv True off(2) have "dst ! p = src ! p \<or> dst ! p = 0" "p < length dst"
          by (auto simp: dst_inv_def)
        with True lt False hole[of p] show ?thesis by (auto simp: at)
      next
        case ge: False
        with p off(1) have "p < off + n" by linarith
        with ge lt show ?thesis by (simp add: at)
      qed
    qed
  qed
  moreover have "length dst = length src" "p < length src \<Longrightarrow> write_at dst off ?b ! p = src ! p \<or> write_at dst off ?b ! p = 0"
    if sparse for p
  proof -
    from inv that have l: "length dst = length src"
      and d: "\<And>p. p < length src \<Longrightarrow> dst ! p = src ! p \<or> dst ! p = 0"
      by (simp_all add: dst_inv_def)
    from l show "length dst = length src" .
    show "write_at dst off ?b ! p = src ! p \<or> write_at dst off ?b ! p = 0" if "p < length src"
      using that l d[of p] at[of p] by auto
  qed
  moreover have "length dst \<le> length src" using inv by (simp add: dst_inv_def)
  ultimately show ?thesis
    using off(2) unfolding dst_inv_def len by simp
qed

section \<open>The inner loop\<close>

text \<open>The view after \<open>b\<close> was read and written.\<close>

definition moved :: "bytes \<Rightarrow> copy_view \<Rightarrow> copy_view" where
  "moved b v = \<lparr>cv_dst = write_at (cv_dst v) (cv_out v) b, cv_in = cv_in v + length b,
    cv_out = cv_out v + length b\<rparr>"

lemma moved_simps [simp]:
  "cv_dst (moved b v) = write_at (cv_dst v) (cv_out v) b" "cv_in (moved b v) = cv_in v + length b"
  "cv_out (moved b v) = cv_out v + length b" "moved [] v = v"
  by (simp_all add: moved_def)

lemma moved_moved: "moved b (moved a v) = moved (a @ b) v"
  by (simp add: moved_def write_at_append)

text \<open>One turn of the loop: an error, the end of the source, or some bytes that are moved.\<close>

lemma read_write_loop_turn:
  assumes laws: "transfer_laws K src view" and pos: "0 < len"
  obtains (failed) e s' where "read_write_loop K pos len written s = Some (Inl e, s')"
  | (eof) s' where "length src \<le> cv_in (view s)" "view s' = view s"
      "read_write_loop K pos len written s = Some (Inr (pos + written, len, written), s')"
  | (turn) b s' where "b \<noteq> []" "length b \<le> nat len" "b = src_part src (cv_in (view s)) (length b)"
      "view s' = moved b (view s)"
      "read_write_loop K pos len written s =
        read_write_loop K pos (len - int (length b)) (written + int (length b)) s'"
proof -
  let ?n = "nat (min len default_buf_size)"
  have n: "0 < ?n" "?n \<le> nat len" using pos by (auto simp: default_buf_size_def)
  obtain r s1 where rd: "read_in K ?n s = (r, s1)" by fastforce
  show ?thesis
  proof (cases r)
    case (Inl e)
    with laws rd have "\<not> interrupted e" by (auto simp: transfer_laws_def)
    with Inl rd pos show ?thesis by (intro failed) (subst read_write_loop.simps, simp)
  next
    case (Inr b)
    have b: "length b \<le> ?n \<and> b = src_part src (cv_in (view s)) (length b) \<and>
        (0 < ?n \<longrightarrow> cv_in (view s) < length src \<longrightarrow> b \<noteq> []) \<and>
        view s1 = (view s)\<lparr>cv_in := cv_in (view s) + length b\<rparr>"
      using laws rd Inr unfolding transfer_laws_def by blast
    obtain w s2 where wr: "write_out K b s1 = (w, s2)" by fastforce
    note loop = read_write_loop.simps[of K pos len written s, unfolded rd prod.case Inr sum.case wr]
    consider "b = []" | e where "b \<noteq> []" "w = Inl e" | u where "b \<noteq> []" "w = Inr u" by (cases w) auto
    then show ?thesis
    proof cases
      case 1
      with b n pos loop show ?thesis by (intro eof[of s1]) auto
    next
      case 2
      with loop pos show ?thesis by (intro failed) simp
    next
      case 3
      have "view s2 = moved b (view s)"
        using laws wr 3 b unfolding transfer_laws_def moved_def by fastforce
      with 3 b n loop pos show ?thesis by (intro turn[of b s2]) auto
    qed
  qed
qed

lemma read_write_loop_laws:
  assumes laws: "transfer_laws K src view"
  shows "0 \<le> len \<Longrightarrow> cv_in (view s) + nat len \<le> length src \<Longrightarrow>
    \<exists>r s'. read_write_loop K pos len written s = Some (r, s') \<and>
      (case r of Inl _ \<Rightarrow> True
       | Inr q \<Rightarrow> q = (pos, 0, written + len) \<and> view s' = moved (src_part src (cv_in (view s)) (nat len)) (view s))"
proof (induction "nat len" arbitrary: len written s rule: less_induct)
  case less
  show ?case
  proof (cases "len = 0")
    case True
    then show ?thesis
      by (intro exI[of _ "Inr (pos, 0, written)"] exI[of _ s]) (subst read_write_loop.simps, simp)
  next
    case False
    with less.prems(1) have "0 < len" by simp
    from laws this show ?thesis
    proof (cases rule: read_write_loop_turn[where pos = pos and written = written and s = s])
      case eof
      with less.prems \<open>0 < len\<close> show ?thesis by simp
    next
      case (turn b s2)
      let ?len = "len - int (length b)"
      have sum: "nat len = length b + nat ?len" using turn(2) less.prems(1) by linarith
      have smaller: "nat ?len < nat len" "0 \<le> ?len" "cv_in (view s2) + nat ?len \<le> length src"
        using turn(1,2,4) less.prems sum by auto
      obtain r s' where ih: "read_write_loop K pos ?len (written + int (length b)) s2 = Some (r, s')"
        "case r of Inl _ \<Rightarrow> True
          | Inr q \<Rightarrow> q = (pos, 0, written + int (length b) + ?len) \<and>
              view s' = moved (src_part src (cv_in (view s2)) (nat ?len)) (view s2)"
        using less.hyps[OF smaller, of "written + int (length b)"] by blast
      have "src_part src (cv_in (view s)) (nat len) = b @ src_part src (cv_in (view s2)) (nat ?len)"
        using turn(3,4) by (subst sum, subst src_part_append) simp
      with ih turn(4,5) show ?thesis
        by (intro exI[of _ r] exI[of _ s']) (auto simp: moved_moved split: sum.splits)
    qed simp
  qed
qed

text \<open>The promises, one call at a time.\<close>

lemma copy_file_range_law:
  assumes "transfer_laws K src view" and "copy_file_range K off n s = ((t, e), s')"
    and "0 \<le> off" and "off < int (length src)"
  shows "if t = -1 then view s' = view s
    else transfer_ok src off n t \<and> view s' = (view s)\<lparr>
      cv_dst := write_at (cv_dst (view s)) (nat off) (src_part src (nat off) (nat t))\<rparr>"
  by (rule conjunct1[OF assms(1)[unfolded transfer_laws_def], rule_format, OF assms(2-4)])

lemma sendfile_law:
  assumes "transfer_laws K src view" and "sendfile K off n s = ((t, e), s')"
    and "0 \<le> off" and "off < int (length src)"
  shows "if t = -1 then view s' = view s
    else transfer_ok src off n t \<and> view s' = (view s)\<lparr>
      cv_dst := write_at (cv_dst (view s)) (cv_out (view s)) (src_part src (nat off) (nat t)),
      cv_out := cv_out (view s) + nat t\<rparr>"
  by (rule conjunct1[OF conjunct2[OF assms(1)[unfolded transfer_laws_def]], rule_format, OF assms(2-4)])

lemma seek_data_law:
  assumes laws: "seek_laws K src data view" and "lseek_in K off SEEK_DATA s = ((t, e), s')" and "0 \<le> off"
  shows "if t = -1 then view s' = view s
    else off \<le> t \<and> t < int (length src) \<and> data (nat t) \<and>
      (\<forall>p. off \<le> int p \<longrightarrow> int p < t \<longrightarrow> src ! p = 0) \<and> view s' = (view s)\<lparr>cv_in := nat t\<rparr>"
proof -
  have "if t = -1 then view s' = view s
    else off \<le> t \<and> t < int (length src) \<and> data (nat t) \<and>
      (\<forall>p. off \<le> int p \<longrightarrow> int p < t \<longrightarrow> \<not> data p) \<and> view s' = (view s)\<lparr>cv_in := nat t\<rparr>"
    by (rule conjunct1[OF laws[unfolded seek_laws_def], rule_format, OF assms(2,3)])
  moreover have "\<forall>p < length src. \<not> data p \<longrightarrow> src ! p = 0"
    using laws by (simp add: seek_laws_def)
  ultimately show ?thesis by auto
qed

lemma seek_hole_law:
  assumes "seek_laws K src data view" and "lseek_in K off SEEK_HOLE s = ((t, e), s')"
    and "0 \<le> off" and "off < int (length src)" and "data (nat off)"
  shows "off < t \<and> t \<le> int (length src) \<and> (\<forall>p. off \<le> int p \<longrightarrow> int p < t \<longrightarrow> data p) \<and>
    view s' = (view s)\<lparr>cv_in := nat t\<rparr>"
  by (rule conjunct1[OF conjunct2[OF assms(1)[unfolded seek_laws_def]], rule_format, OF assms(2-5)])

lemma seek_laws:
  assumes "seek_laws K src data view"
  shows "lseek_in K off SEEK_SET s = ((t, e), s') \<Longrightarrow> t \<noteq> -1 \<Longrightarrow> view s' = (view s)\<lparr>cv_in := nat off\<rparr>"
    and "lseek_out K off s = ((t, e), s') \<Longrightarrow> t \<noteq> -1 \<Longrightarrow> view s' = (view s)\<lparr>cv_out := nat off\<rparr>"
  using assms unfolding seek_laws_def by blast+

section \<open>The invariant of the loop\<close>

text \<open>
  A refusal selects another way to transfer. Whether a call is refused is a matter of the kernel and
  of the two files, the same at every offset.
\<close>

definition refused :: "nat set \<Rightarrow> sys_ret \<times> 's \<Rightarrow> bool" where
  "refused E r \<longleftrightarrow> fst (fst r) = -1 \<and> snd (fst r) \<in> E"

definition accepts_range :: "'s file_calls \<Rightarrow> bool" where
  "accepts_range K \<longleftrightarrow> (\<exists>off n s. \<not> refused {ENOSYS, EPERM, EXDEV, EINVAL} (copy_file_range K off n s))"

definition accepts_send :: "'s file_calls \<Rightarrow> bool" where
  "accepts_send K \<longleftrightarrow> (\<exists>off n s. \<not> refused {ENOSYS, EPERM, EINVAL} (sendfile K off n s))"

definition uniform_fallback :: "'s file_calls \<Rightarrow> bool" where
  "uniform_fallback K \<longleftrightarrow>
    (accepts_range K \<longrightarrow>
      (\<forall>off n s. \<not> refused {ENOSYS, EPERM, EXDEV, EINVAL} (copy_file_range K off n s))) \<and>
    (accepts_send K \<longrightarrow> (\<forall>off n s. \<not> refused {ENOSYS, EPERM, EINVAL} (sendfile K off n s)))"

text \<open>
  Between the turns: the first \<open>srcpos\<close> bytes of the target are settled. Following the holes, the
  position of the target is 0 until an extent begins elsewhere. Otherwise \<open>next_len\<close> stays at the
  full length, and the positions tell how far the current way to transfer has come.
\<close>

definition copy_inv :: "'s file_calls \<Rightarrow> bytes \<Rightarrow> (nat \<Rightarrow> bool) \<Rightarrow> copy_vars \<Rightarrow> copy_view \<Rightarrow> bool" where
  "copy_inv K src data v c \<longleftrightarrow>
    0 \<le> srcpos v \<and> srcpos v \<le> int (length src) \<and>
    dst_inv src (can_handle_sparse v) (srcpos v) (cv_dst c) \<and>
    (if can_handle_sparse v then
       (srcpos v = 0 \<or> (\<exists>p. data p \<and> srcpos v \<le> int p + 1)) \<and>
       (srcpos v = 0 \<longrightarrow> 0 \<le> next_beg v \<and> next_beg v < next_end v \<and> next_end v \<le> int (length src) \<and>
         next_len v = next_end v - next_beg v \<and> (next_beg v = 0 \<longrightarrow> cv_out c = 0) \<and>
         (\<forall>p. int p < next_beg v \<longrightarrow> src ! p = 0) \<and>
         (\<forall>p. next_beg v \<le> int p \<longrightarrow> int p < next_end v \<longrightarrow> data p))
     else srcpos v < int (length src) \<longrightarrow>
       next_len v = int (length src) \<and> (srcpos v = 0 \<longrightarrow> next_beg v = 0) \<and> cv_in c = 0 \<and>
       (if use_copy_file_range v then cv_out c = 0 \<and> (srcpos v = 0 \<or> accepts_range K)
        else int (cv_out c) = srcpos v \<and> (srcpos v = 0 \<or> use_sendfile v \<and> accepts_send K)))"

text \<open>After the extent of a turn is known.\<close>

definition ready :: "'s file_calls \<Rightarrow> bytes \<Rightarrow> (nat \<Rightarrow> bool) \<Rightarrow> copy_vars \<Rightarrow> copy_view \<Rightarrow> bool" where
  "ready K src data v c \<longleftrightarrow>
    0 \<le> srcpos v \<and> srcpos v \<le> next_beg v \<and> next_beg v < int (length src) \<and> 0 < next_len v \<and>
    dst_inv src (can_handle_sparse v) (srcpos v) (cv_dst c) \<and>
    (\<forall>p. srcpos v \<le> int p \<longrightarrow> int p < next_beg v \<longrightarrow> src ! p = 0) \<and>
    (if can_handle_sparse v then
       next_beg v + next_len v \<le> int (length src) \<and>
       (\<forall>p. next_beg v \<le> int p \<longrightarrow> int p < next_beg v + next_len v \<longrightarrow> data p) \<and>
       (srcpos v = 0 \<longrightarrow> next_end v = next_beg v + next_len v \<and> (next_beg v = 0 \<longrightarrow> cv_out c = 0))
     else next_len v = int (length src) \<and> next_beg v = srcpos v \<and> cv_in c = 0 \<and>
       (if use_copy_file_range v then cv_out c = 0 \<and> (srcpos v = 0 \<or> accepts_range K)
        else int (cv_out c) = srcpos v \<and> (srcpos v = 0 \<or> use_sendfile v \<and> accepts_send K)))"

lemma next_extent_ready:
  assumes laws: "seek_laws K src data view" and inv: "copy_inv K src data v (view s)"
    and more: "srcpos v < int (length src)"
    and run: "next_extent K (int (length src)) v s = (Inr v', s')"
  shows "ready K src data v' (view s') \<and> srcpos v' = srcpos v \<and> can_handle_sparse v' = can_handle_sparse v \<and>
    use_copy_file_range v' = use_copy_file_range v \<and> use_sendfile v' = use_sendfile v"
proof (cases "srcpos v = 0")
  case True
  with run have "v' = v" "s' = s" by (simp_all add: next_extent_def)
  with inv more True show ?thesis
    by (simp add: copy_inv_def ready_def split: if_splits)
next
  case False
  with inv have pos: "0 < srcpos v" by (simp add: copy_inv_def)
  show ?thesis
  proof (cases "can_handle_sparse v")
    case False
    with run pos have "v' = v\<lparr>next_beg := srcpos v, next_end := int (length src) - srcpos v\<rparr>" "s' = s"
      by (simp_all add: next_extent_def)
    with inv more pos False show ?thesis
      by (auto simp: copy_inv_def ready_def)
  next
    case True
    obtain t e s1 where seek: "lseek_in K (srcpos v) SEEK_DATA s = ((t, e), s1)" by (metis surj_pair)
    obtain t2 e2 s2 where hole: "lseek_in K t SEEK_HOLE s1 = ((t2, e2), s2)" by (metis surj_pair)
    have t: "t \<noteq> -1" using run pos True seek by (auto simp: next_extent_def)
    have d: "srcpos v \<le> t" "t < int (length src)" "data (nat t)" "view s1 = (view s)\<lparr>cv_in := nat t\<rparr>"
      "\<And>p. srcpos v \<le> int p \<Longrightarrow> int p < t \<Longrightarrow> src ! p = 0"
      using seek_data_law[OF laws seek less_imp_le[OF pos]] t by (simp_all split: if_splits)
    have h: "t < t2" "t2 \<le> int (length src)" "view s2 = (view s1)\<lparr>cv_in := nat t2\<rparr>"
      "\<And>p. t \<le> int p \<Longrightarrow> int p < t2 \<Longrightarrow> data p"
      using seek_hole_law[OF laws hole _ d(2,3)] d(1) pos by simp_all
    have "t2 \<noteq> -1" using h(1) d(1) pos by simp
    with run pos True seek hole t have
      "v' = v\<lparr>next_beg := t, next_end := t2, next_len := t2 - t\<rparr>" "s' = s2"
      by (simp_all add: next_extent_def)
    with inv True pos d h show ?thesis
      by (simp add: copy_inv_def ready_def)
  qed
qed

section \<open>One turn\<close>

definition copy_measure :: "bytes \<Rightarrow> copy_vars \<Rightarrow> nat" where
  "copy_measure src v = 3 * nat (int (length src) - srcpos v) +
    of_bool (use_copy_file_range v) + of_bool (use_sendfile v)"

text \<open>What a turn has to achieve, for a result that is not an error.\<close>

definition turn_ok :: "'s file_calls \<Rightarrow> bytes \<Rightarrow> (nat \<Rightarrow> bool) \<Rightarrow> copy_vars \<Rightarrow> copy_vars \<Rightarrow> copy_view \<Rightarrow> bool" where
  "turn_ok K src data v v' c \<longleftrightarrow> copy_inv K src data v' c \<and> copy_measure src v' < copy_measure src v \<and>
    can_handle_sparse v' = can_handle_sparse v"

lemma ready_settle:
  assumes "ready K src data v c" and "0 < t" and "next_beg v + t \<le> int (length src)"
  shows "dst_inv src (can_handle_sparse v) (srcpos v + t)
    (write_at (cv_dst c) (nat (next_beg v)) (src_part src (nat (next_beg v)) (nat t)))"
proof -
  have "dst_inv src (can_handle_sparse v) (srcpos v + int (nat t))
    (write_at (cv_dst c) (nat (next_beg v)) (src_part src (nat (next_beg v)) (nat t)))"
    using assms by (intro dst_inv_write) (auto simp: ready_def split: if_splits)
  with assms(2) show ?thesis by simp
qed

text \<open>A transfer of \<open>t\<close> bytes to their place.\<close>

lemma transferred:
  assumes rdy: "ready K src data v c" and t: "0 < t" "next_beg v + t \<le> int (length src)" "t \<le> next_len v"
    and flags: "copy_measure src v' = 3 * nat (int (length src) - srcpos v') +
      of_bool (use_copy_file_range v) + of_bool (use_sendfile v)"
    and v': "srcpos v' = srcpos v + t" "can_handle_sparse v' = can_handle_sparse v"
    and dst: "cv_dst c' = write_at (cv_dst c) (nat (next_beg v)) (src_part src (nat (next_beg v)) (nat t))"
    and rest: "\<not> can_handle_sparse v \<Longrightarrow> srcpos v' < int (length src) \<Longrightarrow>
      next_len v' = int (length src) \<and> cv_in c' = 0 \<and>
      (if use_copy_file_range v' then cv_out c' = 0 \<and> accepts_range K
       else int (cv_out c') = srcpos v' \<and> use_sendfile v' \<and> accepts_send K)"
  shows "turn_ok K src data v v' c'"
proof -
  have pos: "0 \<le> srcpos v" "srcpos v \<le> next_beg v" "srcpos v < int (length src)"
    using rdy by (auto simp: ready_def)
  have "\<exists>p. data p \<and> srcpos v' \<le> int p + 1" if "can_handle_sparse v"
    using rdy that t pos v' by (intro exI[of _ "nat (next_beg v + t - 1)"]) (simp add: ready_def)
  with pos t v' ready_settle[OF rdy t(1,2)] rest show ?thesis
    by (auto simp: turn_ok_def copy_inv_def copy_measure_def[of src v] flags dst)
qed

text \<open>A fallback: the state is as before, one of the flags is cleared.\<close>

lemma fallen_back:
  assumes rdy: "ready K src data v c"
    and v': "srcpos v' = srcpos v" "next_beg v' = next_beg v" "next_end v' = next_end v"
      "next_len v' = next_len v" "can_handle_sparse v' = can_handle_sparse v"
    and flags: "copy_measure src v' < copy_measure src v"
    and c': "cv_dst c' = cv_dst c" "cv_in c' = cv_in c" "cv_out c' = cv_out c \<or> can_handle_sparse v \<and> next_beg v \<noteq> 0"
    and early: "\<not> can_handle_sparse v \<Longrightarrow> \<not> use_copy_file_range v' \<and> srcpos v = 0 \<and> cv_out c = 0"
  shows "turn_ok K src data v v' c'"
proof -
  have "\<exists>p. data p \<and> srcpos v \<le> int p + 1" if "can_handle_sparse v"
    using rdy that by (intro exI[of _ "nat (next_beg v)"]) (simp add: ready_def)
  with assms show ?thesis by (simp add: turn_ok_def copy_inv_def ready_def) auto
qed

lemma copy_range_turn:
  assumes laws: "transfer_laws K src view" and fb: "can_handle_sparse v \<or> uniform_fallback K"
    and rdy: "ready K src data v (view s)" and ucfr: "use_copy_file_range v"
    and run: "copy_range K v s = (Inr v', s')"
  shows "turn_ok K src data v v' (view s')"
proof -
  have beg: "0 \<le> next_beg v" "next_beg v < int (length src)" "0 < next_len v" "srcpos v \<le> next_beg v"
    using rdy by (auto simp: ready_def)
  obtain t e s1 where call: "copy_file_range K (next_beg v) (nat (next_len v)) s = ((t, e), s1)"
    by (metis surj_pair)
  have eff: "if t = -1 then view s1 = view s
      else transfer_ok src (next_beg v) (nat (next_len v)) t \<and> view s1 = (view s)\<lparr>
        cv_dst := write_at (cv_dst (view s)) (nat (next_beg v)) (src_part src (nat (next_beg v)) (nat t))\<rparr>"
    by (rule copy_file_range_law[OF laws call beg(1,2)])
  show ?thesis
  proof (cases "t = -1")
    case False
    with run call have "v' = v\<lparr>srcpos := srcpos v + t\<rparr>" "s' = s1"
      by (simp_all add: copy_range_def)
    moreover have "0 < t" "next_beg v + t \<le> int (length src)" "t \<le> next_len v"
      using eff False beg by (simp_all add: transfer_ok_def)
    moreover have "accepts_range K"
      unfolding accepts_range_def refused_def using call False by (metis fst_conv)
    ultimately show ?thesis
      using rdy eff False ucfr
      by (intro transferred[of K src data v "view s" t]) (auto simp: copy_measure_def ready_def)
  next
    case True
    with run call have "v' = v\<lparr>has_copy_file_range := False, use_copy_file_range := False\<rparr> \<or>
        v' = v\<lparr>use_copy_file_range := False\<rparr>"
      and s': "s' = s1" and e: "e \<in> {ENOSYS, EPERM, EXDEV, EINVAL}"
      by (auto simp: copy_range_def split: if_splits)
    moreover have "refused {ENOSYS, EPERM, EXDEV, EINVAL} (copy_file_range K (next_beg v) (nat (next_len v)) s)"
      using call True e by (simp add: refused_def)
    with fb have "can_handle_sparse v \<or> \<not> accepts_range K"
      unfolding uniform_fallback_def by blast
    ultimately show ?thesis
      using s' eff True rdy ucfr
      by (intro fallen_back[of K src data v "view s"]) (auto simp: copy_measure_def ready_def)
  qed
qed

lemma seek_target_Inr:
  assumes laws: "seek_laws K src data view" and run: "seek_target K v s = (Inr u, s')" and beg: "0 \<le> next_beg v"
  shows "if next_beg v = 0 then s' = s else view s' = (view s)\<lparr>cv_out := nat (next_beg v)\<rparr>"
proof (cases "next_beg v = 0")
  case False
  obtain t e s1 where seek: "lseek_out K (next_beg v) s = ((t, e), s1)" by (metis surj_pair)
  with run False have "t \<noteq> -1" "s' = s1"
    by (auto simp: seek_target_def cvt_def is_minus_one_def split: if_splits)
  with seek_laws(2)[OF laws seek] False show ?thesis by simp
qed (use run in \<open>simp add: seek_target_def\<close>)

lemma seek_both_Inr:
  assumes laws: "seek_laws K src data view" and run: "seek_both K v s = (Inr u, s')" and beg: "0 \<le> next_beg v"
  shows "view s' = (view s)\<lparr>cv_in := nat (next_beg v),
    cv_out := if next_beg v = 0 then cv_out (view s) else nat (next_beg v)\<rparr>"
proof -
  obtain t e s1 where seek: "lseek_in K (next_beg v) SEEK_SET s = ((t, e), s1)" by (metis surj_pair)
  with run have t: "t \<noteq> -1" and run1: "seek_target K v s1 = (Inr u, s')"
    by (auto simp: seek_both_def cvt_def is_minus_one_def split: if_splits)
  from seek_laws(1)[OF laws seek t] seek_target_Inr[OF laws run1 beg] show ?thesis
    by (auto split: if_splits)
qed

lemma copy_sendfile_turn:
  assumes slaws: "seek_laws K src data view" and laws: "transfer_laws K src view"
    and fb: "can_handle_sparse v \<or> uniform_fallback K"
    and rdy: "ready K src data v (view s)" and usf: "use_sendfile v" "\<not> use_copy_file_range v"
    and run: "copy_sendfile K v s = (Inr v', s')"
  shows "turn_ok K src data v v' (view s')"
proof -
  have beg: "0 \<le> next_beg v" "next_beg v < int (length src)" "0 < next_len v" "srcpos v \<le> next_beg v"
    using rdy by (auto simp: ready_def)
  obtain s1 where s1: "int (cv_out (view s1)) = next_beg v" "cv_dst (view s1) = cv_dst (view s)"
      "cv_in (view s1) = cv_in (view s)"
      "cv_out (view s1) = cv_out (view s) \<or> can_handle_sparse v \<and> next_beg v \<noteq> 0"
    and run1: "(case sendfile K (next_beg v) (nat (next_len v)) s1 of (r, s) \<Rightarrow>
          (case cvt r of
            Inr n \<Rightarrow> (Inr (v\<lparr>srcpos := srcpos v + n\<rparr>), s)
          | Inl err \<Rightarrow>
              if raw_os_error err \<in> {Some ENOSYS, Some EPERM} then
                (Inr (v\<lparr>has_sendfile := False, use_sendfile := False\<rparr>), s)
              else if raw_os_error err = Some EINVAL then (Inr (v\<lparr>use_sendfile := False\<rparr>), s)
              else (Inl (''sendfile'', err), s))) = (Inr v', s')"
  proof (cases "can_handle_sparse v")
    case True
    obtain p s1 where seek: "seek_target K v s = (p, s1)" by (metis surj_pair)
    with run True obtain u where "p = Inr u" by (cases p) (simp_all add: copy_sendfile_def)
    with True seek run seek_target_Inr[OF slaws, of v s u s1] beg rdy show ?thesis
      by (intro that[of s1]) (auto simp: copy_sendfile_def ready_def split: if_splits)
  next
    case False
    with run rdy usf show ?thesis
      by (intro that[of s]) (auto simp: copy_sendfile_def ready_def)
  qed
  obtain t e s2 where call: "sendfile K (next_beg v) (nat (next_len v)) s1 = ((t, e), s2)"
    by (metis surj_pair)
  have out: "cv_out (view s1) = nat (next_beg v)" using s1(1) by simp
  note eff = sendfile_law[OF laws call beg(1,2), unfolded out]
  show ?thesis
  proof (cases "t = -1")
    case False
    with run1 call have "v' = v\<lparr>srcpos := srcpos v + t\<rparr>" "s' = s2" by simp_all
    moreover have "0 < t" "next_beg v + t \<le> int (length src)" "t \<le> next_len v"
      using eff False beg by (simp_all add: transfer_ok_def)
    moreover have "accepts_send K"
      unfolding accepts_send_def refused_def using call False by (metis fst_conv)
    ultimately show ?thesis
      using rdy eff False usf s1 beg
      by (intro transferred[of K src data v "view s" t]) (auto simp: copy_measure_def ready_def)
  next
    case True
    with run1 call have "v' = v\<lparr>has_sendfile := False, use_sendfile := False\<rparr> \<or>
        v' = v\<lparr>use_sendfile := False\<rparr>"
      and s': "s' = s2" and e: "e \<in> {ENOSYS, EPERM, EINVAL}"
      by (auto split: if_splits)
    moreover have "refused {ENOSYS, EPERM, EINVAL} (sendfile K (next_beg v) (nat (next_len v)) s1)"
      using call True e by (simp add: refused_def)
    with fb have "can_handle_sparse v \<or> \<not> accepts_send K"
      unfolding uniform_fallback_def by blast
    ultimately show ?thesis
      using s' eff True rdy usf s1
      by (intro fallen_back[of K src data v "view s"]) (auto simp: copy_measure_def ready_def)
  qed
qed

text \<open>Reading and writing takes the whole extent in one turn.\<close>

lemma copy_read_write_turn:
  assumes slaws: "seek_laws K src data view" and laws: "transfer_laws K src view"
    and rdy: "ready K src data v (view s)" and flags: "\<not> use_sendfile v" "\<not> use_copy_file_range v"
  shows "\<exists>r s'. copy_read_write K v s = Some (r, s') \<and>
    (case r of Inl _ \<Rightarrow> True | Inr v' \<Rightarrow> turn_ok K src data v v' (view s'))"
proof -
  have beg: "0 \<le> next_beg v" "next_beg v < int (length src)" "0 < next_len v" "srcpos v \<le> next_beg v"
    "next_beg v + next_len v \<le> int (length src)"
    using rdy flags by (auto simp: ready_def split: if_splits)
  let ?pre = "if can_handle_sparse v then seek_both K v s else (Inr (), s)"
  obtain p s1 where pre: "?pre = (p, s1)" by (metis surj_pair)
  show ?thesis
  proof (cases p)
    case (Inl e)
    with pre show ?thesis by (simp add: copy_read_write_def)
  next
    case (Inr u)
    have s1: "view s1 = \<lparr>cv_dst = cv_dst (view s), cv_in = nat (next_beg v), cv_out = nat (next_beg v)\<rparr>"
    proof (cases "can_handle_sparse v")
      case False
      with pre rdy flags beg show ?thesis by (auto simp: ready_def intro: copy_view.equality)
    next
      case True
      with pre Inr have "seek_both K v s = (Inr u, s1)" by simp
      from seek_both_Inr[OF slaws this beg(1)] True rdy beg show ?thesis
        by (auto simp: ready_def)
    qed
    have "cv_in (view s1) + nat (next_len v) \<le> length src" using s1 beg by simp
    then obtain r s' where loop: "read_write_loop K (srcpos v) (next_len v) 0 s1 = Some (r, s')"
      and res: "case r of Inl _ \<Rightarrow> True
       | Inr q \<Rightarrow> q = (srcpos v, 0, 0 + next_len v) \<and>
          view s' = moved (src_part src (cv_in (view s1)) (nat (next_len v))) (view s1)"
      using read_write_loop_laws[OF laws, of "next_len v" s1 "srcpos v" 0] beg(3) by fastforce
    show ?thesis
    proof (cases r)
      case (Inl e)
      with pre \<open>p = Inr u\<close> loop show ?thesis by (simp add: copy_read_write_def)
    next
      case rInr: (Inr q)
      let ?v = "v\<lparr>srcpos := srcpos v + next_len v, next_len := 0\<rparr>"
      have "copy_read_write K v s = Some (Inr ?v, s')"
        using pre Inr loop rInr res by (simp add: copy_read_write_def)
      moreover have "turn_ok K src data v ?v (view s')"
        using rInr res s1 beg rdy flags
        by (intro transferred[of K src data v "view s" "next_len v"]) (auto simp: copy_measure_def ready_def)
      ultimately show ?thesis by simp
    qed
  qed
qed

lemma copy_turn_ok:
  assumes slaws: "seek_laws K src data view" and laws: "transfer_laws K src view"
    and fb: "can_handle_sparse v \<or> uniform_fallback K"
    and inv: "copy_inv K src data v (view s)" and more: "srcpos v < int (length src)"
  shows "\<exists>r s'. copy_turn K (int (length src)) v s = Some (r, s') \<and>
    (case r of Inl _ \<Rightarrow> True | Inr v' \<Rightarrow> turn_ok K src data v v' (view s'))"
proof -
  obtain p s1 where ext: "next_extent K (int (length src)) v s = (p, s1)" by (metis surj_pair)
  show ?thesis
  proof (cases p)
    case (Inl e)
    with ext show ?thesis by (simp add: copy_turn_def)
  next
    case (Inr v1)
    with ext next_extent_ready[OF slaws inv more] have rdy: "ready K src data v1 (view s1)"
      and same: "srcpos v1 = srcpos v" "can_handle_sparse v1 = can_handle_sparse v"
        "use_copy_file_range v1 = use_copy_file_range v" "use_sendfile v1 = use_sendfile v"
      by simp_all
    have len: "\<not> next_len v1 \<le> 0" using rdy by (auto simp: ready_def)
    have ok: "turn_ok K src data v1 = turn_ok K src data v"
      by (simp add: fun_eq_iff turn_ok_def copy_measure_def same)
    have fb1: "can_handle_sparse v1 \<or> uniform_fallback K" using fb same by simp
    consider (range) "use_copy_file_range v1" | (send) "\<not> use_copy_file_range v1" "use_sendfile v1"
      | (rw) "\<not> use_copy_file_range v1" "\<not> use_sendfile v1" by blast
    then show ?thesis
    proof cases
      case range
      obtain r s' where run: "copy_range K v1 s1 = (r, s')" by (metis surj_pair)
      with ext Inr len range copy_range_turn[OF laws fb1 rdy range, of _ s'] show ?thesis
        by (simp add: copy_turn_def ok split: sum.split)
    next
      case send
      obtain r s' where run: "copy_sendfile K v1 s1 = (r, s')" by (metis surj_pair)
      with ext Inr len send copy_sendfile_turn[OF slaws laws fb1 rdy send(2,1), of _ s'] show ?thesis
        by (simp add: copy_turn_def ok split: sum.split)
    next
      case rw
      with ext Inr len copy_read_write_turn[OF slaws laws rdy rw(2,1), unfolded ok] show ?thesis
        by (simp add: copy_turn_def)
    qed
  qed
qed

section \<open>The loop\<close>

lemma copy_loop_laws:
  assumes slaws: "seek_laws K src data view" and laws: "transfer_laws K src view"
  shows "can_handle_sparse v \<or> uniform_fallback K \<Longrightarrow> copy_inv K src data v (view s) \<Longrightarrow>
    \<exists>r s'. copy_loop K (int (length src)) v s = Some (r, s') \<and>
      (case r of Inl _ \<Rightarrow> True
       | Inr v' \<Rightarrow> cv_dst (view s') = src \<and> srcpos v' = int (length src) \<and>
          (if can_handle_sparse v then src = [] \<or> (\<exists>p. data p \<and> length src \<le> p + 1) else True))"
proof (induction "copy_measure src v" arbitrary: v s rule: less_induct)
  case less
  show ?case
  proof (cases "srcpos v < int (length src)")
    case False
    with less.prems(2) have "srcpos v = int (length src)" by (simp add: copy_inv_def)
    moreover have "cv_dst (view s) = src"
      using less.prems(2) by (intro dst_inv_done) (auto simp: copy_inv_def simp flip: calculation)
    moreover have "src = [] \<or> (\<exists>p. data p \<and> length src \<le> p + 1)" if "can_handle_sparse v"
    proof -
      from that less.prems(2) have "srcpos v = 0 \<or> (\<exists>p. data p \<and> srcpos v \<le> int p + 1)"
        by (simp add: copy_inv_def)
      with calculation(1) show ?thesis by force
    qed
    ultimately show ?thesis by (subst copy_loop.simps) simp
  next
    case True
    obtain r s1 where turn: "copy_turn K (int (length src)) v s = Some (r, s1)"
      and res: "case r of Inl _ \<Rightarrow> True | Inr v' \<Rightarrow> turn_ok K src data v v' (view s1)"
      using copy_turn_ok[OF slaws laws less.prems True] by blast
    show ?thesis
    proof (cases r)
      case (Inl e)
      with turn True show ?thesis by (subst copy_loop.simps) simp
    next
      case (Inr v1)
      with res have ok: "copy_inv K src data v1 (view s1)" "copy_measure src v1 < copy_measure src v"
        "can_handle_sparse v1 = can_handle_sparse v" by (simp_all add: turn_ok_def)
      from less.hyps[OF ok(2) _ ok(1), unfolded ok(3)] less.prems(1) turn True Inr show ?thesis
        by (subst copy_loop.simps) (simp split del: if_split)
    qed
  qed
qed

text \<open>What holds of the files when the loop begins.\<close>

definition fresh_target :: "bytes \<Rightarrow> bool \<Rightarrow> copy_view \<Rightarrow> bool" where
  "fresh_target src sparse c \<longleftrightarrow> cv_in c = 0 \<and> cv_out c = 0 \<and> length (cv_dst c) \<le> length src \<and>
    (sparse \<longrightarrow> length (cv_dst c) = length src) \<and> set (cv_dst c) \<subseteq> {0}"

lemma copy_start_inv:
  assumes slaws: "seek_laws K src data view" and fresh: "fresh_target src sparse (view s)"
    and start: "copy_start K (int (length src)) sparse cfr sf s = (v, s')"
  shows "copy_inv K src data v (view s')"
proof -
  have zero: "cv_dst (view s) = replicate (length (cv_dst (view s))) 0"
    using fresh by (auto simp: fresh_target_def list_eq_iff_nth_eq subset_iff dest!: nth_mem)
  have dst: "dst_inv src sp 0 (cv_dst (view s))" if "sp \<Longrightarrow> sparse" for sp
    using fresh that by (subst zero, intro dst_inv_init) (auto simp: fresh_target_def)
  obtain t e s1 where seek: "lseek_in K 0 SEEK_DATA s = ((t, e), s1)" by (metis surj_pair)
  obtain t2 e2 s2 where hole: "lseek_in K t SEEK_HOLE s1 = ((t2, e2), s2)" by (metis surj_pair)
  note d = seek_data_law[OF slaws seek order.refl]
  show ?thesis
  proof (cases "sparse \<and> t \<noteq> -1")
    case False
    with start seek have "v = \<lparr>srcpos = 0, next_beg = 0, next_end = int (length src),
       next_len = int (length src), can_handle_sparse = False, use_copy_file_range = cfr,
       use_sendfile = sf, has_copy_file_range = cfr, has_sendfile = sf\<rparr>"
      and "view s' = view s"
      using d by (auto simp: copy_start_def split: if_splits)
    with fresh dst[of False] show ?thesis by (simp add: copy_inv_def fresh_target_def)
  next
    case True
    with d seek_hole_law[OF slaws hole] have h: "t < t2" "t2 \<le> int (length src)"
      "view s2 = (view s1)\<lparr>cv_in := nat t2\<rparr>" "\<And>p. t \<le> int p \<Longrightarrow> int p < t2 \<Longrightarrow> data p"
      by simp_all
    with True d have t2: "t2 \<noteq> -1" by auto
    from start seek hole True t2 have "v = \<lparr>srcpos = 0, next_beg = t, next_end = t2,
       next_len = t2 - t, can_handle_sparse = True, use_copy_file_range = cfr,
       use_sendfile = sf, has_copy_file_range = cfr, has_sendfile = sf\<rparr>" "s' = s2"
      by (simp_all add: copy_start_def)
    with fresh d h True dst[of True] show ?thesis by (simp add: copy_inv_def fresh_target_def)
  qed
qed

section \<open>Without other errors\<close>

text \<open>
  A kernel whose calls fail only as they have to: \<open>SEEK_DATA\<close> when no data follows, the two
  transferring calls when they are refused.
\<close>

definition reliable :: "'s file_calls \<Rightarrow> bytes \<Rightarrow> (nat \<Rightarrow> bool) \<Rightarrow> bool" where
  "reliable K src data \<longleftrightarrow>
    (\<forall>off s e s'. lseek_in K off SEEK_DATA s = ((-1, e), s') \<longrightarrow>
      (\<forall>p < length src. off \<le> int p \<longrightarrow> \<not> data p)) \<and>
    (\<forall>off s. fst (fst (lseek_in K off SEEK_SET s)) \<noteq> -1 \<and> fst (fst (lseek_out K off s)) \<noteq> -1) \<and>
    (\<forall>off n s. fst (fst (copy_file_range K off n s)) = -1 \<longrightarrow>
      refused {ENOSYS, EPERM, EXDEV, EINVAL} (copy_file_range K off n s)) \<and>
    (\<forall>off n s. fst (fst (sendfile K off n s)) = -1 \<longrightarrow>
      refused {ENOSYS, EPERM, EINVAL} (sendfile K off n s)) \<and>
    (\<forall>n s. isl (fst (read_in K n s)) = False) \<and>
    (\<forall>b s. isl (fst (write_out K b s)) = False)"

lemma cvt_no_error: "fst r \<noteq> -1 \<Longrightarrow> cvt r = Inr (fst r)"
  by (cases r) simp

lemma next_extent_reliable:
  assumes laws: "seek_laws K src data view" and rel: "reliable K src data"
    and pos: "0 \<le> srcpos v" "srcpos v < int (length src)"
    and last: "can_handle_sparse v \<Longrightarrow> data (length src - 1)"
  shows "\<exists>v' s'. next_extent K (int (length src)) v s = (Inr v', s')"
proof (cases "srcpos v \<noteq> 0 \<and> can_handle_sparse v")
  case False
  then show ?thesis by (auto simp: next_extent_def)
next
  case True
  obtain t e s1 where seek: "lseek_in K (srcpos v) SEEK_DATA s = ((t, e), s1)" by (metis surj_pair)
  obtain t2 e2 s2 where hole: "lseek_in K t SEEK_HOLE s1 = ((t2, e2), s2)" by (metis surj_pair)
  have "t \<noteq> -1"
  proof
    assume "t = -1"
    with seek rel have "\<forall>p < length src. srcpos v \<le> int p \<longrightarrow> \<not> data p"
      unfolding reliable_def by blast
    moreover have "length src - 1 < length src" "srcpos v \<le> int (length src - 1)" using pos by auto
    ultimately show False using last True by blast
  qed
  with seek_data_law[OF laws seek pos(1)] have t: "t \<noteq> -1" "0 \<le> t" "t < int (length src)" "data (nat t)"
    using pos(1) by auto
  from seek_hole_law[OF laws hole t(2,3,4)] t(2) have "t2 \<noteq> -1" by auto
  with True seek hole t show ?thesis by (simp add: next_extent_def)
qed

lemma reliable_refused:
  assumes "reliable K src data"
  shows "copy_file_range K off n s = ((-1, e), s') \<Longrightarrow> e \<in> {ENOSYS, EPERM, EXDEV, EINVAL}"
    and "sendfile K off n s = ((-1, e), s') \<Longrightarrow> e \<in> {ENOSYS, EPERM, EINVAL}"
  using assms unfolding reliable_def refused_def by (metis fst_conv snd_conv)+

lemma copy_range_reliable:
  assumes "reliable K src data"
  shows "\<exists>v' s'. copy_range K v s = (Inr v', s')"
proof -
  obtain t e s1 where call: "copy_file_range K (next_beg v) (nat (next_len v)) s = ((t, e), s1)"
    by (metis surj_pair)
  with reliable_refused(1)[OF assms, of "next_beg v" "nat (next_len v)" s e s1] show ?thesis
    by (cases "t = -1") (auto simp: copy_range_def)
qed

lemma reliable_calls:
  assumes "reliable K src data"
  shows "lseek_in K off SEEK_SET s = (r, s') \<Longrightarrow> cvt r = Inr (fst r)"
    and "lseek_out K off s = (r, s') \<Longrightarrow> cvt r = Inr (fst r)"
    and "read_in K n s = (b, s') \<Longrightarrow> \<not> isl b"
    and "write_out K w s = (u, s') \<Longrightarrow> \<not> isl u"
  using assms unfolding reliable_def by (metis fst_conv cvt_no_error)+

lemma seek_target_reliable:
  assumes "reliable K src data"
  shows "\<exists>s'. seek_target K v s = (Inr (), s')"
  using reliable_calls(2)[OF assms, of "next_beg v" s] by (simp add: seek_target_def split: prod.split)

lemma seek_both_reliable:
  assumes "reliable K src data"
  shows "\<exists>s'. seek_both K v s = (Inr (), s')"
  using reliable_calls(1)[OF assms, of "next_beg v" s] seek_target_reliable[OF assms, of v]
  by (simp add: seek_both_def split: prod.split)

lemma copy_sendfile_reliable:
  assumes "reliable K src data"
  shows "\<exists>v' s'. copy_sendfile K v s = (Inr v', s')"
proof -
  obtain s1 where s1: "(if can_handle_sparse v then seek_target K v s else (Inr (), s)) = (Inr (), s1)"
    using seek_target_reliable[OF assms, of v s] by (cases "can_handle_sparse v") auto
  obtain t e s2 where call: "sendfile K (next_beg v) (nat (next_len v)) s1 = ((t, e), s2)"
    by (metis surj_pair)
  with s1 reliable_refused(2)[OF assms, of "next_beg v" "nat (next_len v)" s1 e s2] show ?thesis
    by (cases "t = -1") (auto simp: copy_sendfile_def)
qed

lemma read_write_reliable:
  assumes "reliable K src data" and "read_write_loop K pos len written s = Some (r, s')"
  shows "\<not> isl r"
proof -
  have "read_write_loop K pos len written s = Some y \<Longrightarrow> \<not> isl (fst y)" for y
  proof (rule read_write_loop.raw_induct[of "\<lambda>K' pos len written s y. K' = K \<longrightarrow> \<not> isl (fst y)", THEN mp])
    fix f K' pos len written s y
    assume ih: "\<And>K' pos len written s y. f K' pos len written s = Some y \<Longrightarrow> K' = K \<longrightarrow> \<not> isl (fst y)"
      and run: "(if len > 0 then
       (case read_in K' (nat (min len default_buf_size)) s of (r, s) \<Rightarrow>
         (case r of
           Inr buf \<Rightarrow>
             if buf = [] then Some (Inr (pos + written, len, written), s)
             else (case write_out K' buf s of (w, s) \<Rightarrow>
               (case w of
                 Inl e \<Rightarrow> Some (Inl (''write_all'', e), s)
               | Inr _ \<Rightarrow> f K' pos (len - int (length buf)) (written + int (length buf)) s))
         | Inl e \<Rightarrow>
             if interrupted e then f K' pos len written s
             else Some (Inl (''read'', e), s)))
     else Some (Inr (pos, len, written), s)) = Some y"
    show "K' = K \<longrightarrow> \<not> isl (fst y)"
    proof
      assume K: "K' = K"
      show "\<not> isl (fst y)"
      proof (cases "len > 0")
        case True
        obtain b s1 where rd: "read_in K (nat (min len default_buf_size)) s = (b, s1)" by fastforce
        with reliable_calls(3)[OF assms(1) rd] obtain buf where b: "b = Inr buf" by (cases b) auto
        obtain w s2 where wr: "write_out K buf s1 = (w, s2)" by fastforce
        with reliable_calls(4)[OF assms(1) wr] obtain u where "w = Inr u" by (cases w) auto
        with run True K rd b wr have "buf = [] \<and> y = (Inr (pos + written, len, written), s1) \<or>
            f K pos (len - int (length buf)) (written + int (length buf)) s2 = Some y"
          by (auto split: if_splits)
        with ih[of K] show ?thesis by (cases y) auto
      qed (use run in auto)
    qed
  qed simp_all
  with assms(2) show ?thesis by fastforce
qed

lemma copy_turn_reliable:
  assumes laws: "seek_laws K src data view" and rel: "reliable K src data"
    and pos: "0 \<le> srcpos v" "srcpos v < int (length src)"
    and last: "can_handle_sparse v \<Longrightarrow> data (length src - 1)"
    and turn: "copy_turn K (int (length src)) v s = Some (r, s')"
  shows "\<not> isl r"
proof -
  obtain v1 s1 where ext: "next_extent K (int (length src)) v s = (Inr v1, s1)"
    using next_extent_reliable[OF laws rel pos last] by blast
  obtain v2 s2 where range: "copy_range K v1 s1 = (Inr v2, s2)"
    using copy_range_reliable[OF rel] by blast
  obtain v3 s3 where send: "copy_sendfile K v1 s1 = (Inr v3, s3)"
    using copy_sendfile_reliable[OF rel] by blast
  obtain s4 where both: "(if can_handle_sparse v1 then seek_both K v1 s1 else (Inr (), s1)) = (Inr (), s4)"
    using seek_both_reliable[OF rel, of v1 s1] by (cases "can_handle_sparse v1") auto
  have "\<not> isl r" if "copy_read_write K v1 s1 = Some (r, s')"
  proof -
    from that both obtain q s5 where loop: "read_write_loop K (srcpos v1) (next_len v1) 0 s4 = Some (q, s5)"
      by (auto simp: copy_read_write_def)
    with read_write_reliable[OF rel loop] that both show ?thesis
      by (cases q) (auto simp: copy_read_write_def)
  qed
  with turn ext range send show ?thesis
    by (auto simp: copy_turn_def split: if_splits)
qed

lemma copy_loop_reliable:
  assumes slaws: "seek_laws K src data view" and laws: "transfer_laws K src view"
    and rel: "reliable K src data"
  shows "can_handle_sparse v \<or> uniform_fallback K \<Longrightarrow> copy_inv K src data v (view s) \<Longrightarrow>
    (can_handle_sparse v \<Longrightarrow> data (length src - 1)) \<Longrightarrow>
    copy_loop K (int (length src)) v s = Some (r, s') \<Longrightarrow> \<not> isl r"
proof (induction "copy_measure src v" arbitrary: v s rule: less_induct)
  case less
  show ?case
  proof (cases "srcpos v < int (length src)")
    case False
    with less.prems(4) show ?thesis by (subst (asm) copy_loop.simps) auto
  next
    case True
    obtain q s1 where turn: "copy_turn K (int (length src)) v s = Some (q, s1)"
      and res: "case q of Inl _ \<Rightarrow> True | Inr v' \<Rightarrow> turn_ok K src data v v' (view s1)"
      using copy_turn_ok[OF slaws laws less.prems(1,2) True] by blast
    have "0 \<le> srcpos v" using less.prems(2) by (simp add: copy_inv_def)
    from copy_turn_reliable[OF slaws rel this True less.prems(3) turn]
    obtain v1 where v1: "q = Inr v1" by (cases q) auto
    with res have ok: "copy_inv K src data v1 (view s1)" "copy_measure src v1 < copy_measure src v"
      "can_handle_sparse v1 = can_handle_sparse v" by (simp_all add: turn_ok_def)
    from less.prems(4) turn v1 True have "copy_loop K (int (length src)) v1 s1 = Some (r, s')"
      by (subst (asm) copy_loop.simps) simp
    with less.hyps[OF ok(2) _ ok(1)] less.prems(1,3) ok(3) show ?thesis by simp
  qed
qed

text \<open>The whole transfer ends, and success means that the target is the source.\<close>

lemma copy_data_laws:
  assumes "seek_laws K src data view" and "transfer_laws K src view" and "uniform_fallback K"
    and "fresh_target src sparse (view s)"
  shows "\<exists>r s'. copy_data K (int (length src)) sparse cfr sf s = Some (r, s') \<and>
    (case r of Inl _ \<Rightarrow> True
     | Inr v \<Rightarrow> cv_dst (view s') = src \<and> srcpos v = int (length src))"
proof -
  obtain v s1 where start: "copy_start K (int (length src)) sparse cfr sf s = (v, s1)" by fastforce
  have "copy_inv K src data v (view s1)" by (rule copy_start_inv) (rule assms start)+
  from copy_loop_laws[OF assms(1,2) disjI2[OF assms(3)] this] obtain r s' where
    "copy_loop K (int (length src)) v s1 = Some (r, s')"
    "case r of Inl _ \<Rightarrow> True | Inr v' \<Rightarrow> cv_dst (view s') = src \<and> srcpos v' = int (length src) \<and>
          (if can_handle_sparse v then src = [] \<or> (\<exists>p. data p \<and> length src \<le> p + 1) else True)"
    by blast
  with start show ?thesis
    by (intro exI[of _ r] exI[of _ s']) (auto simp: copy_data_def split: sum.splits)
qed

end
