(* ===== verification/CopyProps.thy ===== *)
theory CopyProps
  imports CopyCorrect
begin

text \<open>
  What the copy loop of \<open>src/file/mod.rs\<close> achieves, on every kernel that keeps its promises, and what
  it does with a source that became shorter. A system whose state is the view of the two files is
  an instance of the promises.
\<close>

section \<open>Properties\<close>

text \<open>
  C15: On a kernel whose calls do not fail otherwise, the copying succeeds unless it follows the holes
  of a source that ends in one; such a file is never copied.
\<close>

theorem copy_data_succeeds:
  assumes "seek_laws K src data view" and "transfer_laws K src view" and "uniform_fallback K"
    and "fresh_target src sparse (view s)" and "reliable K src data"
  shows "\<exists>r s'. copy_data K (int (length src)) sparse cfr sf s = Some (r, s') \<and>
    isl r = (can_handle_sparse (fst (copy_start K (int (length src)) sparse cfr sf s)) \<and>
      \<not> data (length src - 1))"
proof -
  obtain v s1 where start: "copy_start K (int (length src)) sparse cfr sf s = (v, s1)" by fastforce
  have inv: "copy_inv K src data v (view s1)" by (rule copy_start_inv) (rule assms start)+
  from copy_loop_laws[OF assms(1,2) disjI2[OF assms(3)] inv] obtain r s' where
    run: "copy_loop K (int (length src)) v s1 = Some (r, s')"
    and res: "case r of Inl _ \<Rightarrow> True | Inr v' \<Rightarrow> cv_dst (view s') = src \<and> srcpos v' = int (length src) \<and>
          (if can_handle_sparse v then src = [] \<or> (\<exists>p. data p \<and> length src \<le> p + 1) else True)"
    by blast
  have stored: "p < length src" if "data p" for p
    using assms(1) that by (simp add: seek_laws_def)
  have "src \<noteq> []" if "can_handle_sparse v"
  proof -
    obtain t e s2 where seek: "lseek_in K 0 SEEK_DATA s = ((t, e), s2)" by (metis surj_pair)
    with start that have "t \<noteq> -1" by (auto simp: copy_start_def split: if_splits prod.splits)
    with seek_data_law[OF assms(1) seek order.refl] show ?thesis by auto
  qed
  moreover have "data (length src - 1)" if "data p" "length src \<le> p + 1" for p
    using stored[OF that(1)] that by (simp add: le_Suc_eq)
  ultimately have "\<not> isl r \<Longrightarrow> can_handle_sparse v \<Longrightarrow> data (length src - 1)"
    using res by (cases r) auto
  moreover have "isl r \<Longrightarrow> can_handle_sparse v \<and> \<not> data (length src - 1)"
    using copy_loop_reliable[OF assms(1,2,5) disjI2[OF assms(3)] inv _ run] by blast
  ultimately show ?thesis using run start by (auto simp: copy_data_def)
qed

text \<open>A system whose state is the view of the files, with at most \<open>chunk\<close> bytes in one call.\<close>

definition ex_kernel ::
  "bytes \<Rightarrow> (nat \<Rightarrow> bool) \<Rightarrow> nat \<Rightarrow> nat option \<Rightarrow> nat option \<Rightarrow> copy_view file_calls" where
  "ex_kernel src data chunk no_range no_send = \<lparr>
    lseek_in = (\<lambda>off wh c.
      if wh = SEEK_SET then ((\<bar>off\<bar>, 0), c\<lparr>cv_in := nat off\<rparr>)
      else (case filter (\<lambda>p. data p \<longleftrightarrow> wh = SEEK_DATA) [nat off..<length src] of
          p # _ \<Rightarrow> ((int p, 0), c\<lparr>cv_in := p\<rparr>)
        | [] \<Rightarrow> if wh = SEEK_DATA then ((-1, ENXIO), c)
            else ((int (length src), 0), c\<lparr>cv_in := length src\<rparr>))),
    lseek_out = (\<lambda>off c. ((\<bar>off\<bar>, 0), c\<lparr>cv_out := nat off\<rparr>)),
    copy_file_range = (\<lambda>off n c. case no_range of
        Some e \<Rightarrow> ((-1, e), c)
      | None \<Rightarrow> let t = min (min n chunk) (length src - nat off)
          in ((int t, 0), c\<lparr>cv_dst := write_at (cv_dst c) (nat off) (src_part src (nat off) t)\<rparr>)),
    sendfile = (\<lambda>off n c. case no_send of
        Some e \<Rightarrow> ((-1, e), c)
      | None \<Rightarrow> let t = min (min n chunk) (length src - nat off)
          in ((int t, 0), c\<lparr>cv_dst := write_at (cv_dst c) (cv_out c) (src_part src (nat off) t),
                cv_out := cv_out c + t\<rparr>)),
    read_in = (\<lambda>n c. let t = min (min n chunk) (length src - cv_in c)
      in (Inr (src_part src (cv_in c) t), c\<lparr>cv_in := cv_in c + t\<rparr>)),
    write_out = (\<lambda>b c. (Inr (), c\<lparr>cv_dst := write_at (cv_dst c) (cv_out c) b,
        cv_out := cv_out c + length b\<rparr>))\<rparr>"

lemma filter_upt_cases:
  obtains (found) p ps where "filter P [m..<n] = p # ps" "m \<le> p" "p < n" "P p" "\<And>q. m \<le> q \<Longrightarrow> q < p \<Longrightarrow> \<not> P q"
  | (none) "filter P [m..<n] = []" "\<And>q. m \<le> q \<Longrightarrow> q < n \<Longrightarrow> \<not> P q"
proof (cases "filter P [m..<n]")
  case Nil
  then show ?thesis using none by (auto simp: filter_empty_conv)
next
  case (Cons p ps)
  then have p: "p \<in> set (filter P [m..<n])" by simp
  have "sorted (p # ps)" using sorted_wrt_filter[of "(\<le>)" "[m..<n]" P] Cons by simp
  have "\<not> P q" if "m \<le> q" "q < p" for q
  proof
    assume "P q"
    with that p have "q \<in> set (filter P [m..<n])" by simp
    with Cons \<open>sorted (p # ps)\<close> that(2) show False by auto
  qed
  with p show ?thesis by (intro found[OF Cons]) auto
qed

lemma ex_kernel_seek:
  assumes "\<And>p. data p \<Longrightarrow> p < length src" and "\<And>p. p < length src \<Longrightarrow> \<not> data p \<Longrightarrow> src ! p = 0"
  shows "seek_laws (ex_kernel src data chunk no_range no_send) src data (\<lambda>c. c)"
  unfolding seek_laws_def
proof (intro conjI allI impI; (elim conjE)?)
  fix off s t e s' assume run: "lseek_in (ex_kernel src data chunk no_range no_send) off SEEK_DATA s = ((t, e), s')"
    and off: "0 \<le> (off :: int)"
  show "if t = -1 then s' = s
       else off \<le> t \<and> t < int (length src) \<and> data (nat t) \<and>
         (\<forall>p. off \<le> int p \<longrightarrow> int p < t \<longrightarrow> \<not> data p) \<and> s' = s\<lparr>cv_in := nat t\<rparr>"
    by (rule filter_upt_cases[where P = data and m = "nat off" and n = "length src"])
      (use run off in \<open>auto simp: ex_kernel_def nat_le_iff\<close>)
next
  fix off s t e s' assume run: "lseek_in (ex_kernel src data chunk no_range no_send) off SEEK_HOLE s = ((t, e), s')"
    and off: "0 \<le> (off :: int)" "off < int (length src)" "data (nat off)"
  have "off < t \<and> t \<le> int (length src) \<and> (\<forall>p. off \<le> int p \<longrightarrow> int p < t \<longrightarrow> data p) \<and> s' = s\<lparr>cv_in := nat t\<rparr>"
  proof (cases rule: filter_upt_cases[where P = "\<lambda>p. \<not> data p" and m = "nat off" and n = "length src", case_names found none])
    case (found p ps)
    with off have "nat off \<noteq> p" by blast
    with found run off show ?thesis by (auto simp: ex_kernel_def nat_le_iff)
  next
    case none
    with run off show ?thesis by (auto simp: ex_kernel_def nat_le_iff)
  qed
  then show "off < t" "t \<le> int (length src)" "s' = s\<lparr>cv_in := nat t\<rparr>"
    and "off \<le> int p \<Longrightarrow> int p < t \<Longrightarrow> data p" for p by blast+
qed (use assms in \<open>auto simp: ex_kernel_def split: if_splits\<close>)

lemma ex_kernel_transfer:
  "0 < chunk \<Longrightarrow> transfer_laws (ex_kernel src data chunk no_range no_send) src (\<lambda>c. c)"
  by (auto simp: transfer_laws_def ex_kernel_def transfer_ok_def Let_def src_part_def min_def
      split: option.splits)

lemma ex_kernel_uniform: "uniform_fallback (ex_kernel src data chunk no_range no_send)"
  by (auto simp: uniform_fallback_def accepts_range_def accepts_send_def refused_def ex_kernel_def Let_def
      split: option.splits)

lemma ex_kernel_reliable:
  assumes "set_option no_range \<subseteq> {ENOSYS, EPERM, EXDEV, EINVAL}" and "set_option no_send \<subseteq> {ENOSYS, EPERM, EINVAL}"
  shows "reliable (ex_kernel src data chunk no_range no_send) src data"
proof -
  have "filter data [nat off..<length src] = []"
    if "lseek_in (ex_kernel src data chunk no_range no_send) off SEEK_DATA s = ((-1, e), s')" for off s e s'
    using that by (auto simp: ex_kernel_def split: list.splits)
  then have "\<not> data p" if "lseek_in (ex_kernel src data chunk no_range no_send) off SEEK_DATA s = ((-1, e), s')"
    "p < length src" "off \<le> int p" for off s e s' p
    using that by (fastforce simp: filter_empty_conv)
  then show ?thesis
    unfolding reliable_def
    by (intro conjI) (blast, use assms in \<open>auto simp: ex_kernel_def refused_def Let_def split: option.splits\<close>)
qed

lemmas ex_kernel_laws = ex_kernel_seek ex_kernel_transfer ex_kernel_uniform ex_kernel_reliable

definition ex_src :: bytes where "ex_src = [0, 0, 7, 8]"
definition ex_data :: "nat \<Rightarrow> bool" where "ex_data p \<longleftrightarrow> p = 2 \<or> p = 3"
definition ex_files :: "copy_view file_calls" where "ex_files = ex_kernel ex_src ex_data 1 (Some EXDEV) None"
definition ex_view :: copy_view where "ex_view = \<lparr>cv_dst = [0, 0, 0, 0], cv_in = 0, cv_out = 0\<rparr>"

lemma ex_files_laws:
  "seek_laws ex_files ex_src ex_data (\<lambda>c. c)" "transfer_laws ex_files ex_src (\<lambda>c. c)"
  "uniform_fallback ex_files" "fresh_target ex_src True ex_view" "reliable ex_files ex_src ex_data"
proof -
  show "seek_laws ex_files ex_src ex_data (\<lambda>c. c)"
    unfolding ex_files_def
    by (rule ex_kernel_seek) (auto simp: ex_src_def ex_data_def less_Suc_eq numeral_eq_Suc)
qed (simp_all add: ex_files_def ex_kernel_laws fresh_target_def ex_src_def ex_view_def)

theorem copy_data_succeeds_witness:
  "\<exists>r s'. copy_data ex_files (int (length ex_src)) True True True ex_view = Some (r, s') \<and>
    isl r = (can_handle_sparse (fst (copy_start ex_files (int (length ex_src)) True True True ex_view)) \<and>
      \<not> ex_data (length ex_src - 1))"
  by (rule copy_data_succeeds[where view = "\<lambda>c. c"]) (rule ex_files_laws)+



text \<open>The inner loop that meets the end of the source: the bytes written are added to the position.\<close>

lemma read_write_loop_eof:
  assumes laws: "transfer_laws K src view"
  shows "cv_in (view s) \<le> length src \<Longrightarrow> int (length src) < int (cv_in (view s)) + len \<Longrightarrow>
    n = length src - cv_in (view s) \<Longrightarrow>
    \<exists>r s'. read_write_loop K pos len written s = Some (r, s') \<and>
      (case r of Inl _ \<Rightarrow> True
       | Inr q \<Rightarrow> q = (pos + (written + int n), len - int n, written + int n) \<and>
          cv_dst (view s') = write_at (cv_dst (view s)) (cv_out (view s)) (src_part src (cv_in (view s)) n))"
proof (induction n arbitrary: len written s rule: less_induct)
  case (less n)
  have "0 < len" using less.prems by simp
  from laws this show ?case
  proof (cases rule: read_write_loop_turn[where pos = pos and written = written and s = s])
    case eof
    with less.prems show ?thesis by simp
  next
    case (turn b s2)
    let ?len = "len - int (length b)" and ?m = "n - length b"
    have lb: "length b \<le> n"
      using turn(3) less.prems(3) by (metis length_drop length_take min.cobounded1 src_part_def)
    have smaller: "?m < n" "cv_in (view s2) \<le> length src" "int (length src) < int (cv_in (view s2)) + ?len"
      "?m = length src - cv_in (view s2)"
      using turn(1,4) lb less.prems by (auto simp flip: length_greater_0_conv)
    obtain r s' where ih: "read_write_loop K pos ?len (written + int (length b)) s2 = Some (r, s')"
      "case r of Inl _ \<Rightarrow> True
       | Inr q \<Rightarrow> q = (pos + (written + int (length b) + int ?m), ?len - int ?m, written + int (length b) + int ?m) \<and>
          cv_dst (view s') = write_at (cv_dst (view s2)) (cv_out (view s2)) (src_part src (cv_in (view s2)) ?m)"
      using less.IH[OF smaller, of "written + int (length b)"] by blast
    have "src_part src (cv_in (view s)) n = b @ src_part src (cv_in (view s2)) ?m"
      using turn(3,4) lb src_part_append[of src "cv_in (view s)" "length b" ?m] by simp
    with ih turn(4,5) lb show ?thesis
      by (intro exI[of _ r] exI[of _ s']) (auto simp: write_at_append of_nat_diff split: sum.splits)
  qed simp
qed

text \<open>
  A source that became shorter, but not below a half, is reported as copied with twice the number
  of its bytes when it is read and written: the bytes before its end are counted two times.
\<close>

lemma copy_data_shrunk_count:
  assumes "transfer_laws K src view" and "reliable K src data"
    and "view s = \<lparr>cv_dst = [], cv_in = 0, cv_out = 0\<rparr>"
    and "length src < n" and "n \<le> 2 * length src"
  shows "\<exists>v s'. copy_data K (int n) False False False s = Some (Inr v, s') \<and>
    srcpos v = 2 * int (length src) \<and> cv_dst (view s') = src"
proof -
  obtain r s' where loop: "read_write_loop K 0 (int n) 0 s = Some (r, s')"
    and res: "case r of Inl _ \<Rightarrow> True
       | Inr q \<Rightarrow> q = (0 + (0 + int (length src)), int n - int (length src), 0 + int (length src)) \<and>
          cv_dst (view s') = write_at (cv_dst (view s)) (cv_out (view s)) (src_part src (cv_in (view s)) (length src))"
    using read_write_loop_eof[OF assms(1), of s "int n" "length src" 0 0] assms(3,4) by auto
  with read_write_reliable[OF assms(2) loop]
  have r: "r = Inr (int (length src), int n - int (length src), int (length src))"
    by (cases r) simp_all
  have "cv_dst (view s') = src"
    using res r assms(3) by (simp add: write_at_def src_part_def)
  moreover obtain v where start: "copy_start K (int n) False False False s = (v, s)"
      "srcpos v = 0" "next_len v = int n" "\<not> can_handle_sparse v" "\<not> use_copy_file_range v" "\<not> use_sendfile v"
    by (simp add: copy_start_def)
  moreover have "copy_turn K (int n) v s =
      Some (Inr (v\<lparr>srcpos := 2 * int (length src), next_len := int n - int (length src)\<rparr>), s')"
    using start assms(4) loop r by (simp add: copy_turn_def next_extent_def copy_read_write_def)
  ultimately show ?thesis
    using assms(4,5) copy_loop.simps[of K "int n" v s]
      copy_loop.simps[of K "int n" "v\<lparr>srcpos := 2 * int (length src), next_len := int n - int (length src)\<rparr>" s']
    by (simp add: copy_data_def)
qed

end
