(* ===== verification/FileCopy.thy ===== *)
theory FileCopy
  imports CopyProps RustPath
begin

text \<open>
  \<open>copy\<close> of \<open>src/file/mod.rs\<close> as a whole: the source is opened, the target is created with its
  permissions, owner and attributes, and the data is transferred by the copy loop. The kernel is a
  parameter; the process-wide flags that remember which calls exist go in and come out.
\<close>

section \<open>The code\<close>

type_synonym fd = nat

record file_meta =
  m_is_file :: bool
  m_mode :: u32
  m_len :: u64

record 's file_sys =
  open_read :: "path \<Rightarrow> 's \<Rightarrow> (io_error + fd) \<times> 's"
  open_write :: "path \<Rightarrow> u32 \<Rightarrow> 's \<Rightarrow> (io_error + fd) \<times> 's"
  fd_metadata :: "fd \<Rightarrow> 's \<Rightarrow> (io_error + file_meta) \<times> 's"
  fd_set_permissions :: "fd \<Rightarrow> u32 \<Rightarrow> 's \<Rightarrow> (io_error + unit) \<times> 's"
  geteuid :: nat
  fstat64 :: "fd \<Rightarrow> 's \<Rightarrow> (sys_ret \<times> (nat \<times> nat)) \<times> 's"
  fchown :: "fd \<Rightarrow> nat \<Rightarrow> nat \<Rightarrow> 's syscall"
  ftruncate64 :: "fd \<Rightarrow> int \<Rightarrow> 's syscall"
  xattrs :: "fd \<Rightarrow> fd \<Rightarrow> 's xattr_calls"
  data_calls :: "fd \<Rightarrow> fd \<Rightarrow> 's file_calls"

text \<open>A sequence of calls that may fail, with the context of the failure, or not return.\<close>

type_synonym ('s, 'a) act = "'s \<Rightarrow> ('s, 'a) copy_res option"

definition act_return :: "'a \<Rightarrow> ('s, 'a) act" where
  "act_return x = (\<lambda>s. Some (Inr x, s))"

definition act_fail :: "chain_error \<Rightarrow> ('s, 'a) act" where
  "act_fail e = (\<lambda>s. Some (Inl e, s))"

definition act_bind :: "('s, 'a) act \<Rightarrow> ('a \<Rightarrow> ('s, 'b) act) \<Rightarrow> ('s, 'b) act" where
  "act_bind m f = (\<lambda>s. case m s of
      None \<Rightarrow> None
    | Some (Inl e, s) \<Rightarrow> Some (Inl e, s)
    | Some (Inr x, s) \<Rightarrow> f x s)"

text \<open>\<open>.context(ctx)?\<close>.\<close>

definition call :: "string \<Rightarrow> ('s \<Rightarrow> (io_error + 'a) \<times> 's) \<Rightarrow> ('s, 'a) act" where
  "call ctx f = (\<lambda>s. case f s of (Inl e, s) \<Rightarrow> Some (Inl (ctx, e), s) | (Inr x, s) \<Rightarrow> Some (Inr x, s))"

definition file_attr :: "'s file_sys \<Rightarrow> fd \<Rightarrow> 's \<Rightarrow> (io_error + nat \<times> nat) \<times> 's" where
  "file_attr S fd s = (case fstat64 S fd s of ((r, st), s) \<Rightarrow> (map_sum id (\<lambda>_. st) (cvt r), s))"

text \<open>The size of the target is set; a file system that cannot do so is not taken as sparse.\<close>

definition set_size :: "'s file_sys \<Rightarrow> fd \<Rightarrow> int \<Rightarrow> ('s, bool) act" where
  "set_size S fd_out n = (\<lambda>s. case cvt_r (ftruncate64 S fd_out n) s of
      None \<Rightarrow> None
    | Some (Inr _, s) \<Rightarrow> Some (Inr True, s)
    | Some (Inl err, s) \<Rightarrow>
        if raw_os_error err = Some EINVAL then Some (Inr False, s)
        else Some (Inl (''ftruncate64'', err), s))"

text \<open>Permissions, owner, attributes and size of a target that is a regular file.\<close>

definition prepare_target :: "'s file_sys \<Rightarrow> fd \<Rightarrow> fd \<Rightarrow> file_meta \<Rightarrow> ('s, bool) act" where
  "prepare_target S fd_in fd_out md =
    act_bind (call ''set_permissions'' (fd_set_permissions S fd_out (m_mode md))) (\<lambda>_.
    let ignore_eperm = geteuid S \<noteq> 0 in
    act_bind (call ''file_attr'' (file_attr S fd_in)) (\<lambda>(st_uid, st_gid).
    act_bind (call ''libc::fchown'' (\<lambda>s. case fchown S fd_out st_uid st_gid s of (r, s) \<Rightarrow>
        (cvt_ignore_perm r ignore_eperm, s))) (\<lambda>_.
    act_bind (\<lambda>s. Some (acl_copy_fd (xattrs S fd_in fd_out) ignore_eperm s)) (\<lambda>_.
    set_size S fd_out (sint (m_len md))))))"

record copy_flags =
  HAS_COPY_FILE_RANGE :: bool
  HAS_SENDFILE :: bool

definition copy_into ::
  "'s file_sys \<Rightarrow> copy_flags \<Rightarrow> fd \<Rightarrow> file_meta \<Rightarrow> path \<Rightarrow> ('s, u64 \<times> copy_flags) act" where
  "copy_into S flags fd_in md to =
    act_bind (call ''open'' (open_write S to (m_mode md))) (\<lambda>fd_out.
    act_bind (call ''metadata'' (fd_metadata S fd_out)) (\<lambda>wmd.
    act_bind (if m_is_file wmd then prepare_target S fd_in fd_out md else act_return False) (\<lambda>sparse.
    act_bind (copy_data (data_calls S fd_in fd_out) (sint (m_len md)) sparse
        (HAS_COPY_FILE_RANGE flags) (HAS_SENDFILE flags)) (\<lambda>v.
    act_return (word_of_int (srcpos v),
      \<lparr>HAS_COPY_FILE_RANGE = has_copy_file_range v, HAS_SENDFILE = has_sendfile v\<rparr>)))))"

definition copy :: "'s file_sys \<Rightarrow> copy_flags \<Rightarrow> path \<Rightarrow> path \<Rightarrow> ('s, u64 \<times> copy_flags) act" where
  "copy S flags source to =
    act_bind (call ''open'' (open_read S source)) (\<lambda>fd_in.
    act_bind (call ''metadata of'' (fd_metadata S fd_in)) (\<lambda>md.
    if \<not> m_is_file md then
      act_fail (''the source path is not an existing regular file'', InvalidInput)
    else copy_into S flags fd_in md to))"

section \<open>Facts about sequences\<close>

lemma act_bind_Inr:
  "act_bind m f s = Some (Inr y, s') \<longleftrightarrow> (\<exists>x s1. m s = Some (Inr x, s1) \<and> f x s1 = Some (Inr y, s'))"
  by (auto simp: act_bind_def split: option.splits prod.splits sum.splits)

lemma act_bind_run: "m s = Some (Inr x, s1) \<Longrightarrow> act_bind m f s = f x s1"
  and act_bind_stop: "m s = Some (Inl e, s1) \<Longrightarrow> act_bind m f s = Some (Inl e, s1)"
  by (simp_all add: act_bind_def)

lemma call_Inr: "call ctx f s = Some (Inr x, s') \<longleftrightarrow> f s = (Inr x, s')"
  by (auto simp: call_def split: prod.splits sum.splits)

lemma act_return_Inr: "act_return x s = Some (Inr y, s') \<longleftrightarrow> y = x \<and> s' = s"
  by (auto simp: act_return_def)

lemma act_fail_Inr: "act_fail e s \<noteq> Some (Inr y, s')"
  by (simp add: act_fail_def)

lemma set_size_Inr:
  "set_size S fd n s = Some (Inr b, s') \<longleftrightarrow>
    (\<exists>r. cvt_r (ftruncate64 S fd n) s = Some (r, s') \<and>
      (case r of Inr _ \<Rightarrow> b | Inl e \<Rightarrow> \<not> b \<and> raw_os_error e = Some EINVAL))"
  by (auto simp: set_size_def split: option.splits prod.splits sum.splits if_splits)

lemmas act_Inr = act_bind_Inr call_Inr act_return_Inr act_fail_Inr set_size_Inr

section \<open>What the calls promise\<close>

text \<open>
  For a source \<open>src\<close> that does not change: opening the target empties it and both positions are 0;
  the size the source reports is its length; the calls on owner, permissions and attributes leave
  the data alone; \<open>ftruncate64\<close> cuts or appends zeros, and is interrupted only finitely often.
\<close>

definition set_length :: "nat \<Rightarrow> bytes \<Rightarrow> bytes" where
  "set_length n b = take n b @ replicate (n - length b) 0"

definition keeps_view :: "('s \<Rightarrow> copy_view) \<Rightarrow> ('s \<Rightarrow> 'r \<times> 's) \<Rightarrow> bool" where
  "keeps_view view f \<longleftrightarrow> (\<forall>s. view (snd (f s)) = view s)"

definition file_laws ::
  "'s file_sys \<Rightarrow> path \<Rightarrow> bytes \<Rightarrow> (nat \<Rightarrow> bool) \<Rightarrow> ('s \<Rightarrow> copy_view) \<Rightarrow> bool" where
  "file_laws S source src data view \<longleftrightarrow>
    (\<forall>s fd s1 md s2. open_read S source s = (Inr fd, s1) \<longrightarrow> fd_metadata S fd s1 = (Inr md, s2) \<longrightarrow>
      sint (m_len md) = int (length src)) \<and>
    (\<forall>p m s fd s'. open_write S p m s = (Inr fd, s') \<longrightarrow> view s' = \<lparr>cv_dst = [], cv_in = 0, cv_out = 0\<rparr>) \<and>
    (\<forall>fd m u g. keeps_view view (fd_metadata S fd) \<and> keeps_view view (fd_set_permissions S fd m) \<and>
      keeps_view view (fstat64 S fd) \<and> keeps_view view (fchown S fd u g)) \<and>
    (\<forall>fd fd' n b l. keeps_view view (flistxattr (xattrs S fd fd') n) \<and>
      keeps_view view (fgetxattr (xattrs S fd fd') b n) \<and> keeps_view view (fsetxattr (xattrs S fd fd') b l n)) \<and>
    (\<forall>fd n s t e s'. ftruncate64 S fd n s = ((t, e), s') \<longrightarrow> 0 \<le> n \<longrightarrow>
      view s' = (if t = -1 then view s else (view s)\<lparr>cv_dst := set_length (nat n) (cv_dst (view s))\<rparr>)) \<and>
    (\<forall>fd n s. cvt_r (ftruncate64 S fd n) s \<noteq> None) \<and>
    (\<forall>fd fd'. seek_laws (data_calls S fd fd') src data view \<and> transfer_laws (data_calls S fd fd') src view \<and>
      uniform_fallback (data_calls S fd fd'))"

lemma keeps_viewD: "keeps_view view f \<Longrightarrow> f s = (r, s') \<Longrightarrow> view s' = view s"
  unfolding keeps_view_def by (metis snd_conv)

lemma acl_copy_names_keeps:
  assumes "\<And>n b l. keeps_view view (fgetxattr X b n) \<and> keeps_view view (fsetxattr X b l n)"
  shows "view (snd (acl_copy_names X ig names s)) = view s"
proof (induction names arbitrary: s)
  case (Cons name names)
  obtain n e b s1 where g1: "fgetxattr X name 0 s = (((n, e), b), s1)" by (metis surj_pair)
  obtain n2 e2 b2 s2 where g2: "fgetxattr X name (nat n) s1 = (((n2, e2), b2), s2)" by (metis surj_pair)
  obtain n3 e3 s3 where g3: "fsetxattr X name (take (nat n2) b2) (nat n) s2 = ((n3, e3), s3)"
    by (metis surj_pair)
  from assms g1 g2 g3 have "view s1 = view s" "view s2 = view s" "view s3 = view s"
    by (metis keeps_viewD)+
  with Cons g1 g2 g3 show ?case by (cases ig) (simp_all add: Let_def)
qed simp

lemma acl_copy_fd_keeps:
  assumes "\<And>n b l. keeps_view view (flistxattr X n) \<and> keeps_view view (fgetxattr X b n) \<and>
    keeps_view view (fsetxattr X b l n)"
  shows "view (snd (acl_copy_fd X ig s)) = view s"
proof -
  obtain n e b s1 where l1: "flistxattr X 0 s = (((n, e), b), s1)" by (metis surj_pair)
  obtain n2 e2 b2 s2 where l2: "flistxattr X (nat n) s1 = (((n2, e2), b2), s2)" by (metis surj_pair)
  from assms l1 l2 have "view s1 = view s" "view s2 = view s"
    by (metis keeps_viewD)+
  with l1 l2 acl_copy_names_keeps[of view X] assms show ?thesis by (simp add: acl_copy_fd_def)
qed

text \<open>The last call of \<open>cvt_r\<close>, after calls that were interrupted.\<close>

lemma cvt_r_last:
  assumes "cvt_r f s = Some (r, s')" and "\<And>s s1. f s = ((-1, EINTR), s1) \<Longrightarrow> P s \<Longrightarrow> P s1" and "P s"
  shows "\<exists>q s0. P s0 \<and> f s0 = (q, s') \<and> r = cvt q"
proof -
  have "cvt_r f s = Some y \<Longrightarrow> P s \<longrightarrow> (\<exists>q s0. P s0 \<and> f s0 = (q, snd y) \<and> fst y = cvt q)" for y s
  proof (rule cvt_r.raw_induct[of "\<lambda>f' s y. f' = f \<longrightarrow> P s \<longrightarrow> (\<exists>q s0. P s0 \<and> f s0 = (q, snd y) \<and> fst y = cvt q)", THEN mp])
    fix rec f' s y
    assume ih: "\<And>f' s y. rec f' s = Some y \<Longrightarrow>
        f' = f \<longrightarrow> P s \<longrightarrow> (\<exists>q s0. P s0 \<and> f s0 = (q, snd y) \<and> fst y = cvt q)"
      and run: "(case f' s of (r, s') \<Rightarrow>
      (case cvt r of
        Inl e \<Rightarrow> if interrupted e then rec f' s' else Some (Inl e, s')
      | Inr t \<Rightarrow> Some (Inr t, s'))) = Some y"
    show "f' = f \<longrightarrow> P s \<longrightarrow> (\<exists>q s0. P s0 \<and> f s0 = (q, snd y) \<and> fst y = cvt q)"
    proof (intro impI)
      assume f: "f' = f" and P: "P s"
      obtain q s1 where fs: "f s = (q, s1)" by fastforce
      show "\<exists>q s0. P s0 \<and> f s0 = (q, snd y) \<and> fst y = cvt q"
      proof (cases "q = (-1, EINTR)")
        case True
        with run f fs have "rec f s1 = Some y" by simp
        with ih assms(2) fs True P show ?thesis by blast
      next
        case False
        with run f fs have "y = (cvt q, s1)"
          by (cases q rule: cvt_cases) (auto split: if_splits)
        with P fs show ?thesis by fastforce
      qed
    qed
  qed simp_all
  with assms(1,3) show ?thesis by fastforce
qed

section \<open>Properties\<close>

text \<open>The target as the copy loop finds it.\<close>

lemma prepare_target_fresh:
  assumes laws: "file_laws S source src data view" and len: "sint (m_len md) = int (length src)"
    and fresh: "view s = \<lparr>cv_dst = [], cv_in = 0, cv_out = 0\<rparr>"
    and run: "prepare_target S fd_in fd_out md s = Some (Inr sparse, s')"
  shows "fresh_target src sparse (view s')"
proof -
  have keep: "keeps_view view (fd_set_permissions S fd m)" "keeps_view view (fstat64 S fd)"
      "keeps_view view (fchown S fd u g)" for fd m u g
    using laws by (simp_all add: file_laws_def)
  have attr: "view s2 = view s1" if "file_attr S fd s1 = (r, s2)" for fd r s1 s2
    using that keeps_viewD[OF keep(2)] by (auto simp: file_attr_def split: prod.splits)
  have acl: "view (snd (acl_copy_fd (xattrs S fd_in fd_out) ig s1)) = view s1" for ig s1
    using laws by (intro acl_copy_fd_keeps) (simp add: file_laws_def)
  obtain st s1 s2 where s12: "fd_set_permissions S fd_out (m_mode md) s = (Inr (), s1)"
    "file_attr S fd_in s1 = (Inr st, s2)"
    using run by (auto simp: prepare_target_def act_bind_Inr call_Inr Let_def)
  obtain r s3 where s3: "fchown S fd_out (fst st) (snd st) s2 = (r, s3)" by fastforce
  with run s12 obtain s4 where steps: "acl_copy_fd (xattrs S fd_in fd_out) (geteuid S \<noteq> 0) s3 = (Inr (), s4)"
    and size: "set_size S fd_out (int (length src)) s4 = Some (Inr sparse, s')"
    by (auto simp: prepare_target_def act_bind_Inr call_Inr len Let_def case_prod_beta)
  have v4: "view s4 = \<lparr>cv_dst = [], cv_in = 0, cv_out = 0\<rparr>"
    using keeps_viewD[OF keep(1) s12(1)] attr[OF s12(2)] keeps_viewD[OF keep(3) s3]
      acl[of "geteuid S \<noteq> 0" s3] steps fresh by simp
  obtain q where q: "cvt_r (ftruncate64 S fd_out (int (length src))) s4 = Some (q, s')"
    and res: "case q of Inr _ \<Rightarrow> sparse | Inl e \<Rightarrow> \<not> sparse \<and> raw_os_error e = Some EINVAL"
    using size by (auto simp: set_size_Inr)
  have trunc: "view s2' = (if t = -1 then view s1' else (view s1')\<lparr>cv_dst := set_length (length src) (cv_dst (view s1'))\<rparr>)"
    if "ftruncate64 S fd_out (int (length src)) s1' = ((t, e), s2')" for s1' s2' t e
    using laws that unfolding file_laws_def by (metis nat_int of_nat_0_le_iff)
  obtain t e s0 where last: "view s0 = view s4" "ftruncate64 S fd_out (int (length src)) s0 = ((t, e), s')"
      "q = cvt (t, e)"
    using cvt_r_last[OF q, of "\<lambda>s. view s = view s4"] trunc by (metis surj_pair)
  from trunc[OF last(2)] last(1,3) v4 res show ?thesis
    by (cases "t = -1") (auto simp: fresh_target_def set_length_def)
qed

lemma prepare_target_returns:
  assumes "file_laws S source src data view"
  shows "\<exists>r t. prepare_target S fd_in fd_out md s = Some (r, t)"
proof -
  have "cvt_r (ftruncate64 S fd n) s \<noteq> None" for fd n s
    using assms by (simp add: file_laws_def)
  then have "set_size S fd n s \<noteq> None" for fd n s
    by (auto simp: set_size_def split: option.splits prod.splits sum.splits)
  then show ?thesis
    by (auto simp: prepare_target_def act_bind_def call_def Let_def split: option.splits prod.splits sum.splits)
qed

lemma act_bind_returns:
  assumes "\<exists>r s'. m s = Some (r, s')" and "\<And>x s'. m s = Some (Inr x, s') \<Longrightarrow> \<exists>r t. f x s' = Some (r, t)"
  shows "\<exists>r t. act_bind m f s = Some (r, t)"
proof -
  obtain r s1 where m: "m s = Some (r, s1)" using assms(1) by blast
  with assms(2)[of _ s1] show ?thesis by (cases r) (auto simp: act_bind_def)
qed

lemma call_returns: "\<exists>r t. call ctx f s = Some (r, t)"
  by (auto simp: call_def split: prod.split sum.split)

text \<open>The state in which the data of a regular source is transferred.\<close>

lemma copy_before_data:
  assumes laws: "file_laws S source src data view"
    and o: "open_read S source s = (Inr fd_in, s1)" "fd_metadata S fd_in s1 = (Inr md, s2)"
      "open_write S to (m_mode md) s2 = (Inr fd_out, s3)" "fd_metadata S fd_out s3 = (Inr wmd, s4)"
    and prep: "(if m_is_file wmd then prepare_target S fd_in fd_out md else act_return False) s4 = Some (Inr sparse, s5)"
  shows "fresh_target src sparse (view s5)" and "sint (m_len md) = int (length src)"
proof -
  have md: "keeps_view view (fd_metadata S fd)" for fd
    using laws by (simp add: file_laws_def)
  have "view s3 = \<lparr>cv_dst = [], cv_in = 0, cv_out = 0\<rparr>"
    by (rule conjunct1[OF conjunct2[OF laws[unfolded file_laws_def]], rule_format, OF o(3)])
  then have v4: "view s4 = \<lparr>cv_dst = [], cv_in = 0, cv_out = 0\<rparr>"
    using keeps_viewD[OF md o(4)] by simp
  show len: "sint (m_len md) = int (length src)"
    by (rule conjunct1[OF laws[unfolded file_laws_def], rule_format, OF o(1,2)])
  show "fresh_target src sparse (view s5)"
  proof (cases "m_is_file wmd")
    case True
    with prep prepare_target_fresh[OF laws len v4] show ?thesis by simp
  next
    case False
    with prep v4 show ?thesis by (auto simp: fresh_target_def act_return_Inr)
  qed
qed

lemma copy_data_from_start:
  assumes "file_laws S source src data view" and "fresh_target src sparse (view s)"
  shows "\<exists>r t. copy_data (data_calls S fd fd') (int (length src)) sparse range_ok send_ok s = Some (r, t) \<and>
    (case r of Inl _ \<Rightarrow> True | Inr v \<Rightarrow> cv_dst (view t) = src \<and> srcpos v = int (length src))"
proof -
  have "seek_laws (data_calls S fd fd') src data view" "transfer_laws (data_calls S fd fd') src view"
      "uniform_fallback (data_calls S fd fd')"
    using assms(1) by (simp_all add: file_laws_def)
  from copy_data_laws[OF this assms(2)] show ?thesis by (auto split: sum.splits)
qed

lemma copy_returns:
  assumes "file_laws S source src data view"
  shows "\<exists>r t. copy S flags source to s = Some (r, t)"
  unfolding copy_def
proof (rule act_bind_returns[OF call_returns], rule act_bind_returns[OF call_returns])
  fix fd_in s1 s2 and md :: file_meta
  assume s12: "call ''open'' (open_read S source) s = Some (Inr fd_in, s1)"
    "call ''metadata of'' (fd_metadata S fd_in) s1 = Some (Inr md, s2)"
  have "\<exists>r t. copy_into S flags fd_in md to s2 = Some (r, t)"
    unfolding copy_into_def
  proof (rule act_bind_returns[OF call_returns], rule act_bind_returns[OF call_returns], rule act_bind_returns)
    fix fd_out s3 s4 and wmd :: file_meta
    show "\<exists>r t. (if m_is_file wmd then prepare_target S fd_in fd_out md else act_return False) s4 = Some (r, t)"
      using prepare_target_returns[OF assms] by (simp add: act_return_def)
    fix sparse s5
    assume s34: "call ''open'' (open_write S to (m_mode md)) s2 = Some (Inr fd_out, s3)"
      "call ''metadata'' (fd_metadata S fd_out) s3 = Some (Inr wmd, s4)"
      "(if m_is_file wmd then prepare_target S fd_in fd_out md else act_return False) s4 = Some (Inr sparse, s5)"
    note before = copy_before_data[OF assms s12[unfolded call_Inr] s34(1,2)[unfolded call_Inr] s34(3)]
    have "\<exists>r t. copy_data (data_calls S fd_in fd_out) (sint (m_len md)) sparse
        (HAS_COPY_FILE_RANGE flags) (HAS_SENDFILE flags) s5 = Some (r, t)"
      using copy_data_from_start[OF assms before(1)] before(2) by (metis (no_types))
    then show "\<exists>r t. act_bind (copy_data (data_calls S fd_in fd_out) (sint (m_len md)) sparse
          (HAS_COPY_FILE_RANGE flags) (HAS_SENDFILE flags)) (\<lambda>v.
      act_return (word_of_int (srcpos v),
        \<lparr>HAS_COPY_FILE_RANGE = has_copy_file_range v, HAS_SENDFILE = has_sendfile v\<rparr>)) s5 = Some (r, t)"
      by (rule act_bind_returns) (simp add: act_return_def)
  qed
  then show "\<exists>r t. (if \<not> m_is_file md then
      act_fail (''the source path is not an existing regular file'', InvalidInput)
    else copy_into S flags fd_in md to) s2 = Some (r, t)"
    by (simp add: act_fail_def)
qed

lemma copy_success:
  assumes "file_laws S source src data view" and "copy S flags source to s = Some (Inr (n, flags'), s')"
  shows "cv_dst (view s') = src \<and> sint n = int (length src)"
proof -
  obtain fd_in s1 md s2 where o: "open_read S source s = (Inr fd_in, s1)" "fd_metadata S fd_in s1 = (Inr md, s2)"
    and into: "copy_into S flags fd_in md to s2 = Some (Inr (n, flags'), s')"
    using assms(2) by (auto simp: copy_def act_bind_Inr call_Inr act_fail_Inr split: if_splits)
  obtain fd_out s3 wmd s4 sparse s5 v where
    o': "open_write S to (m_mode md) s2 = (Inr fd_out, s3)" "fd_metadata S fd_out s3 = (Inr wmd, s4)"
    and prep: "(if m_is_file wmd then prepare_target S fd_in fd_out md else act_return False) s4 = Some (Inr sparse, s5)"
    and copied: "copy_data (data_calls S fd_in fd_out) (sint (m_len md)) sparse
        (HAS_COPY_FILE_RANGE flags) (HAS_SENDFILE flags) s5 = Some (Inr v, s')"
    and n: "n = word_of_int (srcpos v)"
    using into by (auto simp: copy_into_def act_bind_Inr call_Inr act_return_Inr split del: if_split)
  note before = copy_before_data[OF assms(1) o o' prep]
  from copy_data_from_start[OF assms(1) before(1), of fd_in fd_out "HAS_COPY_FILE_RANGE flags" "HAS_SENDFILE flags"]
    copied before(2)
  have "cv_dst (view s') = src" and pos: "srcpos v = sint (m_len md)" by auto
  moreover have "n = m_len md" using n pos by simp
  ultimately show ?thesis using before(2) by simp
qed

text \<open>
  C12: \<open>copy\<close> returns, whatever the calls do within their promises; when it succeeds, the target has
  the bytes of the source and the result is their number.
\<close>

theorem copy_correct:
  assumes "file_laws S source src data view"
  shows "\<exists>r s'. copy S flags source to s = Some (r, s') \<and>
    (case r of Inl _ \<Rightarrow> True | Inr (n, flags') \<Rightarrow> cv_dst (view s') = src \<and> sint n = int (length src))"
proof -
  obtain r s' where run: "copy S flags source to s = Some (r, s')" using copy_returns[OF assms] by blast
  with copy_success[OF assms] show ?thesis by (auto split: sum.split)
qed

text \<open>
  A source that is not a regular file is refused with \<open>InvalidInput\<close>, before the target is opened:
  the state is as after the look at the source.
\<close>

lemma copy_not_regular:
  assumes "open_read S source s = (Inr fd_in, s1)" and "fd_metadata S fd_in s1 = (Inr md, s2)"
    and "\<not> m_is_file md"
  shows "copy S flags source to s =
    Some (Inl (''the source path is not an existing regular file'', InvalidInput), s2)"
  using assms by (simp add: copy_def act_bind_def call_def act_fail_def)

text \<open>The system of the copy loop's example, with one source and one target.\<close>

definition ex_sys :: "copy_view file_sys" where
  "ex_sys = \<lparr>
    open_read = (\<lambda>p c. (Inr 3, c)),
    open_write = (\<lambda>p m c. (Inr 4, \<lparr>cv_dst = [], cv_in = 0, cv_out = 0\<rparr>)),
    fd_metadata = (\<lambda>fd c. (Inr \<lparr>m_is_file = True, m_mode = 0, m_len = 4\<rparr>, c)),
    fd_set_permissions = (\<lambda>fd m c. (Inr (), c)),
    geteuid = 0,
    fstat64 = (\<lambda>fd c. (((0, 0), (0, 0)), c)),
    fchown = (\<lambda>fd u g c. ((-1, EPERM), c)),
    ftruncate64 = (\<lambda>fd n c. ((0, 0), c\<lparr>cv_dst := set_length (nat n) (cv_dst c)\<rparr>)),
    xattrs = (\<lambda>fd fd'. \<lparr>flistxattr = (\<lambda>n c. (((0, 0), []), c)),
      fgetxattr = (\<lambda>b n c. (((-1, ENODATA), []), c)), fsetxattr = (\<lambda>b v n c. ((-1, EOPNOTSUPP), c))\<rparr>),
    data_calls = (\<lambda>fd fd'. ex_files)\<rparr>"

lemma ex_sys_laws: "file_laws ex_sys p ex_src ex_data (\<lambda>c. c)"
  using ex_files_laws
  by (simp add: file_laws_def ex_sys_def keeps_view_def cvt_r.simps[of "\<lambda>s. ((0, 0), f s)" for f]) (simp add: ex_src_def)

theorem copy_correct_witness:
  "\<exists>r s'. copy ex_sys \<lparr>HAS_COPY_FILE_RANGE = True, HAS_SENDFILE = True\<rparr> (bstr ''/a'') (bstr ''/b'') ex_view = Some (r, s') \<and>
    (case r of Inl _ \<Rightarrow> True | Inr (n, flags') \<Rightarrow> cv_dst s' = ex_src \<and> sint n = int (length ex_src))"
  by (rule copy_correct[OF ex_sys_laws])

end
