(* ===== verification/ClonePath.thy ===== *)
theory ClonePath
  imports FileCopy RelPath
begin

text \<open>
  \<open>ln_r\<close> and \<open>clone_path\<close> of \<open>src/file/mod.rs\<close>: a path is cloned below a root directory together with
  its parents and with what symbolic links lead to. The calls on paths are a parameter, and so is
  the state they work on; looking at a path does not change it.
\<close>

section \<open>The code\<close>

record path_meta =
  p_symlink :: bool
  p_dir :: bool
  p_file :: bool
  p_mode :: u32

record 's path_sys =
  symlink_metadata :: "path \<Rightarrow> 's \<Rightarrow> io_error + path_meta"
  path_metadata :: "path \<Rightarrow> 's \<Rightarrow> io_error + path_meta"
  read_link :: "path \<Rightarrow> 's \<Rightarrow> io_error + path"
  set_permissions :: "path \<Rightarrow> u32 \<Rightarrow> 's \<Rightarrow> (io_error + unit) \<times> 's"
  symlink :: "path \<Rightarrow> path \<Rightarrow> 's \<Rightarrow> (io_error + unit) \<times> 's"
  mkdir :: "path \<Rightarrow> u32 \<Rightarrow> 's \<Rightarrow> (io_error + unit) \<times> 's"
  copy_file :: "path \<Rightarrow> path \<Rightarrow> ('s, unit) act"

text \<open>A failure has its context and, when a call failed, the error of the call.\<close>

type_synonym clone_error = "string \<times> io_error option"
type_synonym 's clone_res = "(clone_error, unit) res \<times> 's"

definition clone_call :: "string \<Rightarrow> ('s \<Rightarrow> (io_error + unit) \<times> 's) \<Rightarrow> 's \<Rightarrow> 's clone_res" where
  "clone_call ctx f s = (case f s of
      (Inl e, s) \<Rightarrow> (Inl (Fail (ctx, Some e)), s)
    | (Inr _, s) \<Rightarrow> (Inr (), s))"

definition ln_r :: "zip_longest \<Rightarrow> 's path_sys \<Rightarrow> path \<Rightarrow> path \<Rightarrow> 's \<Rightarrow> 's clone_res" where
  "ln_r zl P source target s = (case convert_abs_rel zl source target of
      Inl Panic \<Rightarrow> (Inl Panic, s)
    | Inl (Fail ctx) \<Rightarrow> (Inl (Fail (ctx, None)), s)
    | Inr source \<Rightarrow> clone_call ''Can't symlink'' (symlink P source target) s)"

text \<open>The outermost context of a failure.\<close>

definition with_context :: "string \<Rightarrow> 's clone_res \<Rightarrow> 's clone_res" where
  "with_context ctx r = (case r of (q, s) \<Rightarrow> (map_fail (\<lambda>e. (ctx, snd e)) q, s))"

text \<open>The place of a path below the root; an absolute path loses its first byte.\<close>

definition clone_target :: "path \<Rightarrow> path \<Rightarrow> path" where
  "clone_target root_dir source =
    (if has_root source then push root_dir (tl source) else push root_dir source)"

definition readonly :: "u32 \<Rightarrow> bool" where
  "readonly mode \<longleftrightarrow> and mode 146 = 0"

definition writable :: "u32 \<Rightarrow> u32" where
  "writable mode = or mode 146"

text \<open>The permissions of the target's directory, when it is read-only.\<close>

definition parent_lock :: "'s path_sys \<Rightarrow> path \<Rightarrow> 's \<Rightarrow> (path \<times> u32) option" where
  "parent_lock P target s = (case parent target of
      None \<Rightarrow> None
    | Some p \<Rightarrow> (case path_metadata P p s of
        Inl _ \<Rightarrow> None
      | Inr md \<Rightarrow> if readonly (p_mode md) then Some (p, p_mode md) else None))"

definition unlock_parent :: "'s path_sys \<Rightarrow> (path \<times> u32) option \<Rightarrow> 's \<Rightarrow> 's clone_res" where
  "unlock_parent P lock s = (case lock of
      None \<Rightarrow> (Inr (), s)
    | Some (p, mode) \<Rightarrow> clone_call ''Failed to set permissions'' (set_permissions P p (writable mode)) s)"

definition lock_parent :: "'s path_sys \<Rightarrow> (path \<times> u32) option \<Rightarrow> 's \<Rightarrow> 's clone_res" where
  "lock_parent P lock s = (case lock of
      None \<Rightarrow> (Inr (), s)
    | Some (p, mode) \<Rightarrow> clone_call ''set_permissions'' (set_permissions P p mode) s)"

text \<open>The end of the function: the permissions are put back, then the outcome is looked at.\<close>

definition clone_finish ::
  "'s path_sys \<Rightarrow> (path \<times> u32) option \<Rightarrow> 's clone_res \<Rightarrow> 's clone_res" where
  "clone_finish P lock r = (case r of
      (Inl Panic, s) \<Rightarrow> (Inl Panic, s)
    | (ret, s) \<Rightarrow> (case lock_parent P lock s of
        (Inl e, s) \<Rightarrow> (Inl e, s)
      | (Inr _, s) \<Rightarrow> (ret, s)))"

text \<open>What a symbolic link leads to, seen from its directory.\<close>

definition link_path :: "path \<Rightarrow> path \<Rightarrow> path" where
  "link_path source link =
    (if has_root link then link
     else push (case parent source of None \<Rightarrow> [slash] | Some p \<Rightarrow> p) link)"

text \<open>\<open>Path::is_dir\<close> and \<open>Path::is_file\<close> follow links.\<close>

definition path_is :: "'s path_sys \<Rightarrow> (path_meta \<Rightarrow> bool) \<Rightarrow> path \<Rightarrow> 's \<Rightarrow> bool" where
  "path_is P q p s = (case path_metadata P p s of Inl _ \<Rightarrow> False | Inr md \<Rightarrow> q md)"

text \<open>What is done for a source that is no symbolic link.\<close>

definition clone_plain ::
  "'s path_sys \<Rightarrow> path \<Rightarrow> path \<Rightarrow> u32 \<Rightarrow> 's \<Rightarrow> 's clone_res option" where
  "clone_plain P source target mode s =
    (if path_is P p_dir source s then Some (clone_call ''clone_path mkdir'' (mkdir P target mode) s)
     else if path_is P p_file source s then
       (case copy_file P source target s of
         None \<Rightarrow> None
       | Some (Inl (_, e), s) \<Rightarrow> Some (Inl (Fail (''clone_path copy'', Some e)), s)
       | Some (Inr _, s) \<Rightarrow> Some (Inr (), s))
     else Some (Inl Panic, s))"

text \<open>
  The recursion follows the parents and the links. A failure while a link is followed returns at
  once.
\<close>

partial_function (option) clone_path ::
  "zip_longest \<Rightarrow> 's path_sys \<Rightarrow> path \<Rightarrow> path \<Rightarrow> 's \<Rightarrow> 's clone_res option" where
  "clone_path zl P source root_dir s =
    (let target = clone_target root_dir source in
     case symlink_metadata P target s of
       Inr _ \<Rightarrow> Some (Inr (), s)
     | Inl _ \<Rightarrow> (case parent source of
         None \<Rightarrow> Some (Inr (), s)
       | Some dir \<Rightarrow> Option.bind (clone_path zl P dir root_dir s) (\<lambda>(r, s).
           case r of Inl e \<Rightarrow> Some (Inl e, s) | Inr _ \<Rightarrow>
           (case symlink_metadata P source s of
             Inl e \<Rightarrow> Some (Inl (Fail (''Failed to get symlink metadata'', Some e)), s)
           | Inr md \<Rightarrow>
               let lock = parent_lock P target s in
               (case unlock_parent P lock s of (r, s) \<Rightarrow>
               (case r of Inl e \<Rightarrow> Some (Inl e, s) | Inr _ \<Rightarrow>
                 if p_symlink md then
                   (case read_link P source s of
                     Inl e \<Rightarrow> Some (Inl (Fail (''Failed to read link of'', Some e)), s)
                   | Inr link \<Rightarrow>
                       let path = link_path source link in
                       Option.bind (clone_path zl P path root_dir s) (\<lambda>(r, s).
                         case r of Inl e \<Rightarrow> Some (Inl e, s) | Inr _ \<Rightarrow>
                         Some (clone_finish P lock (with_context ''failed ln_r symlink''
                           (ln_r zl P (clone_target root_dir path) target s)))))
                 else map_option (clone_finish P lock)
                   (clone_plain P source target (p_mode md) s)))))))"

text \<open>\<open>install_files\<close> of \<open>src/lib.rs\<close>.\<close>

fun install_files ::
  "zip_longest \<Rightarrow> 's path_sys \<Rightarrow> path \<Rightarrow> path list \<Rightarrow> 's \<Rightarrow> 's clone_res option" where
  "install_files zl P destrootdir [] s = Some (Inr (), s)"
| "install_files zl P destrootdir (i # files) s =
    (case clone_path zl P i destrootdir s of
      None \<Rightarrow> None
    | Some (Inl e, s) \<Rightarrow> Some (Inl e, s)
    | Some (Inr _, s) \<Rightarrow> install_files zl P destrootdir files s)"

section \<open>What the calls promise\<close>

text \<open>
  \<open>lexists\<close>: there is an entry, maybe a dangling link. The calls that create an entry have done so
  when they succeed; none of the calls removes one.
\<close>

definition lexists :: "'s path_sys \<Rightarrow> path \<Rightarrow> 's \<Rightarrow> bool" where
  "lexists P p s \<longleftrightarrow> \<not> isl (symlink_metadata P p s)"

definition creates :: "'s path_sys \<Rightarrow> path option \<Rightarrow> 's \<Rightarrow> bool \<Rightarrow> 's \<Rightarrow> bool" where
  "creates P made s success s' \<longleftrightarrow> (\<forall>p. lexists P p s \<longrightarrow> lexists P p s') \<and>
    (case made of None \<Rightarrow> True | Some p \<Rightarrow> success \<longrightarrow> lexists P p s')"

definition path_laws :: "'s path_sys \<Rightarrow> bool" where
  "path_laws P \<longleftrightarrow>
    (\<forall>p m s r s'. set_permissions P p m s = (r, s') \<longrightarrow> creates P None s (\<not> isl r) s') \<and>
    (\<forall>l p s r s'. symlink P l p s = (r, s') \<longrightarrow> creates P (Some p) s (\<not> isl r) s') \<and>
    (\<forall>p m s r s'. mkdir P p m s = (r, s') \<longrightarrow> creates P (Some p) s (\<not> isl r) s') \<and>
    (\<forall>p q s r s'. copy_file P p q s = Some (r, s') \<longrightarrow> creates P (Some q) s (\<not> isl r) s')"

text \<open>A sequence of states in which nothing is removed, and whether the goal was reached.\<close>

definition made :: "'s path_sys \<Rightarrow> path option \<Rightarrow> 's \<Rightarrow> 's clone_res \<Rightarrow> bool" where
  "made P p s r \<longleftrightarrow> creates P p s (\<not> isl (fst r)) (snd r)"

lemma creates_trans:
  "creates P a s b s1 \<Longrightarrow> creates P p s1 c s2 \<Longrightarrow> creates P p s c s2"
  "creates P p s b s1 \<Longrightarrow> creates P a s1 c s2 \<Longrightarrow> (d \<Longrightarrow> b) \<Longrightarrow> creates P p s d s2"
  unfolding creates_def by (auto split: option.splits)

lemma creates_refl: "creates P None s b s" "creates P p s False s"
  by (auto simp: creates_def split: option.splits)

lemma creates_weaken: "creates P a s b s' \<Longrightarrow> creates P None s c s'" "creates P p s b s' \<Longrightarrow> creates P p s False s'"
  by (auto simp: creates_def split: option.splits)

lemma made_call:
  assumes "\<And>r s'. f s = (r, s') \<Longrightarrow> creates P p s (\<not> isl r) s'"
  shows "made P p s (clone_call ctx f s)"
  using assms[of "fst (f s)" "snd (f s)"]
  by (auto simp: made_def clone_call_def split: prod.split sum.split)

lemma made_steps:
  assumes "path_laws P"
  shows "made P None s (unlock_parent P lock s)" and "made P None s (lock_parent P lock s)"
    and "made P (Some target) s (ln_r zl P source target s)"
    and "clone_plain P source target mode s = Some r \<Longrightarrow> made P (Some target) s r"
proof -
  note laws = assms[unfolded path_laws_def]
  show "made P None s (unlock_parent P lock s)" "made P None s (lock_parent P lock s)"
    using laws
    by (auto simp: unlock_parent_def lock_parent_def made_def creates_refl intro!: made_call[unfolded made_def]
        split: option.split)
  show "made P (Some target) s (ln_r zl P source target s)"
    using laws
    by (auto simp: ln_r_def made_def creates_refl intro!: made_call[unfolded made_def]
        split: sum.split fault.split)
  show "made P (Some target) s r" if "clone_plain P source target mode s = Some r"
  proof -
    have "made P (Some target) s (clone_call c (mkdir P target mode) s)" for c
      using laws by (intro made_call) blast
    moreover have "creates P (Some target) s (\<not> isl q) s'" if "copy_file P source target s = Some (q, s')" for q s'
      using laws that by blast
    ultimately show ?thesis
      using that by (auto simp: clone_plain_def made_def creates_refl split: if_splits option.splits sum.splits)
  qed
qed

lemma made_finish:
  assumes "path_laws P" and "made P (Some target) s r"
  shows "made P (Some target) s (clone_finish P lock r)"
proof (cases r)
  case (Pair q s1)
  obtain q2 s2 where l: "lock_parent P lock s1 = (q2, s2)" by fastforce
  with made_steps(2)[OF assms(1), of s1 lock] have "creates P None s1 (\<not> isl q2) s2" by (simp add: made_def)
  with assms(2) Pair have "creates P (Some target) s (\<not> isl q) s2"
    by (auto simp: made_def intro: creates_trans(2))
  with assms(2) Pair l show ?thesis
    by (auto simp: made_def clone_finish_def split: sum.split fault.split intro: creates_weaken)
qed

section \<open>The recursion\<close>

text \<open>One level of the recursion, with what the inner calls do as an argument.\<close>

definition clone_step ::
  "zip_longest \<Rightarrow> 's path_sys \<Rightarrow> path \<Rightarrow> (path \<Rightarrow> 's \<Rightarrow> 's clone_res option) \<Rightarrow>
    path \<Rightarrow> 's \<Rightarrow> 's clone_res option" where
  "clone_step zl P root_dir f source s =
    (let target = clone_target root_dir source in
     case symlink_metadata P target s of
       Inr _ \<Rightarrow> Some (Inr (), s)
     | Inl _ \<Rightarrow> (case parent source of
         None \<Rightarrow> Some (Inr (), s)
       | Some dir \<Rightarrow> Option.bind (f dir s) (\<lambda>(r, s).
           case r of Inl e \<Rightarrow> Some (Inl e, s) | Inr _ \<Rightarrow>
           (case symlink_metadata P source s of
             Inl e \<Rightarrow> Some (Inl (Fail (''Failed to get symlink metadata'', Some e)), s)
           | Inr md \<Rightarrow>
               let lock = parent_lock P target s in
               (case unlock_parent P lock s of (r, s) \<Rightarrow>
               (case r of Inl e \<Rightarrow> Some (Inl e, s) | Inr _ \<Rightarrow>
                 if p_symlink md then
                   (case read_link P source s of
                     Inl e \<Rightarrow> Some (Inl (Fail (''Failed to read link of'', Some e)), s)
                   | Inr link \<Rightarrow>
                       let path = link_path source link in
                       Option.bind (f path s) (\<lambda>(r, s).
                         case r of Inl e \<Rightarrow> Some (Inl e, s) | Inr _ \<Rightarrow>
                         Some (clone_finish P lock (with_context ''failed ln_r symlink''
                           (ln_r zl P (clone_target root_dir path) target s)))))
                 else map_option (clone_finish P lock)
                   (clone_plain P source target (p_mode md) s)))))))"

lemma clone_path_step:
  "clone_path zl P source root_dir s = clone_step zl P root_dir (\<lambda>p. clone_path zl P p root_dir) source s"
  by (subst clone_path.simps) (simp only: clone_step_def)

text \<open>What one level keeps, a run that returns has.\<close>

lemma clone_path_induct:
  assumes step: "\<And>f source s r. (\<And>source s r. f source s = Some r \<Longrightarrow> Q source s r) \<Longrightarrow>
      clone_step zl P root_dir f source s = Some r \<Longrightarrow> Q source s r"
    and run: "clone_path zl P source root_dir s = Some r"
  shows "Q source s r"
proof -
  have "(case ((((zl, P), source), root_dir), s) of ((((zl', P'), source), root'), s) \<Rightarrow>
      \<lambda>r. zl' = zl \<longrightarrow> P' = P \<longrightarrow> root' = root_dir \<longrightarrow> Q source s r) r"
    by (rule clone_path.raw_induct[OF _ run], simp only: prod.case, intro impI, hypsubst,
        rule step, assumption?) (auto simp only: clone_step_def)
  then show ?thesis by simp
qed

text \<open>What a clone of a path has to make: nothing for the root.\<close>

definition goal_of :: "path \<Rightarrow> path \<Rightarrow> path option" where
  "goal_of root_dir source = (if parent source = None then None else Some (clone_target root_dir source))"

text \<open>The level in parts: a link, an entry whose directory is there, and the whole.\<close>

definition clone_link ::
  "zip_longest \<Rightarrow> 's path_sys \<Rightarrow> path \<Rightarrow> (path \<Rightarrow> 's \<Rightarrow> 's clone_res option) \<Rightarrow>
    path \<Rightarrow> path \<Rightarrow> (path \<times> u32) option \<Rightarrow> 's \<Rightarrow> 's clone_res option" where
  "clone_link zl P root_dir f source target lock s = (case read_link P source s of
      Inl e \<Rightarrow> Some (Inl (Fail (''Failed to read link of'', Some e)), s)
    | Inr link \<Rightarrow>
        let path = link_path source link in
        Option.bind (f path s) (\<lambda>(r, s).
          case r of Inl e \<Rightarrow> Some (Inl e, s) | Inr _ \<Rightarrow>
          Some (clone_finish P lock (with_context ''failed ln_r symlink''
            (ln_r zl P (clone_target root_dir path) target s)))))"

definition clone_entry ::
  "zip_longest \<Rightarrow> 's path_sys \<Rightarrow> path \<Rightarrow> (path \<Rightarrow> 's \<Rightarrow> 's clone_res option) \<Rightarrow>
    path \<Rightarrow> path \<Rightarrow> 's \<Rightarrow> 's clone_res option" where
  "clone_entry zl P root_dir f source target s = (case symlink_metadata P source s of
      Inl e \<Rightarrow> Some (Inl (Fail (''Failed to get symlink metadata'', Some e)), s)
    | Inr md \<Rightarrow>
        let lock = parent_lock P target s in
        (case unlock_parent P lock s of (r, s) \<Rightarrow>
        (case r of Inl e \<Rightarrow> Some (Inl e, s) | Inr _ \<Rightarrow>
          if p_symlink md then clone_link zl P root_dir f source target lock s
          else map_option (clone_finish P lock) (clone_plain P source target (p_mode md) s))))"

lemma clone_step_parts:
  "clone_step zl P root_dir f source s =
    (case symlink_metadata P (clone_target root_dir source) s of
       Inr _ \<Rightarrow> Some (Inr (), s)
     | Inl _ \<Rightarrow> (case parent source of
         None \<Rightarrow> Some (Inr (), s)
       | Some dir \<Rightarrow> Option.bind (f dir s) (\<lambda>(r, s).
           case r of Inl e \<Rightarrow> Some (Inl e, s)
           | Inr _ \<Rightarrow> clone_entry zl P root_dir f source (clone_target root_dir source) s)))"
  by (simp only: clone_step_def clone_entry_def clone_link_def Let_def)

lemma made_after: "creates P None s True s1 \<Longrightarrow> made P p s1 r \<Longrightarrow> made P p s r"
  by (cases p) (auto simp: made_def creates_def split: option.splits)

lemma made_Inl: "made P p s (Inl e, s)"
  by (simp add: made_def creates_def split: option.split)

text \<open>The parts make what they should when the inner calls only add entries.\<close>

lemma clone_link_made:
  assumes laws: "path_laws P" and ih: "\<forall>source s q t. f source s = Some (q, t) \<longrightarrow> creates P None s True t"
    and run: "clone_link zl P root_dir f source target lock s = Some r"
  shows "made P (Some target) s r"
proof (cases "read_link P source s")
  case (Inl e)
  with run have "r = (Inl (Fail (''Failed to read link of'', Some e)), s)" by (simp add: clone_link_def)
  then show ?thesis by (simp only: made_Inl)
next
  case (Inr link)
  let ?path = "link_path source link"
  obtain q s1 where f: "f ?path s = Some (q, s1)"
    using run Inr by (cases "f ?path s") (auto simp: clone_link_def)
  have "made P (Some target) s1 r"
  proof (cases q)
    case (Inl e)
    with run Inr f show ?thesis by (auto simp: clone_link_def made_Inl)
  next
    case (Inr u)
    let ?q = "with_context ''failed ln_r symlink'' (ln_r zl P (clone_target root_dir ?path) target s1)"
    have "made P (Some target) s1 ?q"
      using made_steps(3)[OF laws, of target s1 zl "clone_target root_dir ?path"]
      by (auto simp: made_def with_context_def map_fail_def split: prod.splits sum.splits fault.splits)
    moreover have "r = clone_finish P lock ?q"
      using run f Inr \<open>read_link P source s = Inr link\<close> by (simp add: clone_link_def)
    ultimately show ?thesis by (simp add: made_finish[OF laws])
  qed
  with ih f show ?thesis by (blast intro: made_after)
qed

lemma clone_entry_made:
  assumes laws: "path_laws P" and ih: "\<forall>source s q t. f source s = Some (q, t) \<longrightarrow> creates P None s True t"
    and run: "clone_entry zl P root_dir f source target s = Some r"
  shows "made P (Some target) s r"
proof (cases "symlink_metadata P source s")
  case (Inl e)
  with run have "r = (Inl (Fail (''Failed to get symlink metadata'', Some e)), s)" by (simp add: clone_entry_def)
  then show ?thesis by (simp only: made_Inl)
next
  case (Inr md)
  let ?lock = "parent_lock P target s"
  obtain q s1 where un: "unlock_parent P ?lock s = (q, s1)" by fastforce
  have "creates P None s True s1"
    using made_steps(1)[OF laws, of s ?lock] un by (auto simp: made_def intro: creates_weaken)
  then show ?thesis
  proof (rule made_after)
    show "made P (Some target) s1 r"
    proof (cases q)
      case (Inl e)
      with run Inr un show ?thesis by (auto simp: clone_entry_def Let_def made_Inl)
    next
      case q: (Inr u)
      show ?thesis
      proof (cases "p_symlink md")
        case True
        with run Inr un q have "clone_link zl P root_dir f source target ?lock s1 = Some r"
          by (simp add: clone_entry_def Let_def)
        then show ?thesis by (rule clone_link_made[OF laws ih])
      next
        case False
        with run Inr un q obtain p where "clone_plain P source target (p_mode md) s1 = Some p" "r = clone_finish P ?lock p"
          by (auto simp: clone_entry_def Let_def)
        with made_steps(4)[OF laws this(1)] show ?thesis by (simp add: made_finish[OF laws])
      qed
    qed
  qed
qed

lemma clone_step_made:
  assumes laws: "path_laws P" and ih: "\<And>source s r. f source s = Some r \<Longrightarrow> made P (goal_of root_dir source) s r"
    and run: "clone_step zl P root_dir f source s = Some r"
  shows "made P (goal_of root_dir source) s r"
proof (cases "isl (symlink_metadata P (clone_target root_dir source) s) \<and> parent source \<noteq> None")
  case False
  with run have "r = (Inr (), s)" by (auto simp: clone_step_parts split: sum.splits option.splits)
  with False show ?thesis
    by (auto simp: made_def goal_of_def creates_def lexists_def split: option.splits)
next
  case True
  then obtain e dir where e: "symlink_metadata P (clone_target root_dir source) s = Inl e" and dir: "parent source = Some dir"
    by (auto simp: isl_def)
  have goal: "goal_of root_dir source = Some (clone_target root_dir source)" using dir by (simp add: goal_of_def)
  have inner: "\<forall>source s q t. f source s = Some (q, t) \<longrightarrow> creates P None s True t"
  proof (intro allI impI)
    fix source s q t assume "f source s = Some (q, t)"
    from ih[OF this] show "creates P None s True t" by (auto simp: made_def intro: creates_weaken)
  qed
  obtain q s1 where f: "f dir s = Some (q, s1)"
    using run e dir by (cases "f dir s") (auto simp: clone_step_parts)
  have "made P (Some (clone_target root_dir source)) s1 r"
  proof (cases q)
    case (Inl e')
    with run e dir f show ?thesis by (auto simp: clone_step_parts made_Inl)
  next
    case (Inr u)
    with run e dir f have "clone_entry zl P root_dir f source (clone_target root_dir source) s1 = Some r"
      by (simp add: clone_step_parts)
    then show ?thesis by (rule clone_entry_made[OF laws inner])
  qed
  with inner f show ?thesis unfolding goal by (blast intro: made_after)
qed

lemma clone_path_made:
  assumes "path_laws P" and "clone_path zl P source root_dir s = Some r"
  shows "made P (goal_of root_dir source) s r"
  by (rule clone_path_induct[OF _ assms(2)]) (rule clone_step_made[OF assms(1)])

text \<open>
  A set of paths that is closed under the parents and under what links lead to, without cycles, on a
  system where copies return.
\<close>

definition followed :: "'s path_sys \<Rightarrow> path set \<Rightarrow> (path \<Rightarrow> nat) \<Rightarrow> bool" where
  "followed P D rank \<longleftrightarrow>
    (\<forall>source \<in> D. \<forall>dir. parent source = Some dir \<longrightarrow> dir \<in> D \<and> rank dir < rank source) \<and>
    (\<forall>source \<in> D. \<forall>s s' md link. symlink_metadata P source s = Inr md \<longrightarrow> p_symlink md \<longrightarrow>
      read_link P source s' = Inr link \<longrightarrow>
      link_path source link \<in> D \<and> rank (link_path source link) < rank source) \<and>
    (\<forall>p q s. copy_file P p q s \<noteq> None)"

lemma clone_step_returns:
  assumes "\<And>dir s. parent source = Some dir \<Longrightarrow> f dir s \<noteq> None"
    and "\<And>s s' md link s2. symlink_metadata P source s = Inr md \<Longrightarrow> p_symlink md \<Longrightarrow>
      read_link P source s' = Inr link \<Longrightarrow> f (link_path source link) s2 \<noteq> None"
    and "\<And>p q s. copy_file P p q s \<noteq> None"
  shows "clone_step zl P root_dir f source s \<noteq> None"
proof -
  have plain: "clone_plain P source target mode s \<noteq> None" for target mode s
    using assms(3)[of source target s] by (auto simp: clone_plain_def split: option.split sum.split)
  show ?thesis
  proof (cases "isl (symlink_metadata P (clone_target root_dir source) s) \<and> parent source \<noteq> None")
    case False
    then show ?thesis
      by (cases "symlink_metadata P (clone_target root_dir source) s"; cases "parent source")
        (simp_all add: clone_step_def)
  next
    case True
    then obtain e dir where e: "symlink_metadata P (clone_target root_dir source) s = Inl e"
      and dir: "parent source = Some dir"
      by (auto simp: isl_def)
    obtain r1 s1 where f: "f dir s = Some (r1, s1)" using assms(1)[OF dir, of s] by fastforce
    show ?thesis
    proof (cases "\<exists>u md. r1 = Inr u \<and> symlink_metadata P source s1 = Inr md")
      case False
      with e dir f show ?thesis
        by (cases r1; cases "symlink_metadata P source s1") (simp_all add: clone_step_def)
    next
      case True
      then obtain u md where md: "r1 = Inr u" "symlink_metadata P source s1 = Inr md" by blast
      obtain r2 s2 where un: "unlock_parent P (parent_lock P (clone_target root_dir source) s1) s1 = (r2, s2)"
        by fastforce
      show ?thesis
      proof (cases "(\<exists>u. r2 = Inr u) \<and> p_symlink md")
        case False
        with e dir f md un plain show ?thesis by (cases r2) (auto simp: clone_step_def Let_def)
      next
        case True
        with assms(2)[OF md(2), of s2 _ s2] e dir f md un show ?thesis
          by (cases "read_link P source s2") (auto simp: clone_step_def Let_def split: sum.split)
      qed
    qed
  qed
qed

lemma clone_path_returns:
  assumes "followed P D rank"
  shows "source \<in> D \<Longrightarrow> clone_path zl P source root_dir s \<noteq> None"
proof (induction "rank source" arbitrary: source s rule: less_induct)
  case less
  show ?case
    unfolding clone_path_step[of zl P source]
  proof (rule clone_step_returns)
    fix dir s assume "parent source = Some dir"
    with assms less.prems have "dir \<in> D" "rank dir < rank source" by (auto simp: followed_def)
    then show "clone_path zl P dir root_dir s \<noteq> None" by (intro less.hyps)
  next
    fix s s' md link s2
    assume "symlink_metadata P source s = Inr md" "p_symlink md" "read_link P source s' = Inr link"
    with assms less.prems have "link_path source link \<in> D" "rank (link_path source link) < rank source"
      unfolding followed_def by blast+
    then show "clone_path zl P (link_path source link) root_dir s2 \<noteq> None" by (intro less.hyps)
  qed (use assms in \<open>simp add: followed_def\<close>)
qed

lemma clone_path_result:
  assumes "path_laws P" and "clone_path zl P source root_dir s = Some (r, s')" and "parent source \<noteq> None"
  shows "(\<forall>p. lexists P p s \<longrightarrow> lexists P p s') \<and>
    (case r of Inl _ \<Rightarrow> True | Inr _ \<Rightarrow> lexists P (clone_target root_dir source) s')"
  using clone_path_made[OF assms(1,2)] assms(3)
  by (auto simp: made_def goal_of_def creates_def split: sum.split)

lemma install_files_made:
  assumes "path_laws P"
  shows "install_files zl P root_dir files s = Some (r, s') \<Longrightarrow>
    (\<forall>p. lexists P p s \<longrightarrow> lexists P p s') \<and>
    (case r of Inl _ \<Rightarrow> True
     | Inr _ \<Rightarrow> list_all (\<lambda>f. parent f = None \<or> lexists P (clone_target root_dir f) s') files)"
proof (induction files arbitrary: s)
  case (Cons f files)
  obtain r1 s1 where f: "clone_path zl P f root_dir s = Some (r1, s1)"
    using Cons.prems by (auto split: option.splits)
  note m = clone_path_made[OF assms f]
  show ?case
  proof (cases r1)
    case (Inl e)
    with Cons.prems f m show ?thesis by (auto simp: made_def creates_def)
  next
    case (Inr u)
    with Cons.prems f have "install_files zl P root_dir files s1 = Some (r, s')" by simp
    from Cons.IH[OF this] m Inr show ?thesis
      by (auto simp: made_def creates_def goal_of_def split: sum.splits if_splits)
  qed
qed (auto split: sum.split)

section \<open>Properties\<close>


text \<open>
  C36: A cycle of symbolic links is followed forever: when every path of a set is a link to another path
  of it, is not there below the root yet and has its directory there, cloning any of them never
  returns.
\<close>

theorem clone_path_link_cycle:
  assumes "source \<in> C"
    and "\<forall>p \<in> C. \<not> lexists P (clone_target root_dir p) s \<and>
      (\<exists>dir md link. parent p = Some dir \<and> lexists P (clone_target root_dir dir) s \<and>
        symlink_metadata P p s = Inr md \<and> p_symlink md \<and> read_link P p s = Inr link \<and>
        link_path p link \<in> C) \<and> parent_lock P (clone_target root_dir p) s = None"
  shows "clone_path zl P source root_dir s = None"
proof -
  let ?Q = "\<lambda>p t r. t = s \<longrightarrow> p \<notin> C \<and> (lexists P (clone_target root_dir p) s \<longrightarrow> r = (Inr (), s))"
  have "?Q source s r" if "clone_path zl P source root_dir s = Some r" for r
  proof (rule clone_path_induct[OF _ that, of ?Q])
    fix f p t r
    assume ih: "\<And>p t r. f p t = Some r \<Longrightarrow> ?Q p t r" and run: "clone_step zl P root_dir f p t = Some r"
    show "?Q p t r"
    proof (intro impI conjI notI)
      assume t: "t = s" and "p \<in> C"
      with assms(2) obtain dir md link where p: "\<not> lexists P (clone_target root_dir p) s"
        "parent p = Some dir" "lexists P (clone_target root_dir dir) s"
        "symlink_metadata P p s = Inr md" "p_symlink md" "read_link P p s = Inr link" "link_path p link \<in> C"
        "parent_lock P (clone_target root_dir p) s = None"
        by blast
      from p(1) obtain e where e: "symlink_metadata P (clone_target root_dir p) s = Inl e"
        by (auto simp: lexists_def isl_def)
      obtain q where q: "f dir s = Some q"
        using run t e p(2) by (cases "f dir s") (auto simp: clone_step_def)
      with ih p(3) have "q = (Inr (), s)" by blast
      with run t e p q have "f (link_path p link) s \<noteq> None"
        by (cases "f (link_path p link) s") (auto simp: clone_step_def unlock_parent_def Let_def)
      with ih p(7) show False by blast
    next
      assume t: "t = s" and "lexists P (clone_target root_dir p) s"
      then obtain m where "symlink_metadata P (clone_target root_dir p) s = Inr m"
        by (cases "symlink_metadata P (clone_target root_dir p) s") (auto simp: lexists_def)
      with run t show "r = (Inr (), s)" by (simp add: clone_step_def)
    qed
  qed
  with assms(1) show ?thesis by (cases "clone_path zl P source root_dir s") auto
qed

text \<open>
  A path with two slashes in front is cloned onto itself: what is left of it without the first byte
  is absolute, so the root directory is lost, and the file that is there already counts as cloned.
\<close>

lemma clone_path_double_slash:
  "lexists P (slash # p) s \<Longrightarrow> clone_path zl P (slash # slash # p) root_dir s = Some (Inr (), s)"
  by (auto simp: clone_path_step[of zl P "slash # slash # p"] clone_step_def clone_target_def has_root_def push_def lexists_def isl_def Let_def
      split: sum.split)

text \<open>
  A failure while a link is followed returns with the directory of the target still writable: the
  state is the one the inner call left.
\<close>

lemma clone_path_unlocked:
  assumes "\<not> lexists P (clone_target root_dir source) s" and "parent source = Some dir"
    and "clone_path zl P dir root_dir s = Some (Inr (), s1)"
    and "symlink_metadata P source s1 = Inr md" and "p_symlink md"
    and "parent_lock P (clone_target root_dir source) s1 = Some (p, mode)"
    and "set_permissions P p (writable mode) s1 = (Inr (), s2)" and "read_link P source s2 = Inr link"
    and "clone_path zl P (link_path source link) root_dir s2 = Some (Inl e, s3)"
  shows "clone_path zl P source root_dir s = Some (Inl e, s3)"
  using assms
  by (auto simp: clone_path_step[of zl P source] clone_step_def unlock_parent_def clone_call_def lexists_def isl_def Let_def)

text \<open>
  A system of named nodes: a link holds a path, directories and files have their mode. The nodes of
  \<open>base\<close> never change.
\<close>

datatype node = LinkNode path | DirNode u32 | FileNode u32

type_synonym tree = "(path \<times> node) list"

fun node_meta :: "node \<Rightarrow> path_meta" where
  "node_meta (LinkNode _) = \<lparr>p_symlink = True, p_dir = False, p_file = False, p_mode = 0\<rparr>"
| "node_meta (DirNode m) = \<lparr>p_symlink = False, p_dir = True, p_file = False, p_mode = m\<rparr>"
| "node_meta (FileNode m) = \<lparr>p_symlink = False, p_dir = False, p_file = True, p_mode = m\<rparr>"

definition look :: "tree \<Rightarrow> path \<Rightarrow> tree \<Rightarrow> io_error + node" where
  "look base p t = (case map_of (base @ t) p of None \<Rightarrow> Inl (OsError ENOENT) | Some n \<Rightarrow> Inr n)"

definition add_node :: "tree \<Rightarrow> path \<Rightarrow> node \<Rightarrow> tree \<Rightarrow> (io_error + unit) \<times> tree" where
  "add_node base p n t = (case map_of (base @ t) p of
      None \<Rightarrow> (Inr (), (p, n) # t)
    | Some _ \<Rightarrow> (Inl (OsError EEXIST), t))"

definition ex_tree :: "tree \<Rightarrow> tree path_sys" where
  "ex_tree base = \<lparr>
    symlink_metadata = (\<lambda>p t. map_sum id node_meta (look base p t)),
    path_metadata = (\<lambda>p t. map_sum id node_meta (look base p t)),
    read_link = (\<lambda>p t. case look base p t of Inr (LinkNode q) \<Rightarrow> Inr q | _ \<Rightarrow> Inl (OsError EINVAL)),
    set_permissions = (\<lambda>p m t. (Inr (), (p, DirNode m) # t)),
    symlink = (\<lambda>q p. add_node base p (LinkNode q)),
    mkdir = (\<lambda>p m. add_node base p (DirNode m)),
    copy_file = (\<lambda>p q t. case add_node base q (FileNode 0) t of
        (Inl e, t) \<Rightarrow> Some (Inl (''open'', e), t)
      | (Inr _, t) \<Rightarrow> Some (Inr (), t))\<rparr>"

lemma ex_tree_lexists: "lexists (ex_tree base) p t \<longleftrightarrow> map_of (base @ t) p \<noteq> None"
  by (auto simp: lexists_def ex_tree_def look_def split: option.split)

lemma ex_tree_laws: "path_laws (ex_tree base)"
proof -
  have add: "creates (ex_tree base) (Some p) t (\<not> isl r) t'" if "add_node base p n t = (r, t')" for p n t r t'
    using that by (auto simp: creates_def ex_tree_lexists add_node_def map_add_def split: option.splits if_splits)
  then show ?thesis
    unfolding path_laws_def
    by (intro conjI allI impI)
      (auto simp: ex_tree_def creates_def[of _ None] ex_tree_lexists[unfolded ex_tree_def] map_add_def
        split: prod.splits sum.splits option.splits dest!: add[unfolded ex_tree_def])
qed

definition ex_base :: tree where
  "ex_base = [(bstr ''/'', DirNode 493), (bstr ''/f'', FileNode 420), (bstr ''/a'', LinkNode (bstr ''b'')),
    (bstr ''/b'', LinkNode (bstr ''/a'')), (bstr ''/r'', DirNode 493), (bstr ''/r/'', DirNode 493)]"

lemma ex_followed: "followed (ex_tree ex_base) {bstr ''/f'', bstr ''/''} length"
proof -
  have "parent (bstr ''/f'') = Some (bstr ''/'')" "parent (bstr ''/'') = None" by code_simp+
  moreover have "map_of ex_base (bstr ''/f'') = Some (FileNode 420)" "map_of ex_base (bstr ''/'') = Some (DirNode 493)"
    by code_simp+
  ultimately show ?thesis
    by (auto simp: followed_def ex_tree_def look_def add_node_def map_add_def simp del: bstr_Cons
        split: prod.splits option.splits)
qed


theorem clone_path_link_cycle_witness:
  "clone_path zip_longest_std (ex_tree ex_base) (bstr ''/a'') (bstr ''/r'') [] = None"
proof (rule clone_path_link_cycle[where C = "{bstr ''/a'', bstr ''/b''}"])
  have "parent (bstr ''/a'') = Some (bstr ''/'')" "parent (bstr ''/b'') = Some (bstr ''/'')"
    "clone_target (bstr ''/r'') (bstr ''/a'') = bstr ''/r/a''" "clone_target (bstr ''/r'') (bstr ''/b'') = bstr ''/r/b''"
    "clone_target (bstr ''/r'') (bstr ''/'') = bstr ''/r/''"
    "parent (bstr ''/r/a'') = Some (bstr ''/r'')" "parent (bstr ''/r/b'') = Some (bstr ''/r'')"
    "link_path (bstr ''/a'') (bstr ''b'') = bstr ''/b''" "link_path (bstr ''/b'') (bstr ''/a'') = bstr ''/a''"
    by code_simp+
  moreover have "map_of ex_base (bstr ''/a'') = Some (LinkNode (bstr ''b''))"
    "map_of ex_base (bstr ''/b'') = Some (LinkNode (bstr ''/a''))" "map_of ex_base (bstr ''/r'') = Some (DirNode 493)"
    "map_of ex_base (bstr ''/r/'') = Some (DirNode 493)" "map_of ex_base (bstr ''/r/a'') = None"
    "map_of ex_base (bstr ''/r/b'') = None"
    by code_simp+
  moreover have "\<not> readonly 493" by code_simp
  ultimately show "\<forall>p \<in> {bstr ''/a'', bstr ''/b''}. \<not> lexists (ex_tree ex_base) (clone_target (bstr ''/r'') p) [] \<and>
      (\<exists>dir md link. parent p = Some dir \<and> lexists (ex_tree ex_base) (clone_target (bstr ''/r'') dir) [] \<and>
        symlink_metadata (ex_tree ex_base) p [] = Inr md \<and> p_symlink md \<and> read_link (ex_tree ex_base) p [] = Inr link \<and>
        link_path p link \<in> {bstr ''/a'', bstr ''/b''}) \<and>
      parent_lock (ex_tree ex_base) (clone_target (bstr ''/r'') p) [] = None"
    by (simp add: ex_tree_lexists del: bstr_Cons) (simp add: ex_tree_def look_def parent_lock_def del: bstr_Cons)
qed simp

end
