(* ===== verification/Install.thy ===== *)
theory Install
  imports LddPool ClonePath
begin

text \<open>
  \<open>install_files_ldd\<close> of \<open>src/lib.rs\<close>: the dependency search over the given files, and the cloning of
  all it lists. The search looks at the file system as it is before the first clone.
\<close>

definition install_files_ldd ::
  "byteorder \<Rightarrow> endianness \<Rightarrow> zip_longest \<Rightarrow> 's path_sys \<Rightarrow> ('s \<Rightarrow> fs) \<Rightarrow>
    (nat \<Rightarrow> path set \<Rightarrow> path list) \<Rightarrow> (nat \<Rightarrow> nat) \<Rightarrow> nat \<Rightarrow> path \<Rightarrow> path list \<Rightarrow> 's \<Rightarrow> 's clone_res option" where
  "install_files_ldd bo native zl P fs_of order pick fuel destrootdir files s =
    (case ldd bo native (fs_of s) order pick fuel files True destrootdir of
      None \<Rightarrow> None
    | Some (Inl _) \<Rightarrow> Some (Inl Panic, s)
    | Some (Inr res) \<Rightarrow> install_files zl P destrootdir res s)"

lemma canonical_has_parent: "file_canonicalize_dir F f = Inr p \<Longrightarrow> parent p \<noteq> None"
proof -
  assume "file_canonicalize_dir F f = Inr p"
  then obtain d n where "file_name f = Some n" "p = push d n"
    by (auto simp: file_canonicalize_dir_def split: option.splits sum.splits)
  then have "file_name p = Some n" by (simp add: file_name_push_normal file_name_normal)
  then show ?thesis by (auto simp: file_name_def parent_def Let_def split: if_splits)
qed

text \<open>
  The given files are below the destination, or were there when the search began, and so are the
  libraries they need: \<open>V\<close> has the given files, it is closed under the search, and each place of it
  that holds a wanted library has an entry below the destination.
\<close>

definition files_complete ::
  "byteorder \<Rightarrow> endianness \<Rightarrow> 's path_sys \<Rightarrow> fs \<Rightarrow> path \<Rightarrow> path list \<Rightarrow> 's \<Rightarrow> bool" where
  "files_complete bo native P F dest files s' \<longleftrightarrow>
    (\<exists>paths V. map_res (file_canonicalize_dir F) files = Inr paths \<and>
      search_closed bo F (ldd_setup native F dest) paths V \<and>
      (\<forall>p \<in> set paths. fs_exists F (dest @ p) \<or> lexists P (clone_target dest p) s') \<and>
      (\<forall>p \<in> V. wanted F (ldd_setup native F dest) p \<longrightarrow> parent p = None \<or> lexists P (clone_target dest p) s'))"

lemma install_files_ldd_facts:
  assumes "path_laws P" and "orders_ok order"
    and "install_files_ldd bo native zl P fs_of order pick fuel dest files s = Some (Inr (), s')"
  shows "files_complete bo native P (fs_of s) dest files s'"
proof -
  let ?env = "ldd_setup native (fs_of s) dest"
  obtain res where res: "ldd bo native (fs_of s) order pick fuel files True dest = Some (Inr res)"
    and run: "install_files zl P dest res s = Some (Inr (), s')"
    using assms(3) by (auto simp: install_files_ldd_def split: option.splits sum.splits)
  obtain paths V where paths: "map_res (file_canonicalize_dir (fs_of s)) files = Inr paths"
    and listed: "set res = to_install (fs_of s) ?env paths V" and closed: "search_closed bo (fs_of s) ?env paths V"
    using ldd_result_facts[OF res assms(2)] by blast
  have made: "parent p = None \<or> lexists P (clone_target dest p) s'" if "p \<in> to_install (fs_of s) ?env paths V" for p
    using install_files_made[OF assms(1) run] that unfolding listed[symmetric] by (simp add: list_all_iff)
  have dest: "dest_path ?env = dest" by (simp add: ldd_setup_def ldd_new_def)
  have "fs_exists (fs_of s) (dest @ p) \<or> lexists P (clone_target dest p) s'" if "p \<in> set paths" for p
  proof -
    have "parent p \<noteq> None"
      using paths that canonical_has_parent by (fastforce simp: map_res_eq_Inr list_all2_iff in_set_zip in_set_conv_nth)
    with made[of p] closed that show ?thesis by (auto simp: to_install_def search_closed_def dest)
  qed
  moreover have "parent p = None \<or> lexists P (clone_target dest p) s'" if "p \<in> V" "wanted (fs_of s) ?env p" for p
    using made[of p] that by (simp add: to_install_def)
  ultimately show ?thesis
    using paths closed unfolding files_complete_def by blast
qed


definition ex_root :: tree where
  "ex_root = [(bstr ''/bin'', DirNode 493), (bstr ''/bin/x'', FileNode 493), (bstr ''/lib64'', DirNode 493),
    (bstr ''/lib64/libc.so.6'', FileNode 493), (bstr ''/dest/bin'', DirNode 493), (bstr ''/dest/lib64'', DirNode 493)]"

text \<open>A file whose directory is there already is copied.\<close>

lemma clone_path_file:
  assumes "map_of (base @ t) (clone_target root_dir source) = None" and "parent source = Some dir"
    and "map_of (base @ t) (clone_target root_dir dir) \<noteq> None" and "map_of (base @ t) source = Some (FileNode m)"
    and "parent (clone_target root_dir source) = Some d" and "map_of (base @ t) d = Some (DirNode 493)"
  shows "clone_path zl (ex_tree base) source root_dir t =
    Some (Inr (), (clone_target root_dir source, FileNode 0) # t)"
proof -
  have "\<not> readonly 493" by code_simp
  with assms have lock: "parent_lock (ex_tree base) (clone_target root_dir source) t = None"
    by (simp add: parent_lock_def ex_tree_def look_def)
  obtain n where n: "map_of (base @ t) (clone_target root_dir dir) = Some n" using assms(3) by blast
  have "clone_path zl (ex_tree base) dir root_dir t = Some (Inr (), t)"
    by (subst clone_path_step) (simp only: clone_step_def Let_def, simp add: ex_tree_def look_def n del: map_of_append)
  with assms lock show ?thesis
    by (subst clone_path_step) (simp add: clone_step_def Let_def unlock_parent_def clone_plain_def path_is_def
        ex_tree_def look_def add_node_def clone_finish_def lock_parent_def del: map_of_append)
qed

lemma ex_install:
  "install_files zip_longest_std (ex_tree ex_root) (bstr ''/dest'') [bstr ''/bin/x'', bstr ''/lib64/libc.so.6''] [] =
    Some (Inr (), [(bstr ''/dest/lib64/libc.so.6'', FileNode 0), (bstr ''/dest/bin/x'', FileNode 0)])"
proof -
  have target: "clone_target (bstr ''/dest'') (bstr ''/bin/x'') = bstr ''/dest/bin/x''"
    "clone_target (bstr ''/dest'') (bstr ''/lib64/libc.so.6'') = bstr ''/dest/lib64/libc.so.6''"
    by code_simp+
  have "clone_path zip_longest_std (ex_tree ex_root) (bstr ''/bin/x'') (bstr ''/dest'') [] =
      Some (Inr (), [(bstr ''/dest/bin/x'', FileNode 0)])"
    unfolding target(1)[symmetric]
    by (rule clone_path_file[where dir = "bstr ''/bin''" and d = "bstr ''/dest/bin''" and m = 493]) code_simp+
  moreover have "clone_path zip_longest_std (ex_tree ex_root) (bstr ''/lib64/libc.so.6'') (bstr ''/dest'')
        [(bstr ''/dest/bin/x'', FileNode 0)] =
      Some (Inr (), [(bstr ''/dest/lib64/libc.so.6'', FileNode 0), (bstr ''/dest/bin/x'', FileNode 0)])"
    unfolding target(2)[symmetric]
    by (rule clone_path_file[where dir = "bstr ''/lib64''" and d = "bstr ''/dest/lib64''" and m = 493]) code_simp+
  ultimately show ?thesis by (simp del: bstr_Cons)
qed

lemma ex_install_ldd:
  "install_files_ldd byteorder_std LittleEndian zip_longest_std (ex_tree ex_root) (\<lambda>_. ex_fs) ex_order (\<lambda>_. 0) 3
      (bstr ''/dest'') [bstr ''/bin/x''] [] =
    Some (Inr (), [(bstr ''/dest/lib64/libc.so.6'', FileNode 0), (bstr ''/dest/bin/x'', FileNode 0)])"
  by (simp only: install_files_ldd_def ex_ldd ex_install option.case sum.case)


end
