(* ===== verification/Utf8.thy ===== *)
theory Utf8
  imports RustStd
begin

text \<open>
  The parts of \<open>std::str\<close> that look at bytes as text: \<open>from_utf8_lossy\<close>, which puts U+FFFD in the
  place of every longest part that is not UTF-8, and \<open>to_str\<close>, which has a value for valid text only.
\<close>

abbreviation replacement :: bytes where "replacement \<equiv> [0xEF, 0xBF, 0xBD]"

definition cont :: "u8 \<Rightarrow> bool" where "cont b \<longleftrightarrow> 0x80 \<le> b \<and> b \<le> 0xBF"

text \<open>Which bytes may follow the first one of a sequence of three or four.\<close>

definition second3 :: "u8 \<Rightarrow> u8 \<Rightarrow> bool" where
  "second3 b c \<longleftrightarrow> (if b = 0xE0 then 0xA0 \<le> c \<and> c \<le> 0xBF
    else if b = 0xED then 0x80 \<le> c \<and> c \<le> 0x9F else cont c)"

definition second4 :: "u8 \<Rightarrow> u8 \<Rightarrow> bool" where
  "second4 b c \<longleftrightarrow> (if b = 0xF0 then 0x90 \<le> c \<and> c \<le> 0xBF
    else if b = 0xF4 then 0x80 \<le> c \<and> c \<le> 0x8F else cont c)"

text \<open>The length of the part at the front, and whether it is a character.\<close>

definition utf8_part :: "u8 \<Rightarrow> bytes \<Rightarrow> nat \<times> bool" where
  "utf8_part b bs =
    (let ok = (\<lambda>i q. i < length bs \<and> q (bs ! i)) in
     if b < 0x80 then (1, True)
     else if 0xC2 \<le> b \<and> b \<le> 0xDF then (if ok 0 cont then (2, True) else (1, False))
     else if 0xE0 \<le> b \<and> b \<le> 0xEF then
       (if \<not> ok 0 (second3 b) then (1, False) else if ok 1 cont then (3, True) else (2, False))
     else if 0xF0 \<le> b \<and> b \<le> 0xF4 then
       (if \<not> ok 0 (second4 b) then (1, False) else if \<not> ok 1 cont then (2, False)
        else if ok 2 cont then (4, True) else (3, False))
     else (1, False))"

lemma utf8_part_length: "utf8_part b bs = (n, valid) \<Longrightarrow> 0 < n"
  by (auto simp: utf8_part_def Let_def split: if_splits)

function from_utf8_lossy :: "bytes \<Rightarrow> bytes" where
  "from_utf8_lossy [] = []"
| "from_utf8_lossy (b # bs) =
    (case utf8_part b bs of (n, valid) \<Rightarrow>
      (if valid then take n (b # bs) else replacement) @ from_utf8_lossy (drop n (b # bs)))"
  by pat_completeness auto
termination
  by (relation "measure length") (auto dest!: utf8_part_length[OF sym])

declare from_utf8_lossy.simps(2) [simp del]

definition to_str :: "bytes \<Rightarrow> bytes option" where
  "to_str b = (if from_utf8_lossy b = b then Some b else None)"

lemma from_utf8_lossy_ascii: "list_all (\<lambda>b. b < 0x80) bs \<Longrightarrow> from_utf8_lossy bs = bs"
  by (induction bs) (simp_all add: from_utf8_lossy.simps(2) utf8_part_def)

lemma to_str_ascii: "list_all (\<lambda>b. b < 0x80) bs \<Longrightarrow> to_str bs = Some bs"
  by (simp add: to_str_def from_utf8_lossy_ascii)

end
