(* ===== verification/Kmod.thy ===== *)
theory Kmod
  imports Utf8
begin

text \<open>
  The crate \<open>kmod\<close>: the wrappers of \<open>kmod/src/ctx.rs\<close> and \<open>kmod/src/modules.rs\<close> around libkmod. The C
  library is a parameter: pointers are numbers with 0 for null, a string result is missing when the
  pointer is null, and a call that fails returns a negative number and leaves a value in \<open>errno\<close>.
  The trace messages are left out; references are in \<open>KmodRefs\<close>.
\<close>

section \<open>The library\<close>

type_synonym ptr = nat
type_synonym list_ret = "int \<times> nat \<times> ptr"

record 's kmod_sys =
  kmod_new :: "bytes option \<Rightarrow> bytes list option \<Rightarrow> ptr"
  kmod_get_dirname :: "ptr \<Rightarrow> bytes"
  kmod_module_new_from_loaded :: "ptr \<Rightarrow> list_ret"
  kmod_module_new_from_lookup :: "ptr \<Rightarrow> bytes \<Rightarrow> list_ret"
  kmod_module_new_from_path :: "ptr \<Rightarrow> bytes \<Rightarrow> list_ret"
  kmod_module_new_from_name :: "ptr \<Rightarrow> bytes \<Rightarrow> list_ret"
  kmod_list_next :: "ptr \<Rightarrow> ptr \<Rightarrow> ptr"
  kmod_module_get_module :: "ptr \<Rightarrow> ptr"
  kmod_module_dependency_symbol_get_symbol :: "ptr \<Rightarrow> bytes option"
  kmod_module_get_name :: "ptr \<Rightarrow> bytes option"
  kmod_module_get_size :: "ptr \<Rightarrow> int"
  kmod_module_get_refcnt :: "ptr \<Rightarrow> int"
  kmod_module_get_holders :: "ptr \<Rightarrow> ptr"
  kmod_module_get_dependencies :: "ptr \<Rightarrow> ptr"
  kmod_module_get_softdeps :: "ptr \<Rightarrow> int \<times> nat \<times> ptr \<times> ptr"
  kmod_module_get_dependency_symbols :: "ptr \<Rightarrow> list_ret"
  kmod_module_get_path :: "ptr \<Rightarrow> bytes option"
  kmod_module_get_options :: "ptr \<Rightarrow> bytes option"
  kmod_module_insert_module :: "ptr \<Rightarrow> u32 \<Rightarrow> bytes \<Rightarrow> 's \<Rightarrow> (int \<times> nat) \<times> 's"
  kmod_module_remove_module :: "ptr \<Rightarrow> u32 \<Rightarrow> 's \<Rightarrow> (int \<times> nat) \<times> 's"

section \<open>The wrappers\<close>

datatype kmod_error = Generic string | Errno nat | NulError

type_synonym 'a kmod_result = "(kmod_error, 'a) res"

text \<open>\<open>CString::new\<close>.\<close>

definition cstring :: "bytes \<Rightarrow> bytes kmod_result" where
  "cstring b = (if 0 \<in> set b then Inl (Fail NulError) else Inr b)"

text \<open>
  \<open>CString::new(..).unwrap_or_else(|_| unreachable_unchecked())\<close>: undefined behaviour for a string
  with a 0 byte, which is shown as a panic.
\<close>

definition cstring_unchecked :: "bytes \<Rightarrow> bytes kmod_result" where
  "cstring_unchecked b = (if 0 \<in> set b then Inl Panic else Inr b)"

definition context_of :: "ptr \<Rightarrow> ptr kmod_result" where
  "context_of ctx = (if ctx = 0 then Inl (Fail (Generic ''kmod_new failed'')) else Inr ctx)"

definition context_new :: "'s kmod_sys \<Rightarrow> ptr kmod_result" where
  "context_new K = context_of (kmod_new K None None)"

definition context_new_with ::
  "'s kmod_sys \<Rightarrow> bytes option \<Rightarrow> bytes list option \<Rightarrow> ptr kmod_result" where
  "context_new_with K dirname config_paths =
    (case dirname of
      Some d \<Rightarrow> bind_res (cstring_unchecked d) (\<lambda>c.
        (case config_paths of
          Some cp \<Rightarrow> bind_res (map_res cstring_unchecked cp) (\<lambda>cvec. context_of (kmod_new K (Some c) (Some cvec)))
        | None \<Rightarrow> context_of (kmod_new K (Some c) None)))
    | None \<Rightarrow>
        (case config_paths of
          Some cp \<Rightarrow> bind_res (map_res cstring_unchecked cp) (\<lambda>cvec. context_of (kmod_new K None (Some cvec)))
        | None \<Rightarrow> context_of (kmod_new K None None)))"

record list_iter =
  li_list :: ptr
  li_iter :: ptr

text \<open>\<open>ModuleIterator::new\<close>, \<open>SymbolIterator::new\<close> and \<open>Module::new\<close> with its assertion.\<close>

definition iterator_new :: "ptr \<Rightarrow> list_iter" where
  "iterator_new l = \<lparr>li_list = l, li_iter = l\<rparr>"

definition module_new :: "ptr \<Rightarrow> ('e, ptr) res" where
  "module_new m = (if m = 0 then Inl Panic else Inr m)"

text \<open>A negative return value is an error, and the error is what \<open>errno\<close> holds.\<close>

definition iterator_of :: "list_ret \<Rightarrow> list_iter kmod_result" where
  "iterator_of r = (case r of (ret, errno, l) \<Rightarrow>
    if ret < 0 then Inl (Fail (Errno errno)) else Inr (iterator_new l))"

definition module_of :: "list_ret \<Rightarrow> ptr kmod_result" where
  "module_of r = (case r of (ret, errno, m) \<Rightarrow>
    if ret < 0 then Inl (Fail (Errno errno)) else module_new m)"

definition modules_loaded :: "'s kmod_sys \<Rightarrow> ptr \<Rightarrow> list_iter kmod_result" where
  "modules_loaded K ctx = iterator_of (kmod_module_new_from_loaded K ctx)"

definition module_new_from_lookup :: "'s kmod_sys \<Rightarrow> ptr \<Rightarrow> bytes \<Rightarrow> list_iter kmod_result" where
  "module_new_from_lookup K ctx alias =
    bind_res (cstring alias) (\<lambda>alias. iterator_of (kmod_module_new_from_lookup K ctx alias))"

definition module_new_from_path :: "'s kmod_sys \<Rightarrow> ptr \<Rightarrow> bytes \<Rightarrow> ptr kmod_result" where
  "module_new_from_path K ctx filename =
    bind_res (cstring filename) (\<lambda>filename. module_of (kmod_module_new_from_path K ctx filename))"

definition module_new_from_name :: "'s kmod_sys \<Rightarrow> ptr \<Rightarrow> bytes \<Rightarrow> ptr kmod_result" where
  "module_new_from_name K ctx name =
    bind_res (cstring name) (\<lambda>name. module_of (kmod_module_new_from_name K ctx name))"

definition dirname :: "'s kmod_sys \<Rightarrow> ptr \<Rightarrow> bytes" where
  "dirname K ctx = kmod_get_dirname K ctx"

definition mod_name :: "'s kmod_sys \<Rightarrow> ptr \<Rightarrow> bytes option" where
  "mod_name K m = kmod_module_get_name K m"

definition module_size :: "'s kmod_sys \<Rightarrow> ptr \<Rightarrow> int" where
  "module_size K m = kmod_module_get_size K m"

definition module_refcount :: "'s kmod_sys \<Rightarrow> ptr \<Rightarrow> int" where
  "module_refcount K m = kmod_module_get_refcnt K m"

definition module_holders :: "'s kmod_sys \<Rightarrow> ptr \<Rightarrow> list_iter" where
  "module_holders K m = iterator_new (kmod_module_get_holders K m)"

definition module_dependencies :: "'s kmod_sys \<Rightarrow> ptr \<Rightarrow> list_iter" where
  "module_dependencies K m = iterator_new (kmod_module_get_dependencies K m)"

definition soft_dependencies :: "'s kmod_sys \<Rightarrow> ptr \<Rightarrow> (list_iter \<times> list_iter) kmod_result" where
  "soft_dependencies K m = (case kmod_module_get_softdeps K m of (ret, errno, pre, post) \<Rightarrow>
    if ret < 0 then Inl (Fail (Errno errno)) else Inr (iterator_new pre, iterator_new post))"

definition dependency_symbols :: "'s kmod_sys \<Rightarrow> ptr \<Rightarrow> list_iter kmod_result" where
  "dependency_symbols K m = iterator_of (kmod_module_get_dependency_symbols K m)"

definition module_path :: "'s kmod_sys \<Rightarrow> ptr \<Rightarrow> bytes option" where
  "module_path K m = kmod_module_get_path K m"

definition module_options :: "'s kmod_sys \<Rightarrow> ptr \<Rightarrow> bytes option" where
  "module_options K m = kmod_module_get_options K m"

text \<open>\<open>join(" ")\<close>.\<close>

fun join_space :: "bytes list \<Rightarrow> bytes" where
  "join_space [] = []"
| "join_space [x] = x"
| "join_space (x # xs) = x @ [32] @ join_space xs"

definition unit_of :: "(int \<times> nat) \<times> 's \<Rightarrow> unit kmod_result \<times> 's" where
  "unit_of r = (case r of ((ret, errno), s) \<Rightarrow> (if ret < 0 then Inl (Fail (Errno errno)) else Inr (), s))"

definition insert_module ::
  "'s kmod_sys \<Rightarrow> ptr \<Rightarrow> u32 \<Rightarrow> bytes list \<Rightarrow> 's \<Rightarrow> unit kmod_result \<times> 's" where
  "insert_module K m flags opts s = (case cstring (join_space opts) of
      Inl e \<Rightarrow> (Inl e, s)
    | Inr opts \<Rightarrow> unit_of (kmod_module_insert_module K m flags opts s))"

definition remove_module :: "'s kmod_sys \<Rightarrow> ptr \<Rightarrow> u32 \<Rightarrow> 's \<Rightarrow> unit kmod_result \<times> 's" where
  "remove_module K m flags s = unit_of (kmod_module_remove_module K m flags s)"

section \<open>The iterators\<close>

definition module_next :: "'s kmod_sys \<Rightarrow> list_iter \<Rightarrow> ('e, ptr option \<times> list_iter) res" where
  "module_next K it =
    (if li_iter it = 0 then Inr (None, it)
     else
       let module = kmod_module_get_module K (li_iter it);
           newiter = kmod_list_next K (li_list it) (li_iter it)
       in bind_res (module_new module) (\<lambda>m. Inr (Some m, it\<lparr>li_iter := newiter\<rparr>)))"

definition symbol_next :: "'s kmod_sys \<Rightarrow> list_iter \<Rightarrow> ('e, bytes option \<times> list_iter) res" where
  "symbol_next K it =
    (if li_iter it = 0 then Inr (None, it)
     else
       let symbol = kmod_module_dependency_symbol_get_symbol K (li_iter it);
           new_iter = kmod_list_next K (li_list it) (li_iter it)
       in (case symbol of
             None \<Rightarrow> Inl Panic
           | Some symbol \<Rightarrow> Inr (Some (from_utf8_lossy symbol), it\<lparr>li_iter := new_iter\<rparr>)))"

text \<open>
  A \<open>for\<close> loop over an iterator, with the state the body works on. It ends when the iterator does, or
  when the body returns early with a value.
\<close>

partial_function (option) for_iter ::
  "('i \<Rightarrow> ('e, 'a option \<times> 'i) res) \<Rightarrow> ('a \<Rightarrow> 'v \<Rightarrow> (('e, 'r option) res \<times> 'v) option) \<Rightarrow>
    'i \<Rightarrow> 'v \<Rightarrow> (('e, 'r option) res \<times> 'v) option" where
  "for_iter next body it v =
    (case next it of
      Inl e \<Rightarrow> Some (Inl e, v)
    | Inr (x, it) \<Rightarrow> (case x of
        None \<Rightarrow> Some (Inr None, v)
      | Some a \<Rightarrow> Option.bind (body a v) (\<lambda>(r, v). case r of
          Inl e \<Rightarrow> Some (Inl e, v)
        | Inr (Some q) \<Rightarrow> Some (Inr (Some q), v)
        | Inr None \<Rightarrow> for_iter next body it v)))"

text \<open>The same over the list of what the iterator delivers.\<close>

fun for_list ::
  "('a \<Rightarrow> 'v \<Rightarrow> (('e, 'r option) res \<times> 'v) option) \<Rightarrow> ('e, 'a) res list \<Rightarrow> 'v \<Rightarrow>
    (('e, 'r option) res \<times> 'v) option" where
  "for_list body [] v = Some (Inr None, v)"
| "for_list body (Inl e # xs) v = Some (Inl e, v)"
| "for_list body (Inr a # xs) v = Option.bind (body a v) (\<lambda>(r, v). case r of
      Inl e \<Rightarrow> Some (Inl e, v)
    | Inr (Some q) \<Rightarrow> Some (Inr (Some q), v)
    | Inr None \<Rightarrow> for_list body xs v)"

text \<open>The contract of an iterator over a finite list.\<close>

locale cursor =
  fixes next_item :: "'i \<Rightarrow> ('e, 'a option \<times> 'i) res" and items :: "'i \<Rightarrow> ('e, 'a) res list \<Rightarrow> bool"
  assumes ended: "items it [] \<Longrightarrow> \<exists>it'. next_item it = Inr (None, it')"
    and broken: "items it (Inl e # xs) \<Longrightarrow> next_item it = Inl e"
    and delivered: "items it (Inr a # xs) \<Longrightarrow> \<exists>it'. next_item it = Inr (Some a, it') \<and> items it' xs"
begin

lemma for_iter_items: "items it xs \<Longrightarrow> for_iter next_item body it v = for_list body xs v"
proof (induction xs arbitrary: it v)
  case Nil
  from ended[OF Nil] show ?case by (subst for_iter.simps) auto
next
  case (Cons x xs)
  show ?case
  proof (cases x)
    case (Inl e)
    with broken Cons.prems show ?thesis by (subst for_iter.simps) simp
  next
    case (Inr a)
    with delivered Cons.prems obtain it' where it': "next_item it = Inr (Some a, it')" "items it' xs" by blast
    with Cons.IH have "for_iter next_item body it' v = for_list body xs v" for v by blast
    with it'(1) Inr show ?thesis
      by (subst for_iter.simps) (simp cong: option.case_cong sum.case_cong)
  qed
qed

end

text \<open>The entries of a list of the library, from a pointer into it.\<close>

fun chain :: "'s kmod_sys \<Rightarrow> ptr \<Rightarrow> ptr \<Rightarrow> ptr list \<Rightarrow> bool" where
  "chain K l p [] \<longleftrightarrow> p = 0"
| "chain K l p (q # qs) \<longleftrightarrow> p = q \<and> q \<noteq> 0 \<and> chain K l (kmod_list_next K l q) qs"

definition module_entry :: "'s kmod_sys \<Rightarrow> ptr \<Rightarrow> ('e, ptr) res" where
  "module_entry K p = module_new (kmod_module_get_module K p)"

definition symbol_entry :: "'s kmod_sys \<Rightarrow> ptr \<Rightarrow> ('e, bytes) res" where
  "symbol_entry K p = (case kmod_module_dependency_symbol_get_symbol K p of
      None \<Rightarrow> Inl Panic | Some b \<Rightarrow> Inr (from_utf8_lossy b))"

definition module_items :: "'s kmod_sys \<Rightarrow> list_iter \<Rightarrow> ('e, ptr) res list \<Rightarrow> bool" where
  "module_items K it xs \<longleftrightarrow> (\<exists>ps. chain K (li_list it) (li_iter it) ps \<and> xs = map (module_entry K) ps)"

definition symbol_items :: "'s kmod_sys \<Rightarrow> list_iter \<Rightarrow> ('e, bytes) res list \<Rightarrow> bool" where
  "symbol_items K it xs \<longleftrightarrow> (\<exists>ps. chain K (li_list it) (li_iter it) ps \<and> xs = map (symbol_entry K) ps)"

text \<open>One call of \<open>next\<close> in the middle of a list.\<close>

lemma module_next_eq: "module_next K it = (if li_iter it = 0 then Inr (None, it)
    else bind_res (module_entry K (li_iter it)) (\<lambda>m.
      Inr (Some m, it\<lparr>li_iter := kmod_list_next K (li_list it) (li_iter it)\<rparr>)))"
  by (simp add: module_next_def module_entry_def Let_def)

lemma symbol_next_eq: "symbol_next K it = (if li_iter it = 0 then Inr (None, it)
    else bind_res (symbol_entry K (li_iter it)) (\<lambda>b.
      Inr (Some b, it\<lparr>li_iter := kmod_list_next K (li_list it) (li_iter it)\<rparr>)))"
  by (simp add: symbol_next_def symbol_entry_def Let_def split: option.split)

interpretation module_list: cursor "module_next K" "module_items K" for K :: "'s kmod_sys"
proof
  fix it :: list_iter and e :: "'e fault" and a :: ptr and xs :: "('e, ptr) res list"
  show "module_items K it ([] :: ('e, ptr) res list) \<Longrightarrow> \<exists>it'. (module_next K it :: ('e, _) res) = Inr (None, it')"
    by (auto simp: module_items_def module_next_eq)
  show "module_next K it = Inl e" if items: "module_items K it (Inl e # xs)"
  proof -
    from items[unfolded module_items_def] obtain ps where "chain K (li_list it) (li_iter it) ps" "Inl e # xs = map (module_entry K) ps"
      by (elim exE conjE)
    then have "li_iter it \<noteq> 0" "module_entry K (li_iter it) = (Inl e :: ('e, ptr) res)"
      by (cases ps; simp)+
    then show ?thesis by (simp add: module_next_eq)
  qed
  show "\<exists>it'. (module_next K it :: ('e, _) res) = Inr (Some a, it') \<and> module_items K it' xs" if items: "module_items K it (Inr a # xs)"
  proof -
    from items[unfolded module_items_def] obtain ps where "chain K (li_list it) (li_iter it) ps" "Inr a # xs = map (module_entry K) ps"
      by (elim exE conjE)
    then have "li_iter it \<noteq> 0" "module_entry K (li_iter it) = (Inr a :: ('e, ptr) res)"
      "xs = map (module_entry K) (tl ps)" "chain K (li_list it) (kmod_list_next K (li_list it) (li_iter it)) (tl ps)"
      by (cases ps; simp)+
    then show ?thesis by (auto simp: module_next_eq module_items_def)
  qed
qed

interpretation symbol_list: cursor "symbol_next K" "symbol_items K" for K :: "'s kmod_sys"
proof
  fix it :: list_iter and e :: "'e fault" and a :: bytes and xs :: "('e, bytes) res list"
  show "symbol_items K it ([] :: ('e, bytes) res list) \<Longrightarrow> \<exists>it'. (symbol_next K it :: ('e, _) res) = Inr (None, it')"
    by (auto simp: symbol_items_def symbol_next_eq)
  show "symbol_next K it = Inl e" if items: "symbol_items K it (Inl e # xs)"
  proof -
    from items[unfolded symbol_items_def] obtain ps where "chain K (li_list it) (li_iter it) ps" "Inl e # xs = map (symbol_entry K) ps"
      by (elim exE conjE)
    then have "li_iter it \<noteq> 0" "symbol_entry K (li_iter it) = (Inl e :: ('e, bytes) res)"
      by (cases ps; simp)+
    then show ?thesis by (simp add: symbol_next_eq)
  qed
  show "\<exists>it'. (symbol_next K it :: ('e, _) res) = Inr (Some a, it') \<and> symbol_items K it' xs" if items: "symbol_items K it (Inr a # xs)"
  proof -
    from items[unfolded symbol_items_def] obtain ps where "chain K (li_list it) (li_iter it) ps" "Inr a # xs = map (symbol_entry K) ps"
      by (elim exE conjE)
    then have "li_iter it \<noteq> 0" "symbol_entry K (li_iter it) = (Inr a :: ('e, bytes) res)"
      "xs = map (symbol_entry K) (tl ps)" "chain K (li_list it) (kmod_list_next K (li_list it) (li_iter it)) (tl ps)"
      by (cases ps; simp)+
    then show ?thesis by (auto simp: symbol_next_eq symbol_items_def)
  qed
qed

end
