(* ===== verification/RunContext.thy ===== *)
theory RunContext
  imports RustPath
begin

text \<open>
  The options of a run, \<open>RunContext\<close> of \<open>src/lib.rs\<close>. A compiled regular expression is the set of
  byte strings it matches; the logger is left out.
\<close>

datatype level = Critical | Error | Warning | Info | Debug | Trace

type_synonym regex = "bytes \<Rightarrow> bool"

record run_context =
  hmac :: bool
  createdir :: bool
  optional :: bool
  silent :: bool
  all_sources :: bool
  kernel_module :: bool
  modalias :: bool
  resolvelazy :: bool
  resolvedeps :: bool
  hostonly :: bool
  loglevel :: level
  destrootdir :: path
  kerneldir :: "bytes option"
  logdir :: "bytes option"
  mod_filter_path :: "regex option"
  mod_filter_nopath :: "regex option"
  mod_filter_symbol :: "regex option"
  mod_filter_nosymbol :: "regex option"
  mod_filter_noname :: "regex option"
  firmwaredirs :: "bytes list"
  pathdirs :: "bytes list"

definition run_context_default :: run_context where
  "run_context_default = \<lparr>hmac = False, createdir = False, optional = False, silent = False,
    all_sources = False, kernel_module = False, modalias = False, resolvelazy = False,
    resolvedeps = False, hostonly = False, loglevel = Critical, destrootdir = [], kerneldir = None,
    logdir = None, mod_filter_path = None, mod_filter_nopath = None, mod_filter_symbol = None,
    mod_filter_nosymbol = None, mod_filter_noname = None, firmwaredirs = [], pathdirs = []\<rparr>"

text \<open>\<open>if let Some(ref r) = filter { if r.is_match(b) .. }\<close>.\<close>

definition filter_matches :: "regex option \<Rightarrow> bytes \<Rightarrow> bool" where
  "filter_matches flt b = (case flt of None \<Rightarrow> False | Some r \<Rightarrow> r b)"

end
