(* ===== verification/InstallModules.thy ===== *)
theory InstallModules
  imports Kmod RunContext
begin

text \<open>
  The modules part of \<open>src/lib.rs\<close>: the filters on name, path and symbols of a module, and
  \<open>install_module\<close>, which collects the paths of a module and of all it depends on. libkmod is a
  parameter, its lists are read through the iterators of the kmod crate. Log messages are left out.
\<close>

section \<open>The code\<close>

text \<open>The body of the loop over the symbols; it returns early with the decision.\<close>

definition symbol_body ::
  "run_context \<Rightarrow> bytes \<Rightarrow> unit \<Rightarrow> (('e, bool option) res \<times> unit) option" where
  "symbol_body ctx symbol v =
    (if filter_matches (mod_filter_nosymbol ctx) symbol then Some (Inr (Some False), v)
     else if filter_matches (mod_filter_symbol ctx) symbol then Some (Inr (Some True), v)
     else Some (Inr None, v))"

definition filter_module_name_path_symbols ::
  "'s kmod_sys \<Rightarrow> run_context \<Rightarrow> ptr \<Rightarrow> bytes \<Rightarrow> ('e, bool) res option" where
  "filter_module_name_path_symbols K ctx m path =
    (if (case mod_name K m of None \<Rightarrow> False | Some name \<Rightarrow> filter_matches (mod_filter_noname ctx) name)
     then Some (Inr False)
     else if filter_matches (mod_filter_nopath ctx) path then Some (Inr False)
     else if (case mod_filter_path ctx of None \<Rightarrow> False | Some r \<Rightarrow> \<not> r path) then Some (Inr False)
     else if mod_filter_nosymbol ctx = None \<and> mod_filter_symbol ctx = None then Some (Inr True)
     else (case dependency_symbols K m of
         Inl _ \<Rightarrow> Some (Inr True)
       | Inr sit \<Rightarrow>
           map_option (\<lambda>(r, _). case r of
               Inl e \<Rightarrow> Inl e
             | Inr None \<Rightarrow> Inr False
             | Inr (Some decision) \<Rightarrow> Inr decision)
             (for_iter (symbol_next K) (symbol_body ctx) sit ())))"

datatype install_error = NoModuleName | FailedLookup bytes

type_synonym install_res = "(install_error, unit) res \<times> path set"

text \<open>A call in the body of a loop, whose error ends the loop.\<close>

definition try_call ::
  "install_res option \<Rightarrow> ((install_error, unit option) res \<times> path set) option" where
  "try_call r = map_option (\<lambda>(q, V). (map_sum id (\<lambda>_. None) q, V)) r"

text \<open>The body of the loop over the soft dependencies; \<open>install\<close> is the recursive call.\<close>

definition soft_body ::
  "'s kmod_sys \<Rightarrow> ptr \<Rightarrow> (ptr \<Rightarrow> path set \<Rightarrow> install_res option) \<Rightarrow> ptr \<Rightarrow> path set \<Rightarrow>
    ((install_error, unit option) res \<times> path set) option" where
  "soft_body K kmod_ctx install pre_mod visited = (case mod_name K pre_mod of
      None \<Rightarrow> Some (Inl (Fail NoModuleName), visited)
    | Some name \<Rightarrow> (case module_new_from_lookup K kmod_ctx name of
        Inl _ \<Rightarrow> Some (Inl (Fail (FailedLookup name)), visited)
      | Inr it \<Rightarrow> for_iter (module_next K) (\<lambda>m visited. try_call (install m visited)) it visited))"

text \<open>The fuel bounds the depth of the recursion.\<close>

fun install_module ::
  "nat \<Rightarrow> 's kmod_sys \<Rightarrow> run_context \<Rightarrow> ptr \<Rightarrow> ptr \<Rightarrow> path set \<Rightarrow> bool \<Rightarrow> install_res option" where
  "install_module 0 K ctx kmod_ctx m visited filtered = None"
| "install_module (Suc n) K ctx kmod_ctx m visited filtered =
    (case module_path K m of
      None \<Rightarrow> Some (Inr (), visited)
    | Some path \<Rightarrow>
        (case (if filtered then filter_module_name_path_symbols K ctx m path else Some (Inr True)) of
          None \<Rightarrow> None
        | Some (Inl e) \<Rightarrow> Some (Inl e, visited)
        | Some (Inr pass) \<Rightarrow>
            if \<not> pass then Some (Inr (), visited)
            else if path \<in> visited then Some (Inr (), visited)
            else
              (let install = (\<lambda>m visited. install_module n K ctx kmod_ctx m visited False) in
               case for_iter (module_next K) (\<lambda>m visited. try_call (install m visited))
                  (module_dependencies K m) (insert path visited) of
                None \<Rightarrow> None
              | Some (Inl e, visited) \<Rightarrow> Some (Inl e, visited)
              | Some (Inr _, visited) \<Rightarrow>
                  (case soft_dependencies K m of
                    Inl _ \<Rightarrow> Some (Inr (), visited)
                  | Inr (pre, _) \<Rightarrow>
                      map_option (\<lambda>(r, visited). (map_sum id (\<lambda>_. ()) r, visited))
                        (for_iter (module_next K) (soft_body K kmod_ctx install) pre visited)))))"

declare install_module.simps(2) [simp del]

section \<open>The filters\<close>

text \<open>The decision of the first symbol that matches one of the two filters.\<close>

fun symbols_decide :: "run_context \<Rightarrow> bytes list \<Rightarrow> bool" where
  "symbols_decide ctx [] = False"
| "symbols_decide ctx (b # bs) =
    (if filter_matches (mod_filter_nosymbol ctx) b then False
     else if filter_matches (mod_filter_symbol ctx) b then True
     else symbols_decide ctx bs)"

lemma symbol_loop:
  "for_list (symbol_body ctx) (map Inr bs) () = Some (Inr (if list_all (\<lambda>b.
      \<not> filter_matches (mod_filter_nosymbol ctx) b \<and> \<not> filter_matches (mod_filter_symbol ctx) b) bs
    then None else Some (symbols_decide ctx bs)), ())"
  by (induction bs) (auto simp: symbol_body_def)

lemma undecided: "list_all (\<lambda>b. \<not> filter_matches (mod_filter_nosymbol ctx) b \<and>
    \<not> filter_matches (mod_filter_symbol ctx) b) bs \<Longrightarrow> \<not> symbols_decide ctx bs"
  by (induction bs) auto

lemma symbols_decide_first:
  "symbols_decide ctx bs \<longleftrightarrow>
    (case dropWhile (\<lambda>b. \<not> filter_matches (mod_filter_nosymbol ctx) b \<and> \<not> filter_matches (mod_filter_symbol ctx) b) bs of
       [] \<Rightarrow> False
     | b # _ \<Rightarrow> \<not> filter_matches (mod_filter_nosymbol ctx) b)"
  by (induction bs) auto

lemma filter_result:
  assumes "dependency_symbols K m = Inr sit" and "symbol_items K sit (map Inr bs :: ('e, bytes) res list)"
  shows "filter_module_name_path_symbols K ctx m path = Some (Inr
    (\<not> (case mod_name K m of None \<Rightarrow> False | Some name \<Rightarrow> filter_matches (mod_filter_noname ctx) name) \<and>
     \<not> filter_matches (mod_filter_nopath ctx) path \<and>
     (case mod_filter_path ctx of None \<Rightarrow> True | Some r \<Rightarrow> r path) \<and>
     (mod_filter_nosymbol ctx = None \<and> mod_filter_symbol ctx = None \<or> symbols_decide ctx bs)) :: ('e, bool) res)"
proof -
  have "for_iter (symbol_next K) (symbol_body ctx) sit () =
      (Some (Inr (if list_all (\<lambda>b. \<not> filter_matches (mod_filter_nosymbol ctx) b \<and>
        \<not> filter_matches (mod_filter_symbol ctx) b) bs then None else Some (symbols_decide ctx bs)), ())
        :: (('e, bool option) res \<times> unit) option)"
    unfolding symbol_list.for_iter_items[OF assms(2)] by (rule symbol_loop)
  with assms(1) undecided[of ctx bs] show ?thesis
    by (auto simp: filter_module_name_path_symbols_def split: option.splits)
qed

section \<open>The modules a module depends on\<close>

text \<open>Every list the library delivers has an end.\<close>

definition finite_list :: "'s kmod_sys \<Rightarrow> list_iter \<Rightarrow> bool" where
  "finite_list K it \<longleftrightarrow> (\<exists>ps. chain K (li_list it) (li_iter it) ps)"

definition lists_end :: "'s kmod_sys \<Rightarrow> ptr \<Rightarrow> bool" where
  "lists_end K kmod_ctx \<longleftrightarrow>
    (\<forall>m. finite_list K (module_dependencies K m)) \<and>
    (\<forall>m pre post. soft_dependencies K m = Inr (pre, post) \<longrightarrow> finite_list K pre) \<and>
    (\<forall>m sit. dependency_symbols K m = Inr sit \<longrightarrow> finite_list K sit) \<and>
    (\<forall>name it. module_new_from_lookup K kmod_ctx name = Inr it \<longrightarrow> finite_list K it)"

lemma lists_endD:
  assumes "lists_end K kmod_ctx"
  shows "finite_list K (module_dependencies K m)"
    and "soft_dependencies K m = Inr (pre, post) \<Longrightarrow> finite_list K pre"
    and "dependency_symbols K m = Inr sit \<Longrightarrow> finite_list K sit"
    and "module_new_from_lookup K kmod_ctx name = Inr it \<Longrightarrow> finite_list K it"
  using assms unfolding lists_end_def by blast+

definition entry_of :: "'s kmod_sys \<Rightarrow> list_iter \<Rightarrow> ptr \<Rightarrow> bool" where
  "entry_of K it m \<longleftrightarrow> (\<exists>ps. chain K (li_list it) (li_iter it) ps \<and> m \<in> kmod_module_get_module K ` set ps)"

text \<open>A dependency, or what the name of a soft dependency stands for.\<close>

definition depends :: "'s kmod_sys \<Rightarrow> ptr \<Rightarrow> ptr \<Rightarrow> ptr \<Rightarrow> bool" where
  "depends K kmod_ctx m d \<longleftrightarrow> entry_of K (module_dependencies K m) d \<or>
    (\<exists>pre post s name it. soft_dependencies K m = Inr (pre, post) \<and> entry_of K pre s \<and>
      mod_name K s = Some name \<and> module_new_from_lookup K kmod_ctx name = Inr it \<and> entry_of K it d)"

definition settled_path :: "'s kmod_sys \<Rightarrow> ptr \<Rightarrow> path set \<Rightarrow> bool" where
  "settled_path K m V \<longleftrightarrow> (case module_path K m of None \<Rightarrow> True | Some p \<Rightarrow> p \<in> V)"

text \<open>The path of a module all of whose dependencies are there.\<close>

definition complete_path :: "'s kmod_sys \<Rightarrow> ptr \<Rightarrow> path set \<Rightarrow> path \<Rightarrow> bool" where
  "complete_path K kmod_ctx V p \<longleftrightarrow> (\<exists>m. module_path K m = Some p \<and>
    (\<forall>d. depends K kmod_ctx m d \<longrightarrow> settled_path K d V))"

definition extended :: "'s kmod_sys \<Rightarrow> ptr \<Rightarrow> path set \<Rightarrow> path set \<Rightarrow> bool" where
  "extended K kmod_ctx V W \<longleftrightarrow> V \<subseteq> W \<and> (\<forall>p \<in> W - V. complete_path K kmod_ctx W p)"

lemma path_settled_mono: "settled_path K m V \<Longrightarrow> V \<subseteq> W \<Longrightarrow> settled_path K m W"
  by (auto simp: settled_path_def split: option.splits)

lemma complete_mono: "complete_path K kc V p \<Longrightarrow> V \<subseteq> W \<Longrightarrow> complete_path K kc W p"
  by (auto simp: complete_path_def intro: path_settled_mono)

lemma extended_refl [simp]: "extended K kc V V"
  by (simp add: extended_def)

lemma extended_trans: "extended K kc U V \<Longrightarrow> extended K kc V W \<Longrightarrow> extended K kc U W"
  unfolding extended_def by (meson Diff_iff complete_mono order.trans)

lemma extendedD: "extended K kc V W \<Longrightarrow> V \<subseteq> W"
  by (simp add: extended_def)

text \<open>A loop whose body extends the set and settles its module.\<close>

lemma for_list_extended:
  assumes body: "\<And>m V r W. Inr m \<in> set xs \<Longrightarrow> body m V = Some (Inr r, W) \<Longrightarrow> r = None \<and> extended K kc V W \<and> S m W"
    and mono: "\<And>m V W. S m V \<Longrightarrow> V \<subseteq> W \<Longrightarrow> S m W"
    and run: "for_list body xs V = Some (Inr r, W)"
  shows "r = None \<and> extended K kc V W \<and> (\<forall>x \<in> set xs. \<exists>m. x = Inr m \<and> S m W)"
  using body run
proof (induction xs arbitrary: V)
  case (Cons x xs)
  obtain m where x: "x = Inr m" using Cons.prems(2) by (cases x) auto
  obtain q V1 where run: "body m V = Some (q, V1)"
    using Cons.prems(2) x by (auto simp: bind_eq_Some_conv)
  with Cons.prems(2) x obtain q' where q: "q = Inr q'" by (cases q) auto
  have m: "q' = None \<and> extended K kc V V1 \<and> S m V1"
    using Cons.prems(1)[of m V q' V1] x run q by simp
  with Cons.prems(2) x run q have "for_list body xs V1 = Some (Inr r, W)" by simp
  with Cons.IH[of V1] Cons.prems(1) have "r = None \<and> extended K kc V1 W \<and> (\<forall>x \<in> set xs. \<exists>m. x = Inr m \<and> S m W)"
    by (meson list.set_intros(2))
  with m x show ?case by (auto intro: extended_trans mono dest: extendedD)
qed simp

lemma chain_unique: "chain K l p qs \<Longrightarrow> chain K l p qs' \<Longrightarrow> qs' = qs"
proof (induction qs arbitrary: p qs')
  case Nil
  then show ?case by (cases qs') auto
next
  case (Cons q qs)
  then show ?case by (cases qs') auto
qed

lemma entry_of_chain:
  "chain K (li_list it) (li_iter it) ps \<Longrightarrow> entry_of K it m \<longleftrightarrow> m \<in> kmod_module_get_module K ` set ps"
  unfolding entry_of_def using chain_unique by blast

lemma for_iter_extended:
  fixes body :: "ptr \<Rightarrow> path set \<Rightarrow> (('e, 'r option) res \<times> path set) option"
  assumes fin: "finite_list K it"
    and body: "\<forall>m V r W. entry_of K it m \<longrightarrow> body m V = Some (Inr r, W) \<longrightarrow> r = None \<and> extended K kc V W \<and> S m W"
    and mono: "\<forall>m V W. S m V \<longrightarrow> V \<subseteq> W \<longrightarrow> S m W"
    and run: "for_iter (module_next K) body it V = Some (Inr r, W)"
  shows "r = None \<and> extended K kc V W \<and> (\<forall>m. entry_of K it m \<longrightarrow> S m W)"
proof -
  obtain ps where ps: "chain K (li_list it) (li_iter it) ps"
    using fin by (auto simp: finite_list_def)
  note entry = entry_of_chain[OF ps]
  let ?xs = "map (module_entry K) ps :: ('e, ptr) res list"
  have items: "module_items K it ?xs" using ps by (auto simp: module_items_def)
  have loop: "for_list body ?xs V = Some (Inr r, W)"
    using run by (simp add: module_list.for_iter_items[OF items])
  have r: "r = None \<and> extended K kc V W \<and> (\<forall>x \<in> set ?xs. \<exists>m. x = Inr m \<and> S m W)"
  proof (rule for_list_extended[OF _ mono[rule_format] loop])
    fix m V r W assume "Inr m \<in> set ?xs" "body m V = Some (Inr r, W)"
    moreover from this have "entry_of K it m"
      by (auto simp: entry module_entry_def module_new_def split: if_splits)
    ultimately show "r = None \<and> extended K kc V W \<and> S m W" using body by blast
  qed
  have "S m W" if "entry_of K it m" for m
  proof -
    from that obtain p where p: "p \<in> set ps" "m = kmod_module_get_module K p" by (auto simp: entry)
    with r obtain m' where "(module_entry K p :: ('e, ptr) res) = Inr m'" "S m' W" by fastforce
    with p show ?thesis by (auto simp: module_entry_def module_new_def split: if_splits)
  qed
  with r show ?thesis by blast
qed

text \<open>A module that is not there yet.\<close>

lemma install_module_unfold:
  assumes "module_path K m = Some path"
    and "(if filtered then filter_module_name_path_symbols K ctx m path else Some (Inr True)) =
      (Some (Inr True) :: (install_error, bool) res option)"
    and "path \<notin> V"
  shows "install_module (Suc n) K ctx kc m V filtered =
    (case for_iter (module_next K) (\<lambda>m V. try_call (install_module n K ctx kc m V False))
        (module_dependencies K m) (insert path V) of
      None \<Rightarrow> None
    | Some (Inl e, V) \<Rightarrow> Some (Inl e, V)
    | Some (Inr _, V) \<Rightarrow> (case soft_dependencies K m of
        Inl _ \<Rightarrow> Some (Inr (), V)
      | Inr (pre, _) \<Rightarrow> map_option (\<lambda>(r, V). (map_sum id (\<lambda>_. ()) r, V))
          (for_iter (module_next K) (soft_body K kc (\<lambda>m V. install_module n K ctx kc m V False)) pre V)))"
  using assms by (simp add: install_module.simps(2))

text \<open>Success settles the module and completes every new path.\<close>

definition soft_settled :: "'s kmod_sys \<Rightarrow> ptr \<Rightarrow> ptr \<Rightarrow> path set \<Rightarrow> bool" where
  "soft_settled K kc s W \<longleftrightarrow> (\<forall>name it d. mod_name K s = Some name \<longrightarrow>
    module_new_from_lookup K kc name = Inr it \<longrightarrow> entry_of K it d \<longrightarrow> settled_path K d W)"

lemma soft_settled_mono: "\<forall>s V W. soft_settled K kc s V \<longrightarrow> V \<subseteq> W \<longrightarrow> soft_settled K kc s W"
  unfolding soft_settled_def using path_settled_mono by blast

lemma settled_path_mono: "\<forall>m V W. settled_path K m V \<longrightarrow> V \<subseteq> W \<longrightarrow> settled_path K m W"
  using path_settled_mono by blast

lemma map_sum_Inr: "map_sum id f a = Inr x \<longleftrightarrow> (\<exists>y. a = Inr y \<and> x = f y)"
  by (cases a) auto

lemma try_call_Some: "try_call x = Some (r, W) \<longleftrightarrow> (\<exists>a. x = Some (a, W) \<and> r = map_sum id (\<lambda>_. None) a)"
  by (auto simp: try_call_def)

lemma try_call_Inr: "try_call x = Some (Inr r, W) \<longleftrightarrow> x = Some (Inr (), W) \<and> r = None"
  by (cases x) (auto simp: try_call_def map_sum_Inr)

lemma soft_body_run:
  assumes "soft_body K kc install s V = Some (r, W)"
  obtains (failed) "W = V" "\<exists>e. r = Inl e"
  | (loop) name it where "mod_name K s = Some name" "module_new_from_lookup K kc name = Inr it"
      "for_iter (module_next K) (\<lambda>m V. try_call (install m V)) it V = Some (r, W)"
  using assms that by (auto simp: soft_body_def split: option.splits sum.splits)

lemma soft_body_extended:
  assumes "lists_end K kc"
    and "\<forall>m V r W. try_call (install m V) = Some (Inr r, W) \<longrightarrow> r = None \<and> extended K kc V W \<and> settled_path K m W"
    and run: "soft_body K kc install s V = Some (Inr r, W)"
  shows "r = None \<and> extended K kc V W \<and> soft_settled K kc s W"
  using run
proof (cases rule: soft_body_run)
  case (loop name it)
  have "r = None \<and> extended K kc V W \<and> (\<forall>d. entry_of K it d \<longrightarrow> settled_path K d W)"
    by (rule for_iter_extended[OF lists_endD(4)[OF assms(1) loop(2)] _ settled_path_mono loop(3)]) (use assms(2) in blast)
  with loop show ?thesis by (simp add: soft_settled_def)
qed simp

text \<open>The ways a call can go.\<close>

lemma install_module_run:
  assumes "install_module (Suc n) K ctx kc m V filtered = Some (r, W)"
  obtains (skip) "W = V" "r = Inr () \<longrightarrow> filtered \<or> settled_path K m V"
  | (failed) path e where "module_path K m = Some path" "path \<notin> V" "r = Inl e"
      "for_iter (module_next K) (\<lambda>m V. try_call (install_module n K ctx kc m V False))
        (module_dependencies K m) (insert path V) = Some (Inl e, W)"
  | (plain) path u e where "module_path K m = Some path" "path \<notin> V" "r = Inr ()" "soft_dependencies K m = Inl e"
      "for_iter (module_next K) (\<lambda>m V. try_call (install_module n K ctx kc m V False))
        (module_dependencies K m) (insert path V) = Some (Inr u, W)"
  | (soft) path u V1 pre post q where "module_path K m = Some path" "path \<notin> V" "soft_dependencies K m = Inr (pre, post)"
      "r = map_sum id (\<lambda>_. ()) q"
      "for_iter (module_next K) (\<lambda>m V. try_call (install_module n K ctx kc m V False))
        (module_dependencies K m) (insert path V) = Some (Inr u, V1)"
      "for_iter (module_next K) (soft_body K kc (\<lambda>m V. install_module n K ctx kc m V False)) pre V1 = Some (q, W)"
proof (cases "module_path K m")
  case None
  with assms show ?thesis by (auto simp: install_module.simps(2) settled_path_def intro: skip)
next
  case (Some path)
  let ?pass = "if filtered then filter_module_name_path_symbols K ctx m path
    else (Some (Inr True) :: (install_error, bool) res option)"
  show ?thesis
  proof (cases "?pass = Some (Inr True) \<and> path \<notin> V")
    case False
    with assms Some show ?thesis
      by (intro skip) (auto simp: install_module.simps(2) settled_path_def split: if_splits option.splits sum.splits)
  next
    case True
    note run = assms[unfolded install_module_unfold[OF Some conjunct1[OF True] conjunct2[OF True]]]
    from run obtain q V1 where deps: "for_iter (module_next K) (\<lambda>m V. try_call (install_module n K ctx kc m V False))
        (module_dependencies K m) (insert path V) = Some (q, V1)"
      by (auto split: option.splits)
    with run Some True that show ?thesis
      by (cases q; cases "soft_dependencies K m") auto
  qed
qed

lemma install_module_extended:
  assumes ends: "lists_end K kc"
  shows "install_module n K ctx kc m V filtered = Some (Inr (), W) \<Longrightarrow>
    extended K kc V W \<and> (\<not> filtered \<longrightarrow> settled_path K m W)"
proof (induction n arbitrary: m V W filtered)
  case (Suc n)
  let ?rec = "\<lambda>m V. try_call (install_module n K ctx kc m V False)"
  have rec: "\<forall>m V r W. ?rec m V = Some (Inr r, W) \<longrightarrow> r = None \<and> extended K kc V W \<and> settled_path K m W"
    using Suc.IH by (auto simp: try_call_Inr)
  have deps: "extended K kc (insert path V) V1 \<and> (\<forall>d. entry_of K (module_dependencies K m) d \<longrightarrow> settled_path K d V1)"
    if "for_iter (module_next K) ?rec (module_dependencies K m) (insert path V) = Some (Inr u, V1)" for path u V1
    using for_iter_extended[OF lists_endD(1)[OF ends] _ settled_path_mono that] rec by blast
  have whole: "extended K kc V W \<and> settled_path K m W"
    if path: "module_path K m = Some path" "extended K kc (insert path V) W"
      and needs: "\<forall>d. depends K kc m d \<longrightarrow> settled_path K d W" for path W
  proof -
    have "complete_path K kc W path" using path(1) needs by (auto simp: complete_path_def)
    with path show ?thesis by (auto simp: extended_def settled_path_def)
  qed
  from Suc.prems show ?case
  proof (cases rule: install_module_run)
    case (plain path u e)
    with deps[OF plain(5)] have "\<forall>d. depends K kc m d \<longrightarrow> settled_path K d W" by (simp add: depends_def)
    with whole[OF plain(1)] deps[OF plain(5)] show ?thesis by blast
  next
    case (soft path u V1 pre post q)
    from soft(4) obtain q' where q: "q = Inr q'" by (cases q) auto
    have s: "extended K kc V1 W \<and> (\<forall>s. entry_of K pre s \<longrightarrow> soft_settled K kc s W)"
      using for_iter_extended[OF lists_endD(2)[OF ends soft(3)] _ soft_settled_mono soft(6)[unfolded q]]
        soft_body_extended[OF ends rec] by blast
    have "\<forall>d. depends K kc m d \<longrightarrow> settled_path K d W"
      using deps[OF soft(5)] s soft(3) path_settled_mono[of K _ V1 W] extendedD[of K kc V1 W]
      unfolding depends_def soft_settled_def by auto
    with whole[OF soft(1)] deps[OF soft(5)] s show ?thesis by (meson extended_trans)
  qed auto
qed simp

section \<open>The recursion ends\<close>

lemma for_list_returns:
  assumes "\<And>m V. Inr m \<in> set xs \<Longrightarrow> P V \<Longrightarrow> \<exists>r W. body m V = Some (r, W) \<and> P W" and "P V"
  shows "\<exists>r W. for_list body xs V = Some (r, W) \<and> P W"
  using assms
proof (induction xs arbitrary: V)
  case (Cons x xs)
  show ?case
  proof (cases x)
    case (Inr m)
    with Cons.prems(1)[of m V] Cons.prems(2) obtain r W where "body m V = Some (r, W)" "P W" by auto
    moreover have "\<exists>r W'. for_list body xs W = Some (r, W') \<and> P W'"
      using Cons.prems(1) \<open>P W\<close> by (intro Cons.IH) auto
    ultimately show ?thesis using Inr by (auto split: sum.split option.split)
  qed (use Cons.prems in auto)
qed auto

lemma for_iter_returns:
  fixes body :: "ptr \<Rightarrow> path set \<Rightarrow> (('e, 'r option) res \<times> path set) option"
  assumes "finite_list K it" and "\<forall>m V. P V \<longrightarrow> (\<exists>r W. body m V = Some (r, W) \<and> P W)" and "P V"
  shows "\<exists>r W. for_iter (module_next K) body it V = Some (r, W) \<and> P W"
proof -
  obtain ps where "chain K (li_list it) (li_iter it) ps"
    using assms(1) by (auto simp: finite_list_def)
  then have items: "module_items K it (map (module_entry K) ps :: ('e, ptr) res list)"
    by (auto simp: module_items_def)
  show ?thesis
    unfolding module_list.for_iter_items[OF items] by (rule for_list_returns[where P = P]) (use assms in auto)
qed

lemma filter_returns:
  assumes "lists_end K kc"
  shows "(filter_module_name_path_symbols K ctx m path :: ('e, bool) res option) \<noteq> None"
proof -
  have "for_iter (symbol_next K) (symbol_body ctx) sit () \<noteq> (None :: (('e, bool option) res \<times> unit) option)"
    if sit: "dependency_symbols K m = Inr sit" for sit
  proof -
    obtain ps where "chain K (li_list sit) (li_iter sit) ps"
      using lists_endD(3)[OF assms sit] by (auto simp: finite_list_def)
    then have items: "symbol_items K sit (map (symbol_entry K) ps :: ('e, bytes) res list)"
      by (auto simp: symbol_items_def)
    have "for_list (symbol_body ctx) xs () \<noteq> None" for xs :: "('e, bytes) res list"
    proof (induction xs)
      case (Cons x xs)
      then show ?case by (cases x) (auto simp: symbol_body_def)
    qed simp
    then show ?thesis unfolding symbol_list.for_iter_items[OF items] by blast
  qed
  then show ?thesis
    by (auto simp: filter_module_name_path_symbols_def split: sum.split)
qed

definition module_paths :: "'s kmod_sys \<Rightarrow> path set" where
  "module_paths K = {p. \<exists>m. module_path K m = Some p}"

lemma soft_body_returns:
  assumes "lists_end K kc" and "\<forall>m V. P V \<longrightarrow> (\<exists>r W. try_call (install m V) = Some (r, W) \<and> P W)" and "P V"
  shows "\<exists>r W. soft_body K kc install s V = Some (r, W) \<and> P W"
proof (cases "\<exists>name it. mod_name K s = Some name \<and> module_new_from_lookup K kc name = Inr it")
  case True
  then obtain name it where it: "mod_name K s = Some name" "module_new_from_lookup K kc name = Inr it" by blast
  from for_iter_returns[where P = P, OF lists_endD(4)[OF assms(1) it(2)] assms(2,3)] it
  show ?thesis by (simp add: soft_body_def)
qed (use assms(3) in \<open>auto simp: soft_body_def split: option.split sum.split\<close>)

lemma card_unvisited:
  assumes "finite M" and "path \<in> M - V" and "insert path V \<subseteq> W"
  shows "card (M - W) < card (M - V)"
  using assms by (intro psubset_card_mono) auto

lemma install_module_returns:
  assumes ends: "lists_end K kc" and fin: "finite (module_paths K)"
  shows "card (module_paths K - V) < n \<Longrightarrow>
    \<exists>r W. install_module n K ctx kc m V filtered = Some (r, W) \<and> V \<subseteq> W"
proof (induction n arbitrary: m V filtered)
  case (Suc n)
  let ?install = "\<lambda>m V. install_module n K ctx kc m V False"
  let ?soft = "soft_body K kc ?install"
  show ?case
  proof (cases "module_path K m")
    case None
    then show ?thesis by (auto simp: install_module.simps(2))
  next
    case (Some path)
    let ?pass = "if filtered then filter_module_name_path_symbols K ctx m path
      else (Some (Inr True) :: (install_error, bool) res option)"
    obtain q where q: "?pass = Some q"
      by (cases ?pass) (auto simp: filter_returns[OF ends] split: if_splits)
    show ?thesis
    proof (cases "q = Inr True \<and> path \<notin> V")
      case False
      with q Some show ?thesis by (auto simp: install_module.simps(2) split: sum.split)
    next
      case True
      let ?P = "\<lambda>W. insert path V \<subseteq> W"
      have "path \<in> module_paths K - V" using Some True by (auto simp: module_paths_def)
      from card_unvisited[OF fin this] Suc.prems have small: "card (module_paths K - W) < n" if "?P W" for W
        using that by fastforce
      have rec: "\<forall>m W. ?P W \<longrightarrow> (\<exists>r W'. try_call (?install m W) = Some (r, W') \<and> ?P W')"
      proof (intro allI impI)
        fix m W assume "?P W"
        with Suc.IH[OF small, of W m False] show "\<exists>r W'. try_call (?install m W) = Some (r, W') \<and> ?P W'"
          by (auto simp: try_call_def)
      qed
      have pass: "?pass = Some (Inr True)" using q True by simp
      have "\<exists>r W. for_iter (module_next K) (\<lambda>m V. try_call (?install m V))
          (module_dependencies K m) (insert path V) = Some (r, W) \<and> ?P W"
        by (rule for_iter_returns[where P = ?P, OF lists_endD(1)[OF ends] rec subset_refl])
      then obtain r1 W1 where deps: "for_iter (module_next K) (\<lambda>m V. try_call (?install m V))
          (module_dependencies K m) (insert path V) = Some (r1, W1)" "?P W1"
        by blast
      note run = install_module_unfold[OF Some pass conjunct2[OF True], of n kc, unfolded deps(1)]
      show ?thesis
      proof (cases "\<exists>u pre post. r1 = Inr u \<and> soft_dependencies K m = Inr (pre, post)")
        case False
        with run deps(2) show ?thesis
          by (cases r1; cases "soft_dependencies K m") auto
      next
        case True
        then obtain u pre post where pre: "r1 = Inr u" "soft_dependencies K m = Inr (pre, post)" by blast
        have "\<exists>r W. for_iter (module_next K) ?soft pre W1 = Some (r, W) \<and> ?P W"
          by (rule for_iter_returns[where P = ?P, OF lists_endD(2)[OF ends pre(2)] _ deps(2)])
            (use soft_body_returns[where P = ?P, OF ends rec] in blast)
        with pre run show ?thesis by auto
      qed
    qed
  qed
qed simp

section \<open>An example\<close>

text \<open>Module 1 is \<open>a\<close> and needs module 2 and the symbol \<open>s\<close>; the lists have one entry at most.\<close>

definition ex_kmod :: "unit kmod_sys" where
  "ex_kmod = \<lparr>
    kmod_new = (\<lambda>_ _. 1),
    kmod_get_dirname = (\<lambda>_. bstr ''/m''),
    kmod_module_new_from_loaded = (\<lambda>_. (0, 0, 11)),
    kmod_module_new_from_lookup = (\<lambda>_ b. (0, 0, if b = bstr ''a'' then 11 else 0)),
    kmod_module_new_from_path = (\<lambda>_ _. (0, 0, 1)),
    kmod_module_new_from_name = (\<lambda>_ _. (0, 0, 1)),
    kmod_list_next = (\<lambda>_ _. 0),
    kmod_module_get_module = (\<lambda>p. if p = 11 then 1 else 2),
    kmod_module_dependency_symbol_get_symbol = (\<lambda>_. Some (bstr ''s'')),
    kmod_module_get_name = (\<lambda>m. Some (if m = 1 then bstr ''a'' else bstr ''b'')),
    kmod_module_get_size = (\<lambda>_. 0),
    kmod_module_get_refcnt = (\<lambda>_. 0),
    kmod_module_get_holders = (\<lambda>_. 0),
    kmod_module_get_dependencies = (\<lambda>m. if m = 1 then 12 else 0),
    kmod_module_get_softdeps = (\<lambda>_. (0, 0, 0, 0)),
    kmod_module_get_dependency_symbols = (\<lambda>_. (0, 0, 13)),
    kmod_module_get_path = (\<lambda>m. if m = 1 then Some (bstr ''/m/a.ko'') else if m = 2 then Some (bstr ''/m/b.ko'') else None),
    kmod_module_get_options = (\<lambda>_. None),
    kmod_module_insert_module = (\<lambda>_ _ _ s. ((0, 0), s)),
    kmod_module_remove_module = (\<lambda>_ _ s. ((0, 0), s))\<rparr>"

lemma ex_kmod_chain: "chain ex_kmod l p (if p = 0 then [] else [p])"
  by (simp add: ex_kmod_def)

lemma ex_kmod_finite: "finite_list ex_kmod it"
  using ex_kmod_chain unfolding finite_list_def by blast

lemma ex_kmod_ends: "lists_end ex_kmod kmod_ctx"
  by (simp add: lists_end_def ex_kmod_finite)

lemma ex_kmod_paths: "module_paths ex_kmod = {bstr ''/m/a.ko'', bstr ''/m/b.ko''}"
  by (auto simp: module_paths_def module_path_def ex_kmod_def intro: exI[of _ 1] exI[of _ 2] simp del: bstr_Cons)

lemma ex_kmod_iter:
  "for_iter (module_next ex_kmod) body \<lparr>li_list = l, li_iter = p\<rparr> V =
    for_list body (if p = 0 then [] else [Inr (if p = 11 then 1 else 2)]) V"
proof (rule module_list.for_iter_items)
  show "module_items ex_kmod \<lparr>li_list = l, li_iter = p\<rparr> (if p = 0 then [] else [Inr (if p = 11 then 1 else 2)])"
    unfolding module_items_def
    by (rule exI[of _ "if p = 0 then [] else [p]"]) (simp add: module_entry_def module_new_def ex_kmod_def)
qed

definition ex_ctx :: run_context where
  "ex_ctx = run_context_default\<lparr>destrootdir := bstr ''/dest''\<rparr>"

lemma ex_kmod_dependencies: "module_dependencies ex_kmod m =
    (if m = 1 then \<lparr>li_list = 12, li_iter = 12\<rparr> else \<lparr>li_list = 0, li_iter = 0\<rparr>)"
  by (simp add: module_dependencies_def iterator_new_def ex_kmod_def)

lemma ex_kmod_soft: "soft_dependencies ex_kmod m = Inr (\<lparr>li_list = 0, li_iter = 0\<rparr>, \<lparr>li_list = 0, li_iter = 0\<rparr>)"
  by (simp add: soft_dependencies_def iterator_new_def ex_kmod_def)

lemma ex_kmod_path: "module_path ex_kmod 1 = Some (bstr ''/m/a.ko'')" "module_path ex_kmod 2 = Some (bstr ''/m/b.ko'')"
  by (simp_all add: module_path_def ex_kmod_def)

lemma ex_filter: "filter_module_name_path_symbols K ex_ctx m path = Some (Inr True)"
  by (simp add: filter_module_name_path_symbols_def ex_ctx_def run_context_default_def filter_matches_def split: option.split)

lemma ex_install_module:
  "install_module 3 ex_kmod ex_ctx 1 1 {} True = Some (Inr (), {bstr ''/m/a.ko'', bstr ''/m/b.ko''})"
  by (simp add: install_module.simps(2) numeral_3_eq_3 ex_kmod_path[unfolded One_nat_def] ex_filter ex_kmod_dependencies
      ex_kmod_soft ex_kmod_iter try_call_def Let_def insert_commute del: bstr_Cons)

section \<open>Properties\<close>

text \<open>
  C7: With enough fuel the recursion returns, from any set of visited paths. The set only grows, and
  when there was no error, every new path in it belongs to a module all of whose dependencies and soft
  dependencies are in it; a module that is not filtered is in it as well.
\<close>

theorem install_module_total:
  assumes "lists_end K kmod_ctx" and "finite (module_paths K)" and "card (module_paths K - V) < fuel"
  shows "\<exists>r W. install_module fuel K ctx kmod_ctx m V filtered = Some (r, W) \<and> V \<subseteq> W \<and>
    (case r of Inl _ \<Rightarrow> True
     | Inr _ \<Rightarrow> (\<forall>p \<in> W - V. complete_path K kmod_ctx W p) \<and> (filtered \<or> settled_path K m W))"
proof -
  obtain r W where run: "install_module fuel K ctx kmod_ctx m V filtered = Some (r, W)" "V \<subseteq> W"
    using install_module_returns[OF assms] by blast
  show ?thesis
  proof (cases r)
    case (Inr u)
    with run install_module_extended[OF assms(1), of fuel ctx m V filtered W] show ?thesis
      by (auto simp: extended_def)
  qed (use run in auto)
qed

theorem install_module_total_witness:
  "\<exists>r W. install_module 3 ex_kmod ex_ctx 1 1 {} False = Some (r, W) \<and> {} \<subseteq> W \<and>
    (case r of Inl _ \<Rightarrow> True
     | Inr _ \<Rightarrow> (\<forall>p \<in> W - {}. complete_path ex_kmod 1 W p) \<and> (False \<or> settled_path ex_kmod 1 W))"
proof (rule install_module_total[OF ex_kmod_ends])
  show "finite (module_paths ex_kmod)" by (simp add: ex_kmod_paths)
  have "card (set [bstr ''/m/a.ko'', bstr ''/m/b.ko'']) \<le> length [bstr ''/m/a.ko'', bstr ''/m/b.ko'']"
    by (rule card_length)
  then show "card (module_paths ex_kmod - {}) < 3" by (simp add: ex_kmod_paths del: bstr_Cons)
qed

text \<open>
  C13: What the filters decide for a module whose symbols can be listed. The name and the path exclude
  first; without a filter on symbols the module passes, otherwise the first symbol that one of the two
  matches decides, and a module passes only when that is the including one.
\<close>

theorem filter_decides:
  assumes "dependency_symbols K m = Inr sit" and "symbol_items K sit (map Inr bs :: ('e, bytes) res list)"
  shows "filter_module_name_path_symbols K ctx m path = Some (Inr
    (\<not> (case mod_name K m of None \<Rightarrow> False | Some name \<Rightarrow> filter_matches (mod_filter_noname ctx) name) \<and>
     \<not> filter_matches (mod_filter_nopath ctx) path \<and>
     (case mod_filter_path ctx of None \<Rightarrow> True | Some r \<Rightarrow> r path) \<and>
     (mod_filter_nosymbol ctx = None \<and> mod_filter_symbol ctx = None \<or>
      (case dropWhile (\<lambda>b. \<not> filter_matches (mod_filter_nosymbol ctx) b \<and> \<not> filter_matches (mod_filter_symbol ctx) b) bs of
         [] \<Rightarrow> False
       | b # _ \<Rightarrow> \<not> filter_matches (mod_filter_nosymbol ctx) b))) :: ('e, bool) res)"
  unfolding filter_result[OF assms] symbols_decide_first ..

text \<open>An excluding filter that matches nothing excludes the module, since no symbol includes it.\<close>

theorem filter_decides_witness:
  "filter_module_name_path_symbols ex_kmod (ex_ctx\<lparr>mod_filter_nosymbol := Some (\<lambda>b. b = bstr ''t'')\<rparr>) 1 (bstr ''/m/a.ko'') =
    (Some (Inr False) :: (install_error, bool) res option)"
proof -
  let ?it = "\<lparr>li_list = 13, li_iter = 13\<rparr>"
  have sym: "dependency_symbols ex_kmod 1 = Inr ?it"
    by (simp add: dependency_symbols_def iterator_of_def iterator_new_def ex_kmod_def)
  have "from_utf8_lossy (bstr ''s'') = bstr ''s''" by code_simp
  then have items: "symbol_items ex_kmod ?it (map Inr [bstr ''s''] :: (install_error, bytes) res list)"
    unfolding symbol_items_def by (intro exI[of _ "[13]"]) (simp add: symbol_entry_def ex_kmod_def del: bstr_Cons)
  show ?thesis
    unfolding filter_decides[OF sym items] ex_ctx_def run_context_default_def filter_matches_def
    by code_simp
qed

end
