(* ===== verification/ModuleArgs.thy ===== *)
theory ModuleArgs
  imports Install InstallModules
begin

text \<open>
  \<open>install_modules\<close> of \<open>src/lib.rs\<close>: the modules the arguments stand for, the collection of the paths
  and their installation. The walk over a directory (crate \<open>walkdir\<close>) is a parameter, as is the order
  in which the set of paths is drained.
\<close>

section \<open>The arguments\<close>

text \<open>An entry of a walk; what went wrong with one that is none is never looked at.\<close>

record dir_entry =
  entry_path :: path
  entry_file_name :: bytes

type_synonym 's walk_dir = "path \<Rightarrow> 's \<Rightarrow> (unit + dir_entry) list"

text \<open>The values of \<open>Ok\<close> and of \<open>Err\<close> in a list of results.\<close>

definition oks :: "('e + 'a) list \<Rightarrow> 'a list" where
  "oks rs = List.map_filter (\<lambda>r. case r of Inl _ \<Rightarrow> None | Inr x \<Rightarrow> Some x) rs"

definition errs :: "('e + 'a) list \<Rightarrow> 'e list" where
  "errs rs = List.map_filter (\<lambda>r. case r of Inl e \<Rightarrow> Some e | Inr _ \<Rightarrow> None) rs"

text \<open>\<open>Path::file_stem\<close>: the name before its last dot, unless that is the first byte.\<close>

definition file_stem :: "path \<Rightarrow> bytes option" where
  "file_stem p = (case file_name p of
      None \<Rightarrow> None
    | Some n \<Rightarrow>
        let before = rev (drop 1 (dropWhile (\<lambda>c. c \<noteq> dot) (rev n)))
        in Some (if dot \<notin> set n \<or> before = [] then n else before))"

definition module_stem :: "bytes \<Rightarrow> bytes" where
  "module_stem arg = (case file_stem arg of
      None \<Rightarrow> arg
    | Some m \<Rightarrow> (case file_stem m of None \<Rightarrow> m | Some m' \<Rightarrow> m'))"

definition resolve_path :: "'k kmod_sys \<Rightarrow> ptr \<Rightarrow> bytes \<Rightarrow> list_iter kmod_result list" where
  "resolve_path K kmod_ctx arg = (case to_str arg of
      None \<Rightarrow> [Inl Panic]
    | Some f \<Rightarrow> (case module_new_from_path K kmod_ctx f of
        Inl _ \<Rightarrow> [Inl Panic]
      | Inr m \<Rightarrow> (case mod_name K m of
          Some name \<Rightarrow> [module_new_from_lookup K kmod_ctx name]
        | None \<Rightarrow> [Inl (Fail (Errno 42))])))"

definition driver_path :: "'k kmod_sys \<Rightarrow> ptr \<Rightarrow> bytes \<Rightarrow> path" where
  "driver_path K kmod_ctx driver_dir =
    (let d = push (dirname K kmod_ctx) (bstr ''kernel'')
     in if driver_dir \<noteq> [] then push d driver_dir else d)"

definition resolve_entry :: "'k kmod_sys \<Rightarrow> ptr \<Rightarrow> path \<Rightarrow> list_iter kmod_result" where
  "resolve_entry K kmod_ctx p =
    bind_res (case to_str p of None \<Rightarrow> Inl Panic | Some f \<Rightarrow> module_new_from_path K kmod_ctx f) (\<lambda>m.
    bind_res (case mod_name K m of None \<Rightarrow> Inl (Fail (Errno 42)) | Some name \<Rightarrow> Inr name) (\<lambda>name.
    module_new_from_lookup K kmod_ctx name))"

abbreviation equals_sign :: u8 where "equals_sign \<equiv> 61"

definition resolve_arg ::
  "'s path_sys \<Rightarrow> 's walk_dir \<Rightarrow> 'k kmod_sys \<Rightarrow> ptr \<Rightarrow> 's \<Rightarrow> bytes \<Rightarrow> list_iter kmod_result list" where
  "resolve_arg P walkdir K kmod_ctx s arg =
    (if arg \<noteq> [] \<and> hd arg = slash then resolve_path K kmod_ctx arg
     else if arg \<noteq> [] \<and> hd arg = equals_sign then
       map (resolve_entry K kmod_ctx)
         (filter (\<lambda>p. path_is P p_file p s)
           (map entry_path (oks (walkdir (driver_path K kmod_ctx (tl arg)) s))))
     else [module_new_from_lookup K kmod_ctx (module_stem arg)])"

section \<open>The installation\<close>

text \<open>\<open>it.collect::<Vec<_>>()\<close>, and the same for each of the iterators.\<close>

definition collect_iter :: "'k kmod_sys \<Rightarrow> list_iter \<Rightarrow> ('e, ptr list) res option" where
  "collect_iter K it = map_option (\<lambda>(r, ms). map_sum id (\<lambda>_. ms) r)
    (for_iter (module_next K) (\<lambda>m ms. Some (Inr (None :: unit option), ms @ [m])) it [])"

fun collect_all :: "'k kmod_sys \<Rightarrow> list_iter list \<Rightarrow> ('e, ptr list) res option" where
  "collect_all K [] = Some (Inr [])"
| "collect_all K (it # its) = (case collect_iter K it of
      None \<Rightarrow> None
    | Some (Inl e) \<Rightarrow> Some (Inl e)
    | Some (Inr ms) \<Rightarrow> map_option (map_sum id (\<lambda>ms'. ms @ ms')) (collect_all K its))"

text \<open>All modules are tried; the errors are collected.\<close>

fun install_all ::
  "nat \<Rightarrow> 'k kmod_sys \<Rightarrow> run_context \<Rightarrow> ptr \<Rightarrow> ptr list \<Rightarrow> path set \<Rightarrow>
    ((install_error, install_error list) res \<times> path set) option" where
  "install_all fuel K ctx kmod_ctx [] V = Some (Inr [], V)"
| "install_all fuel K ctx kmod_ctx (m # ms) V =
    (case install_module fuel K ctx kmod_ctx m V True of
      None \<Rightarrow> None
    | Some (Inl Panic, V) \<Rightarrow> Some (Inl Panic, V)
    | Some (Inl (Fail e), V) \<Rightarrow>
        map_option (\<lambda>(r, V). (map_sum id (\<lambda>es. e # es) r, V))
          (install_all fuel K ctx kmod_ctx ms V)
    | Some (Inr _, V) \<Rightarrow> install_all fuel K ctx kmod_ctx ms V)"

datatype modules_error = KmodContext kmod_error | ModuleErrors | CloneFailed clone_error

definition install_modules ::
  "nat \<Rightarrow> zip_longest \<Rightarrow> 's path_sys \<Rightarrow> 's walk_dir \<Rightarrow> 'k kmod_sys \<Rightarrow> (path set \<Rightarrow> path list) \<Rightarrow>
    run_context \<Rightarrow> bytes list \<Rightarrow> 's \<Rightarrow> ((modules_error, unit) res \<times> 's) option" where
  "install_modules fuel zl P walkdir K drain ctx module_args s =
    (case context_new_with K (kerneldir ctx) None of
      Inl Panic \<Rightarrow> Some (Inl Panic, s)
    | Inl (Fail e) \<Rightarrow> Some (Inl (Fail (KmodContext e)), s)
    | Inr kmod_ctx \<Rightarrow>
        let rs = concat (map (resolve_arg P walkdir K kmod_ctx s) module_args) in
        if Inl Panic \<in> set rs then Some (Inl Panic, s)
        else if errs rs \<noteq> [] then Some (Inl (Fail ModuleErrors), s)
        else (case collect_all K (oks rs) of
            None \<Rightarrow> None
          | Some (Inl e) \<Rightarrow> Some (Inl e, s)
          | Some (Inr modules) \<Rightarrow>
              (case install_all fuel K ctx kmod_ctx modules {} of
                None \<Rightarrow> None
              | Some (Inl _, _) \<Rightarrow> Some (Inl Panic, s)
              | Some (Inr install_errors, V) \<Rightarrow>
                  if install_errors \<noteq> [] then Some (Inl (Fail ModuleErrors), s)
                  else map_option (\<lambda>(r, s). (map_fail CloneFailed r, s))
                    (install_files zl P (destrootdir ctx) (drain V) s))))"

section \<open>What is collected\<close>

lemma collect_loop:
  "for_list (\<lambda>m ms. Some (Inr (None :: 'r option), ms @ [m])) xs acc = Some (r, ms) \<Longrightarrow>
    (\<forall>q. r = Inr q \<longrightarrow> (\<exists>ys. xs = map Inr ys \<and> ms = acc @ ys))"
proof (induction xs arbitrary: acc)
  case (Cons x xs)
  show ?case
  proof (cases x)
    case (Inr m)
    with Cons.prems have run: "for_list (\<lambda>m ms. Some (Inr (None :: 'r option), ms @ [m])) xs (acc @ [m]) = Some (r, ms)"
      by simp
    show ?thesis
    proof (intro allI impI)
      fix q assume "r = Inr q"
      with Cons.IH[OF run] obtain ys where "xs = map Inr ys" "ms = (acc @ [m]) @ ys" by blast
      with Inr show "\<exists>ys. x # xs = map Inr ys \<and> ms = acc @ ys" by (intro exI[of _ "m # ys"]) simp
    qed
  qed (use Cons.prems in auto)
qed auto

lemma collect_iter_entries:
  assumes "finite_list K it" and "collect_iter K it = Some (Inr ms :: ('e, ptr list) res)"
  shows "set ms = {m. entry_of K it m}"
proof -
  obtain ps where ps: "chain K (li_list it) (li_iter it) ps"
    using assms(1) by (auto simp: finite_list_def)
  let ?xs = "map (module_entry K) ps :: ('e, ptr) res list"
  let ?body = "\<lambda>m ms. Some (Inr (None :: unit option), ms @ [m]) :: (('e, unit option) res \<times> ptr list) option"
  have "module_items K it ?xs" using ps by (auto simp: module_items_def)
  then have "for_iter (module_next K) ?body it [] = for_list ?body ?xs []"
    by (rule module_list.for_iter_items)
  with assms(2) obtain r ms' where loop: "for_list ?body ?xs [] = Some (r, ms')"
    and r: "map_sum id (\<lambda>_. ms') r = (Inr ms :: ('e, ptr list) res)"
    by (auto simp: collect_iter_def)
  from r obtain q where "r = Inr q" "ms' = ms" by (cases r) auto
  with collect_loop[OF loop] have "map (module_entry K) ps = (map Inr ms :: ('e, ptr) res list)" by auto
  then have "map (kmod_module_get_module K) ps = ms"
  proof (induction ps arbitrary: ms)
    case (Cons p ps)
    then show ?case by (cases ms) (auto simp: module_entry_def module_new_def split: if_splits)
  qed auto
  then show ?thesis by (auto simp: entry_of_chain[OF ps])
qed

lemma collect_all_entries:
  "\<forall>it \<in> set its. finite_list K it \<Longrightarrow> collect_all K its = Some (Inr ms :: ('e, ptr list) res) \<Longrightarrow>
    set ms = {m. \<exists>it \<in> set its. entry_of K it m}"
proof (induction its arbitrary: ms)
  case (Cons it its)
  obtain ms1 where it: "collect_iter K it = Some (Inr ms1 :: ('e, ptr list) res)"
    using Cons.prems(2) by (auto split: option.splits sum.splits)
  with Cons.prems(2) obtain ms2 where its: "collect_all K its = Some (Inr ms2 :: ('e, ptr list) res)" "ms = ms1 @ ms2"
    by (auto simp: map_sum_Inr)
  from collect_iter_entries[OF _ it] Cons.IH[OF _ its(1)] Cons.prems(1) its(2) show ?case by auto
qed simp

text \<open>Every list an argument stands for has an end.\<close>

lemma resolve_arg_lookup:
  assumes "Inr it \<in> set (resolve_arg P walkdir K kc s arg)"
  shows "\<exists>name. module_new_from_lookup K kc name = Inr it"
proof -
  have "\<exists>name. module_new_from_lookup K kc name = Inr it" if "resolve_entry K kc p = Inr it" for p
    using that by (auto simp: resolve_entry_def bind_res_eq_Inr)
  moreover have "\<exists>name. module_new_from_lookup K kc name = Inr it" if "Inr it \<in> set (resolve_path K kc arg)"
    using that by (auto simp: resolve_path_def split: option.splits sum.splits intro: sym)
  ultimately show ?thesis
    using assms by (auto simp: resolve_arg_def image_iff split: if_splits dest: sym)
qed

section \<open>Only what is needed\<close>

lemma for_list_keeps:
  assumes "\<And>m V r W. Inr m \<in> set xs \<Longrightarrow> Q V \<Longrightarrow> body m V = Some (r, W) \<Longrightarrow> Q W"
    and "Q V" and "for_list body xs V = Some (r, W)"
  shows "Q W"
  using assms
proof (induction xs arbitrary: V)
  case (Cons x xs)
  show ?case
  proof (cases x)
    case (Inr m)
    with Cons.prems(3) obtain q V1 where m: "body m V = Some (q, V1)"
      by (auto simp: bind_eq_Some_conv)
    with Cons.prems(1,2) Inr have "Q V1" by auto
    with Cons.prems(1) have "for_list body xs V1 = Some (r, W) \<Longrightarrow> Q W" using Cons.IH[of V1] by auto
    with Cons.prems(3) m Inr \<open>Q V1\<close> show ?thesis by (auto split: sum.splits option.splits)
  qed (use Cons.prems in auto)
qed auto

lemma for_iter_keeps:
  fixes body :: "ptr \<Rightarrow> 'v \<Rightarrow> (('e, 'r option) res \<times> 'v) option"
  assumes "finite_list K it" and "\<forall>m V r W. entry_of K it m \<longrightarrow> Q V \<longrightarrow> body m V = Some (r, W) \<longrightarrow> Q W"
    and "Q V" and "for_iter (module_next K) body it V = Some (r, W)"
  shows "Q W"
proof -
  obtain ps where ps: "chain K (li_list it) (li_iter it) ps"
    using assms(1) by (auto simp: finite_list_def)
  let ?xs = "map (module_entry K) ps :: ('e, ptr) res list"
  have items: "module_items K it ?xs" using ps by (auto simp: module_items_def)
  from assms(4) have "for_list body ?xs V = Some (r, W)"
    unfolding module_list.for_iter_items[OF items] .
  then show ?thesis
  proof (rule for_list_keeps[where Q = Q, rotated 2])
    fix m V r W assume "Inr m \<in> set ?xs" "Q V" "body m V = Some (r, W)"
    moreover from this have "entry_of K it m"
      by (auto simp: entry_of_chain[OF ps] module_entry_def module_new_def split: if_splits)
    ultimately show "Q W" using assms(2) by blast
  qed fact
qed

lemma soft_body_within:
  assumes "lists_end K kc" and "\<forall>it d V r W. module_new_from_lookup K kc (the (mod_name K s)) = Inr it \<longrightarrow>
      mod_name K s \<noteq> None \<longrightarrow> entry_of K it d \<longrightarrow> V \<subseteq> A \<longrightarrow> try_call (install d V) = Some (r, W) \<longrightarrow> W \<subseteq> A"
    and "V \<subseteq> A" and run: "soft_body K kc install s V = Some (r, W)"
  shows "W \<subseteq> A"
  using run
proof (cases rule: soft_body_run)
  case (loop name it)
  show ?thesis
    by (rule for_iter_keeps[where Q = "\<lambda>V. V \<subseteq> A", OF lists_endD(4)[OF assms(1) loop(2)] _ assms(3) loop(3)])
      (use assms(2) loop in simp)
qed (use assms(3) in simp)

lemma install_module_within:
  assumes ends: "lists_end K kc"
  shows "install_module n K ctx kc m V filtered = Some (r, W) \<Longrightarrow>
    (\<And>x p. (depends K kc)\<^sup>*\<^sup>* m x \<Longrightarrow> module_path K x = Some p \<Longrightarrow> p \<in> A) \<Longrightarrow> V \<subseteq> A \<Longrightarrow> W \<subseteq> A"
proof (induction n arbitrary: m V r W filtered)
  case (Suc n)
  let ?rec = "\<lambda>m V. try_call (install_module n K ctx kc m V False)"
  have rec: "\<forall>d V r W. depends K kc m d \<longrightarrow> V \<subseteq> A \<longrightarrow> ?rec d V = Some (r, W) \<longrightarrow> W \<subseteq> A"
    unfolding try_call_Some using Suc.IH Suc.prems(2) by (meson converse_rtranclp_into_rtranclp)
  have deps: "V1 \<subseteq> A"
    if path: "module_path K m = Some path"
      and loop: "for_iter (module_next K) ?rec (module_dependencies K m) (insert path V) = Some (q, V1)" for path q V1
  proof (rule for_iter_keeps[where Q = "\<lambda>V. V \<subseteq> A", OF lists_endD(1)[OF ends] _ _ loop])
    show "\<forall>d V r W. entry_of K (module_dependencies K m) d \<longrightarrow> V \<subseteq> A \<longrightarrow> ?rec d V = Some (r, W) \<longrightarrow> W \<subseteq> A"
      using rec unfolding depends_def by blast
    show "insert path V \<subseteq> A" using Suc.prems(2)[OF _ path] Suc.prems(3) by blast
  qed
  from Suc.prems(1) show ?case
  proof (cases rule: install_module_run)
    case (soft path u V1 pre post q)
    have "W' \<subseteq> A" if s: "entry_of K pre s" and V: "V' \<subseteq> A"
      and run: "soft_body K kc (\<lambda>m V. install_module n K ctx kc m V False) s V' = Some (r', W')" for s V' r' W'
    proof (rule soft_body_within[OF ends _ V run])
      show "\<forall>it d V r W. module_new_from_lookup K kc (the (mod_name K s)) = Inr it \<longrightarrow> mod_name K s \<noteq> None \<longrightarrow>
          entry_of K it d \<longrightarrow> V \<subseteq> A \<longrightarrow> ?rec d V = Some (r, W) \<longrightarrow> W \<subseteq> A"
        using rec s soft(3) unfolding depends_def by (metis option.exhaust_sel)
    qed
    then show ?thesis
      using for_iter_keeps[where Q = "\<lambda>V. V \<subseteq> A", OF lists_endD(2)[OF ends soft(3)] _ deps[OF soft(1,5)] soft(6)] by blast
  qed (use Suc.prems(3) deps in auto)
qed simp

section \<open>The installed set\<close>

definition requested ::
  "'s path_sys \<Rightarrow> 's walk_dir \<Rightarrow> 'k kmod_sys \<Rightarrow> ptr \<Rightarrow> 's \<Rightarrow> bytes list \<Rightarrow> ptr \<Rightarrow> bool" where
  "requested P walkdir K kmod_ctx s args m \<longleftrightarrow>
    (\<exists>arg \<in> set args. \<exists>it. Inr it \<in> set (resolve_arg P walkdir K kmod_ctx s arg) \<and> entry_of K it m)"

definition accepted :: "'k kmod_sys \<Rightarrow> run_context \<Rightarrow> ptr \<Rightarrow> bool" where
  "accepted K ctx m \<longleftrightarrow> (\<exists>p. module_path K m = Some p \<and>
    filter_module_name_path_symbols K ctx m p = (Some (Inr True) :: (install_error, bool) res option))"

lemma install_module_accepted:
  "accepted K ctx m \<Longrightarrow> install_module n K ctx kc m V True = install_module n K ctx kc m V False"
  by (cases n) (auto simp: accepted_def install_module.simps(2))

lemma install_module_rejected:
  "\<not> accepted K ctx m \<Longrightarrow> install_module n K ctx kc m V True = Some (r, W) \<Longrightarrow> W = V"
  by (cases n) (auto simp: accepted_def install_module.simps(2) split: option.splits sum.splits if_splits)

lemma install_all_result:
  assumes ends: "lists_end K kc"
    and reach: "\<And>m x p. m \<in> set ms \<Longrightarrow> accepted K ctx m \<Longrightarrow> (depends K kc)\<^sup>*\<^sup>* m x \<Longrightarrow> module_path K x = Some p \<Longrightarrow> p \<in> A"
  shows "install_all n K ctx kc ms V = Some (Inr [], W) \<Longrightarrow> V \<subseteq> A \<Longrightarrow>
    extended K kc V W \<and> W \<subseteq> A \<and> (\<forall>m \<in> set ms. accepted K ctx m \<longrightarrow> settled_path K m W)"
  using reach
proof (induction ms arbitrary: V)
  case (Cons m ms)
  obtain V1 where m: "install_module n K ctx kc m V True = Some (Inr (), V1)"
    and ms: "install_all n K ctx kc ms V1 = Some (Inr [], W)"
    using Cons.prems(1) by (auto simp: map_sum_Inr split: option.splits sum.splits fault.splits)
  have "extended K kc V V1 \<and> V1 \<subseteq> A \<and> (accepted K ctx m \<longrightarrow> settled_path K m V1)"
  proof (cases "accepted K ctx m")
    case True
    have run: "install_module n K ctx kc m V False = Some (Inr (), V1)"
      using m unfolding install_module_accepted[OF True] .
    have "V1 \<subseteq> A"
      by (rule install_module_within[OF ends run _ Cons.prems(2)]) (use Cons.prems(3)[OF _ True] in auto)
    with install_module_extended[OF ends run] show ?thesis by simp
  next
    case False
    with install_module_rejected[OF False m] Cons.prems(2) show ?thesis by simp
  qed
  moreover from this have "extended K kc V1 W \<and> W \<subseteq> A \<and> (\<forall>m \<in> set ms. accepted K ctx m \<longrightarrow> settled_path K m W)"
    by (intro Cons.IH[OF ms]) (use Cons.prems(3) in auto)
  ultimately show ?case
    by (auto intro: extended_trans path_settled_mono dest: extendedD)
qed auto

lemma install_modules_facts:
  fixes K :: "'k kmod_sys"
  assumes "path_laws P" and ends: "\<forall>kmod_ctx. lists_end K kmod_ctx" and fin: "finite (module_paths K)"
    and drain: "\<forall>V. finite V \<longrightarrow> set (drain V) = V"
    and run: "install_modules fuel zl P walkdir K drain ctx args s = Some (Inr (), s')"
  shows "\<exists>kmod_ctx V. context_new_with K (kerneldir ctx) None = Inr kmod_ctx \<and>
    (\<forall>m. requested P walkdir K kmod_ctx s args m \<longrightarrow> accepted K ctx m \<longrightarrow> settled_path K m V) \<and>
    (\<forall>p \<in> V. complete_path K kmod_ctx V p) \<and>
    (\<forall>p \<in> V. \<exists>m x. requested P walkdir K kmod_ctx s args m \<and> accepted K ctx m \<and>
      (depends K kmod_ctx)\<^sup>*\<^sup>* m x \<and> module_path K x = Some p) \<and>
    (\<forall>p \<in> V. parent p = None \<or> lexists P (clone_target (destrootdir ctx) p) s')"
proof -
  obtain kc where kc: "context_new_with K (kerneldir ctx) None = Inr kc"
    using run by (auto simp: install_modules_def split: sum.splits fault.splits)
  let ?rs = "concat (map (resolve_arg P walkdir K kc s) args)"
  obtain ms V where errs: "errs ?rs = []" and collected: "collect_all K (oks ?rs) = Some (Inr ms :: (modules_error, ptr list) res)"
    and installed: "install_all fuel K ctx kc ms {} = Some (Inr [], V)"
    and cloned: "install_files zl P (destrootdir ctx) (drain V) s = Some (Inr (), s')"
    using run kc by (auto simp: install_modules_def Let_def split: option.splits sum.splits if_splits fault.splits)
  have mem_oks: "it \<in> set (oks ?rs) \<longleftrightarrow> (\<exists>arg \<in> set args. Inr it \<in> set (resolve_arg P walkdir K kc s arg))" for it
    by (force simp: oks_def List.map_filter_def split: sum.splits)
  have "\<forall>it \<in> set (oks ?rs). finite_list K it"
  proof
    fix it assume "it \<in> set (oks ?rs)"
    then obtain arg where "Inr it \<in> set (resolve_arg P walkdir K kc s arg)" unfolding mem_oks by (rule bexE)
    from resolve_arg_lookup[OF this] obtain name where "module_new_from_lookup K kc name = Inr it" by (rule exE)
    then show "finite_list K it" by (rule lists_endD(4)[OF ends[rule_format]])
  qed
  from collect_all_entries[OF this collected] have ms: "m \<in> set ms \<longleftrightarrow> requested P walkdir K kc s args m" for m
    unfolding requested_def Bex_def mem_oks by (simp only: mem_Collect_eq) iprover
  let ?A = "{p. \<exists>m x. m \<in> set ms \<and> accepted K ctx m \<and> (depends K kc)\<^sup>*\<^sup>* m x \<and> module_path K x = Some p}"
  have V: "extended K kc {} V \<and> V \<subseteq> ?A \<and> (\<forall>m \<in> set ms. accepted K ctx m \<longrightarrow> settled_path K m V)"
    by (rule install_all_result[OF ends[rule_format] _ installed]) auto
  have "finite V" by (rule finite_subset[OF _ fin]) (use V in \<open>auto simp: module_paths_def\<close>)
  with drain have "set (drain V) = V" by blast
  with install_files_made[OF assms(1) cloned] have "\<forall>p \<in> V. parent p = None \<or> lexists P (clone_target (destrootdir ctx) p) s'"
    by (simp add: list_all_iff)
  with V kc ms show ?thesis by (intro exI[of _ kc] exI[of _ V]) (auto simp: extended_def)
qed

text \<open>
  C2: When modules were installed, there is a set of paths such that every module the arguments stand
  for and the filters accept is in it, everything in it has all its dependencies in it, nothing is in
  it that no such module needs, and every path of it has an entry below the destination.
\<close>

theorem install_modules_closed:
  fixes K :: "'k kmod_sys"
  assumes "path_laws P" and "\<forall>kmod_ctx. lists_end K kmod_ctx" and "finite (module_paths K)"
    and "\<forall>V. finite V \<longrightarrow> set (drain V) = V"
    and "install_modules fuel zl P walkdir K drain ctx args s = Some (Inr (), s')"
  shows "\<exists>kmod_ctx V. context_new_with K (kerneldir ctx) None = Inr kmod_ctx \<and>
    (\<forall>m. requested P walkdir K kmod_ctx s args m \<longrightarrow> accepted K ctx m \<longrightarrow> settled_path K m V) \<and>
    (\<forall>p \<in> V. complete_path K kmod_ctx V p) \<and>
    (\<forall>p \<in> V. \<exists>m x. requested P walkdir K kmod_ctx s args m \<and> accepted K ctx m \<and>
      (depends K kmod_ctx)\<^sup>*\<^sup>* m x \<and> module_path K x = Some p) \<and>
    (\<forall>p \<in> V. parent p = None \<or> lexists P (clone_target (destrootdir ctx) p) s')"
  by (rule install_modules_facts[OF assms])

section \<open>Two modules are installed\<close>

definition ex_modules_root :: tree where
  "ex_modules_root = [(bstr ''/m'', DirNode 493), (bstr ''/m/a.ko'', FileNode 493), (bstr ''/m/b.ko'', FileNode 493),
    (bstr ''/dest/m'', DirNode 493)]"

lemma ex_modules_files:
  "install_files zip_longest_std (ex_tree ex_modules_root) (bstr ''/dest'') [bstr ''/m/a.ko'', bstr ''/m/b.ko''] [] =
    Some (Inr (), [(bstr ''/dest/m/b.ko'', FileNode 0), (bstr ''/dest/m/a.ko'', FileNode 0)])"
proof -
  have target: "clone_target (bstr ''/dest'') (bstr ''/m/a.ko'') = bstr ''/dest/m/a.ko''"
    "clone_target (bstr ''/dest'') (bstr ''/m/b.ko'') = bstr ''/dest/m/b.ko''"
    by code_simp+
  have "clone_path zip_longest_std (ex_tree ex_modules_root) (bstr ''/m/a.ko'') (bstr ''/dest'') [] =
      Some (Inr (), [(bstr ''/dest/m/a.ko'', FileNode 0)])"
    unfolding target(1)[symmetric]
    by (rule clone_path_file[where dir = "bstr ''/m''" and d = "bstr ''/dest/m''" and m = 493]) code_simp+
  moreover have "clone_path zip_longest_std (ex_tree ex_modules_root) (bstr ''/m/b.ko'') (bstr ''/dest'')
        [(bstr ''/dest/m/a.ko'', FileNode 0)] =
      Some (Inr (), [(bstr ''/dest/m/b.ko'', FileNode 0), (bstr ''/dest/m/a.ko'', FileNode 0)])"
    unfolding target(2)[symmetric]
    by (rule clone_path_file[where dir = "bstr ''/m''" and d = "bstr ''/dest/m''" and m = 493]) code_simp+
  ultimately show ?thesis by (simp del: bstr_Cons)
qed

lemma ex_modules_resolved:
  "resolve_arg P walkdir ex_kmod 1 s (bstr ''a'') = [Inr \<lparr>li_list = 11, li_iter = 11\<rparr>]"
proof -
  have "module_stem (bstr ''a'') = bstr ''a''" by code_simp
  then have "resolve_arg P walkdir ex_kmod 1 s (bstr ''a'') = [module_new_from_lookup ex_kmod 1 (bstr ''a'')]"
    by (simp add: resolve_arg_def)
  also have "module_new_from_lookup ex_kmod 1 (bstr ''a'') = Inr \<lparr>li_list = 11, li_iter = 11\<rparr>"
    by (simp add: module_new_from_lookup_def cstring_def iterator_of_def iterator_new_def ex_kmod_def)
  finally show ?thesis .
qed

lemma ex_modules:
  "install_modules 3 zip_longest_std (ex_tree ex_modules_root) (\<lambda>_ _. []) ex_kmod sorted_list_of_set ex_ctx
      [bstr ''a''] [] =
    Some (Inr (), [(bstr ''/dest/m/b.ko'', FileNode 0), (bstr ''/dest/m/a.ko'', FileNode 0)])"
proof -
  have "sorted_list_of_set (set [bstr ''/m/a.ko'', bstr ''/m/b.ko'']) = [bstr ''/m/a.ko'', bstr ''/m/b.ko'']"
    unfolding sorted_list_of_set_sort_remdups by code_simp
  moreover have "context_new_with ex_kmod (kerneldir ex_ctx) None = Inr 1"
    by (simp add: context_new_with_def context_of_def ex_kmod_def ex_ctx_def run_context_default_def)
  moreover have "destrootdir ex_ctx = bstr ''/dest''" by (simp add: ex_ctx_def)
  moreover have "collect_all ex_kmod [\<lparr>li_list = 11, li_iter = 11\<rparr>] = Some (Inr [1] :: (modules_error, ptr list) res)"
    by (simp add: collect_iter_def ex_kmod_iter)
  ultimately show ?thesis
    by (simp add: install_modules_def ex_modules_resolved oks_def errs_def map_filter_simps ex_install_module
        ex_modules_files Let_def del: bstr_Cons One_nat_def collect_all.simps install_files.simps sorted_list_of_set_insert_remove)
qed

theorem install_modules_closed_witness:
  "\<exists>kmod_ctx V. context_new_with ex_kmod (kerneldir ex_ctx) None = Inr kmod_ctx \<and>
    (\<forall>m. requested (ex_tree ex_modules_root) (\<lambda>_ _. []) ex_kmod kmod_ctx [] [bstr ''a''] m \<longrightarrow> accepted ex_kmod ex_ctx m \<longrightarrow>
      settled_path ex_kmod m V) \<and>
    (\<forall>p \<in> V. complete_path ex_kmod kmod_ctx V p) \<and>
    (\<forall>p \<in> V. \<exists>m x. requested (ex_tree ex_modules_root) (\<lambda>_ _. []) ex_kmod kmod_ctx [] [bstr ''a''] m \<and>
      accepted ex_kmod ex_ctx m \<and> (depends ex_kmod kmod_ctx)\<^sup>*\<^sup>* m x \<and> module_path ex_kmod x = Some p) \<and>
    (\<forall>p \<in> V. parent p = None \<or> lexists (ex_tree ex_modules_root) (clone_target (destrootdir ex_ctx) p)
      [(bstr ''/dest/m/b.ko'', FileNode 0), (bstr ''/dest/m/a.ko'', FileNode 0)])"
  by (rule install_modules_closed[OF ex_tree_laws _ _ _ ex_modules]) (simp_all add: ex_kmod_ends ex_kmod_paths)

end
