(* ===== verification/Modalias.thy ===== *)
theory Modalias
  imports ModuleArgs
begin

text \<open>
  \<open>modalias_list\<close> of \<open>src/modules/mod.rs\<close>: the names of the loaded modules, of what these names stand
  for, and of what the device aliases below \<open>/sys/devices\<close> stand for.
\<close>

section \<open>The code\<close>

datatype modalias_error = NoName "path option" | KmodFailed kmod_error | IoFailed io_error

type_synonym 'r names_res = "(modalias_error, 'r) res \<times> bytes set"

text \<open>The body of the loops that insert the name of a module.\<close>

definition name_body :: "'k kmod_sys \<Rightarrow> ptr \<Rightarrow> bytes set \<Rightarrow> unit option names_res option" where
  "name_body K m modules = (case mod_name K m of
      None \<Rightarrow> Some (Inl (Fail (NoName (module_path K m))), modules)
    | Some name \<Rightarrow> Some (Inr None, insert name modules))"

text \<open>The names of all modules a name or an alias stands for.\<close>

definition insert_lookup ::
  "'k kmod_sys \<Rightarrow> ptr \<Rightarrow> bytes \<Rightarrow> bytes set \<Rightarrow> unit option names_res option" where
  "insert_lookup K kmod_ctx alias modules = (case module_new_from_lookup K kmod_ctx alias of
      Inl e \<Rightarrow> Some (map_fail KmodFailed (Inl e), modules)
    | Inr it \<Rightarrow> for_iter (module_next K) (name_body K) it modules)"

definition loaded_body ::
  "'k kmod_sys \<Rightarrow> ptr \<Rightarrow> ptr \<Rightarrow> bytes set \<Rightarrow> unit option names_res option" where
  "loaded_body K kmod_ctx m modules = (case mod_name K m of
      None \<Rightarrow> Some (Inl (Fail (NoName (module_path K m))), modules)
    | Some name \<Rightarrow> insert_lookup K kmod_ctx name (insert name modules))"

abbreviation newline :: u8 where "newline \<equiv> 10"

text \<open>The content of an alias file loses one newline at its end.\<close>

definition strip_newline :: "bytes \<Rightarrow> bytes" where
  "strip_newline b = (if b \<noteq> [] \<and> last b = newline then butlast b else b)"

fun insert_aliases ::
  "fs \<Rightarrow> 'k kmod_sys \<Rightarrow> ptr \<Rightarrow> path list \<Rightarrow> bytes set \<Rightarrow> unit names_res option" where
  "insert_aliases F K kmod_ctx [] modules = Some (Inr (), modules)"
| "insert_aliases F K kmod_ctx (p # ps) modules = (case fs_read F p of
      Inl e \<Rightarrow> Some (Inl (Fail (IoFailed e)), modules)
    | Inr b \<Rightarrow>
        let modalias = strip_newline b in
        if modalias = [] then insert_aliases F K kmod_ctx ps modules
        else (case insert_lookup K kmod_ctx modalias modules of
            None \<Rightarrow> None
          | Some (Inl e, modules) \<Rightarrow> Some (Inl e, modules)
          | Some (Inr _, modules) \<Rightarrow> insert_aliases F K kmod_ctx ps modules))"

definition alias_files :: "(unit + dir_entry) list \<Rightarrow> path list" where
  "alias_files entries =
    map entry_path (filter (\<lambda>e. entry_file_name e = bstr ''modalias'') (oks entries))"

definition modalias_list ::
  "fs \<Rightarrow> 's walk_dir \<Rightarrow> 'k kmod_sys \<Rightarrow> 's \<Rightarrow> (modalias_error, bytes set) res option" where
  "modalias_list F walkdir K s = (case context_new K of
      Inl e \<Rightarrow> Some (map_fail KmodFailed (Inl e))
    | Inr kmod_ctx \<Rightarrow> (case modules_loaded K kmod_ctx of
        Inl e \<Rightarrow> Some (map_fail KmodFailed (Inl e))
      | Inr it \<Rightarrow> (case for_iter (module_next K) (loaded_body K kmod_ctx) it {} of
          None \<Rightarrow> None
        | Some (Inl e, _) \<Rightarrow> Some (Inl e)
        | Some (Inr _, modules) \<Rightarrow>
            map_option (\<lambda>(r, modules). map_sum id (\<lambda>_. modules) r)
              (insert_aliases F K kmod_ctx (alias_files (walkdir (bstr ''/sys/devices'') s)) modules))))"

section \<open>What the list holds\<close>

text \<open>A loop whose body adds a set for each module adds them all.\<close>

lemma for_list_adds:
  assumes "\<And>m V r W. body m V = Some (Inr r, W) \<Longrightarrow> r = None \<and> W = V \<union> f m"
  shows "for_list body (xs :: ('e, ptr) res list) V = Some (Inr r, W) \<Longrightarrow>
    r = None \<and> (\<forall>x \<in> set xs. \<exists>m. x = Inr m) \<and> W = V \<union> (\<Union>m \<in> {m. Inr m \<in> set xs}. f m)"
proof (induction xs arbitrary: V)
  case (Cons x xs)
  obtain m where x: "x = Inr m" using Cons.prems by (cases x) auto
  obtain a V1 where run: "body m V = Some (a, V1)"
    using Cons.prems x by (auto simp: bind_eq_Some_conv)
  with Cons.prems x obtain q' where a: "a = Inr q'" by (cases a) auto
  note m = run[unfolded a]
  from assms[OF m] have q: "q' = None" "V1 = V \<union> f m" by auto
  with Cons.prems x m have "for_list body xs V1 = Some (Inr r, W)" by simp
  from Cons.IH[OF this] q x show ?case by auto
qed simp

lemma for_iter_adds:
  fixes body :: "ptr \<Rightarrow> 'v set \<Rightarrow> (('e, 'r option) res \<times> 'v set) option"
  assumes "finite_list K it" and body: "\<And>m V r W. body m V = Some (Inr r, W) \<Longrightarrow> r = None \<and> W = V \<union> f m"
    and run: "for_iter (module_next K) body it V = Some (Inr r, W)"
  shows "r = None \<and> W = V \<union> (\<Union>m \<in> {m. entry_of K it m}. f m)"
proof -
  obtain ps where ps: "chain K (li_list it) (li_iter it) ps"
    using assms(1) by (auto simp: finite_list_def)
  let ?xs = "map (module_entry K) ps :: ('e, ptr) res list"
  have items: "module_items K it ?xs" using ps by (auto simp: module_items_def)
  from run have loop: "for_list body ?xs V = Some (Inr r, W)"
    unfolding module_list.for_iter_items[OF items] .
  have "{m. Inr m \<in> set ?xs} = {m. entry_of K it m}"
  proof (intro Collect_cong iffI)
    fix m assume "entry_of K it m"
    then obtain p where p: "p \<in> set ps" "m = kmod_module_get_module K p" by (auto simp: entry_of_chain[OF ps])
    with for_list_adds[where f = f, OF body loop] obtain m' where "module_entry K p = (Inr m' :: ('e, ptr) res)" by auto
    with p show "Inr m \<in> set ?xs" by (force simp: module_entry_def module_new_def split: if_splits)
  qed (auto simp: entry_of_chain[OF ps] module_entry_def module_new_def split: if_splits)
  with for_list_adds[where f = f, OF body loop] show ?thesis by simp
qed

definition stands_for :: "'k kmod_sys \<Rightarrow> ptr \<Rightarrow> bytes \<Rightarrow> bytes set" where
  "stands_for K kmod_ctx alias = {n. \<exists>it m. module_new_from_lookup K kmod_ctx alias = Inr it \<and>
    entry_of K it m \<and> mod_name K m = Some n}"

lemma name_body_adds: "name_body K m V = Some (Inr r, W) \<Longrightarrow> r = None \<and> W = V \<union> {n. mod_name K m = Some n}"
  by (auto simp: name_body_def split: option.splits)

lemma insert_lookup_adds:
  assumes "lists_end K kc" and "insert_lookup K kc alias V = Some (Inr r, W)"
  shows "r = None \<and> W = V \<union> stands_for K kc alias"
proof -
  obtain it where it: "module_new_from_lookup K kc alias = Inr it"
    and loop: "for_iter (module_next K) (name_body K) it V = Some (Inr r, W)"
    using assms(2) by (auto simp: insert_lookup_def map_fail_def split: sum.splits fault.splits)
  from for_iter_adds[where f = "\<lambda>m. {n. mod_name K m = Some n}", OF lists_endD(4)[OF assms(1) it] name_body_adds loop] it
  show ?thesis by (auto simp: stands_for_def)
qed

lemma insert_aliases_adds:
  assumes "lists_end K kc"
  shows "insert_aliases F K kc ps V = Some (Inr (), W) \<Longrightarrow> W = V \<union>
    {n. \<exists>p b. p \<in> set ps \<and> fs_read F p = Inr b \<and> strip_newline b \<noteq> [] \<and> n \<in> stands_for K kc (strip_newline b)}"
proof (induction ps arbitrary: V)
  case (Cons p ps)
  obtain b where b: "fs_read F p = Inr b" using Cons.prems by (auto split: sum.splits)
  show ?case
  proof (cases "strip_newline b = []")
    case True
    with Cons.prems b have "insert_aliases F K kc ps V = Some (Inr (), W)" by simp
    from Cons.IH[OF this] b True show ?thesis by auto
  next
    case False
    with Cons.prems b obtain q V1 where look: "insert_lookup K kc (strip_newline b) V = Some (Inr q, V1)"
      and rest: "insert_aliases F K kc ps V1 = Some (Inr (), W)"
      by (auto simp: Let_def split: option.splits sum.splits)
    from insert_lookup_adds[OF assms look] Cons.IH[OF rest] b False show ?thesis by auto
  qed
qed simp

lemma modalias_list_facts:
  assumes ends: "\<forall>kmod_ctx. lists_end K kmod_ctx"
    and loaded_end: "\<forall>kmod_ctx it. modules_loaded K kmod_ctx = Inr it \<longrightarrow> finite_list K it"
    and run: "modalias_list F walkdir K s = Some (Inr names)"
  shows "\<exists>kmod_ctx it. context_new K = Inr kmod_ctx \<and> modules_loaded K kmod_ctx = Inr it \<and>
    names = (\<Union>m \<in> {m. entry_of K it m}. {n. mod_name K m = Some n}) \<union>
      (\<Union>m \<in> {m. entry_of K it m}. {n. \<exists>a. mod_name K m = Some a \<and> n \<in> stands_for K kmod_ctx a}) \<union>
      {n. \<exists>p b. p \<in> set (alias_files (walkdir (bstr ''/sys/devices'') s)) \<and> fs_read F p = Inr b \<and>
        strip_newline b \<noteq> [] \<and> n \<in> stands_for K kmod_ctx (strip_newline b)}"
proof -
  obtain kc it q V where kc: "context_new K = Inr kc" and it: "modules_loaded K kc = Inr it"
    and loop: "for_iter (module_next K) (loaded_body K kc) it {} = Some (Inr q, V)"
    and aliases: "insert_aliases F K kc (alias_files (walkdir (bstr ''/sys/devices'') s)) V = Some (Inr (), names)"
    using run by (auto simp: modalias_list_def map_fail_def map_sum_Inr split: option.splits sum.splits fault.splits)
  have body: "r = None \<and> W = V \<union> ({n. mod_name K m = Some n} \<union> {n. \<exists>a. mod_name K m = Some a \<and> n \<in> stands_for K kc a})"
    if "loaded_body K kc m V = Some (Inr r, W)" for m V r W
  proof -
    from that obtain a where a: "mod_name K m = Some a" "insert_lookup K kc a (insert a V) = Some (Inr r, W)"
      by (auto simp: loaded_body_def split: option.splits)
    from insert_lookup_adds[OF ends[rule_format] a(2)] a(1) show ?thesis by auto
  qed
  from for_iter_adds[where f = "\<lambda>m. {n. mod_name K m = Some n} \<union> {n. \<exists>a. mod_name K m = Some a \<and> n \<in> stands_for K kc a}",
      OF loaded_end[rule_format, OF it] body loop] insert_aliases_adds[OF ends[rule_format] aliases] kc it
  show ?thesis by (intro exI[of _ kc] exI[of _ it]) auto
qed

text \<open>
  C14: The list of a successful run holds exactly the names of the loaded modules, of the modules these
  names stand for, and of the modules that the content of an alias file stands for, where a newline at
  the end is dropped and empty files are passed over.
\<close>

theorem modalias_list_exact:
  assumes "\<forall>kmod_ctx. lists_end K kmod_ctx"
    and "\<forall>kmod_ctx it. modules_loaded K kmod_ctx = Inr it \<longrightarrow> finite_list K it"
    and "modalias_list F walkdir K s = Some (Inr names)"
  shows "\<exists>kmod_ctx it. context_new K = Inr kmod_ctx \<and> modules_loaded K kmod_ctx = Inr it \<and>
    names = (\<Union>m \<in> {m. entry_of K it m}. {n. mod_name K m = Some n}) \<union>
      (\<Union>m \<in> {m. entry_of K it m}. {n. \<exists>a. mod_name K m = Some a \<and> n \<in> stands_for K kmod_ctx a}) \<union>
      {n. \<exists>p b. p \<in> set (alias_files (walkdir (bstr ''/sys/devices'') s)) \<and> fs_read F p = Inr b \<and>
        strip_newline b \<noteq> [] \<and> n \<in> stands_for K kmod_ctx (strip_newline b)}"
  by (rule modalias_list_facts[OF assms])

definition ex_alias_fs :: fs where
  "ex_alias_fs = \<lparr>fs_read = (\<lambda>_. Inr (bstr ''a'' @ [newline])), fs_canonicalize = (\<lambda>p. Inr p), fs_exists = (\<lambda>_. True)\<rparr>"

definition ex_walk :: "path \<Rightarrow> unit \<Rightarrow> (unit + dir_entry) list" where
  "ex_walk p s = [Inl (), Inr \<lparr>entry_path = bstr ''/sys/devices/x/modalias'', entry_file_name = bstr ''modalias''\<rparr>]"

lemma ex_modalias: "modalias_list ex_alias_fs ex_walk ex_kmod () = Some (Inr {bstr ''a''})"
proof -
  have name: "mod_name ex_kmod 1 = Some (bstr ''a'')" by (simp add: mod_name_def ex_kmod_def)
  have kc: "context_new ex_kmod = Inr 1" by (simp add: context_new_def context_of_def ex_kmod_def)
  have loaded: "modules_loaded ex_kmod 1 = Inr \<lparr>li_list = 11, li_iter = 11\<rparr>"
    by (simp add: modules_loaded_def iterator_of_def iterator_new_def ex_kmod_def)
  have look: "module_new_from_lookup ex_kmod 1 (bstr ''a'') = Inr \<lparr>li_list = 11, li_iter = 11\<rparr>"
    by (simp add: module_new_from_lookup_def cstring_def iterator_of_def iterator_new_def ex_kmod_def)
  have files: "alias_files (ex_walk (bstr ''/sys/devices'') ()) = [bstr ''/sys/devices/x/modalias'']"
    by (simp add: alias_files_def ex_walk_def oks_def map_filter_simps)
  have content: "fs_read ex_alias_fs p = Inr (bstr ''a'' @ [newline])" for p by (simp add: ex_alias_fs_def)
  have insert: "insert_lookup ex_kmod 1 (bstr ''a'') V = Some (Inr None, insert (bstr ''a'') V)" for V
    unfolding insert_lookup_def look by (simp add: ex_kmod_iter name_body_def name del: bstr_Cons One_nat_def)
  have "insert_aliases ex_alias_fs ex_kmod 1 [bstr ''/sys/devices/x/modalias''] V = Some (Inr (), insert (bstr ''a'') V)" for V
    by (simp add: content strip_newline_def insert Let_def del: bstr_Cons One_nat_def) (simp add: bstr_def)
  then show ?thesis
    by (simp add: modalias_list_def kc loaded ex_kmod_iter loaded_body_def name insert files
        del: bstr_Cons One_nat_def insert_aliases.simps)
qed

theorem modalias_list_exact_witness:
  "\<exists>kmod_ctx it. context_new ex_kmod = Inr kmod_ctx \<and> modules_loaded ex_kmod kmod_ctx = Inr it \<and>
    {bstr ''a''} = (\<Union>m \<in> {m. entry_of ex_kmod it m}. {n. mod_name ex_kmod m = Some n}) \<union>
      (\<Union>m \<in> {m. entry_of ex_kmod it m}. {n. \<exists>a. mod_name ex_kmod m = Some a \<and> n \<in> stands_for ex_kmod kmod_ctx a}) \<union>
      {n. \<exists>p b. p \<in> set (alias_files (ex_walk (bstr ''/sys/devices'') ())) \<and> fs_read ex_alias_fs p = Inr b \<and>
        strip_newline b \<noteq> [] \<and> n \<in> stands_for ex_kmod kmod_ctx (strip_newline b)}"
  by (rule modalias_list_exact[OF _ _ ex_modalias]) (use ex_kmod_ends ex_kmod_finite in blast)+

end
