(* ===== verification/DracutMain.thy ===== *)
theory DracutMain
  imports Modalias
begin

text \<open>
  The program of \<open>src/main.rs\<close>: its options, the context made of them, and the dispatch. The parser of
  the command line (crate \<open>clap\<close>) and the compiler of regular expressions are parameters, as is what
  the program asks the system for. The log has no influence on the outcome and is left out, apart from
  the opening of its file.
\<close>

section \<open>The options\<close>

record app_arg =
  arg_name :: string
  short :: "char option"
  long :: "string option"
  value_name :: "string option"
  help_text :: string
  takes_value :: bool
  multiple :: bool
  required :: bool

definition with_name :: "string \<Rightarrow> app_arg" where
  "with_name n = \<lparr>arg_name = n, short = None, long = None, value_name = None, help_text = [],
    takes_value = False, multiple = False, required = False\<rparr>"

text \<open>The flags, the options with a value and the files; and all of them.\<close>

definition flag_args :: "app_arg list" where
  "flag_args = [
    (with_name ''debug'')\<lparr>long := Some ''debug'',
      help_text := ''Show debug output''\<rparr>,
    (with_name ''verbose'')\<lparr>short := Some (CHR ''v''), long := Some ''verbose'',
      help_text := ''Show more output'', multiple := True\<rparr>,
    (with_name ''version'')\<lparr>long := Some ''version'',
      help_text := ''Show package version'', takes_value := False, required := False\<rparr>,
    (with_name ''dir'')\<lparr>short := Some (CHR ''d''), long := Some ''dir'',
      help_text := ''SOURCE is a directory'', takes_value := False, required := False\<rparr>,
    (with_name ''ldd'')\<lparr>short := Some (CHR ''l''), long := Some ''ldd'',
      help_text := ''Also install shebang executables and libraries'', takes_value := False, required := False\<rparr>,
    (with_name ''resolvelazy'')\<lparr>short := Some (CHR ''R''), long := Some ''resolvelazy'',
      help_text := ''Only install shebang executables and libraries for all SOURCE files'', takes_value := False, required := False\<rparr>,
    (with_name ''optional'')\<lparr>short := Some (CHR ''o''), long := Some ''optional'',
      help_text := ''If SOURCE does not exist, do not fail'', takes_value := False, required := False\<rparr>,
    (with_name ''all'')\<lparr>short := Some (CHR ''a''), long := Some ''all'',
      help_text := ''Install all SOURCE arguments to <DESTROOTDIR>'', takes_value := False, required := False\<rparr>,
    (with_name ''hostonly'')\<lparr>short := Some (CHR ''H''), long := Some ''hostonly'',
      help_text := ''Mark all SOURCE files as hostonly'', takes_value := False, required := False\<rparr>,
    (with_name ''module'')\<lparr>short := Some (CHR ''m''), long := Some ''module'',
      help_text := ''Install kernel modules, instead of files'', takes_value := False, required := False\<rparr>,
    (with_name ''fips'')\<lparr>short := Some (CHR ''f''), long := Some ''fips'',
      help_text := ''Also install all '.SOURCE.hmac' files'', takes_value := False, required := False\<rparr>,
    (with_name ''modalias'')\<lparr>long := Some ''modalias'',
      help_text := ''Only generate module list from /sys/devices modalias list'', takes_value := False, required := False\<rparr>,
    (with_name ''silent'')\<lparr>long := Some ''silent'',
      help_text := ''Don't display error messages for kernel module install'', takes_value := False, required := False\<rparr>]"

definition value_args :: "app_arg list" where
  "value_args = [
    (with_name ''destrootdir'')\<lparr>short := Some (CHR ''D''), long := Some ''destrootdir'', value_name := Some ''DESTROOTDIR'',
      help_text := ''Install all files to <DESTROOTDIR> as the root'', takes_value := True, required := False\<rparr>,
    (with_name ''logdir'')\<lparr>short := Some (CHR ''L''), long := Some ''logdir'', value_name := Some ''DIR'',
      help_text := ''Log files, which were installed from the host to <DIR>'', takes_value := True, required := False\<rparr>,
    (with_name ''mod-filter-path'')\<lparr>short := Some (CHR ''p''), long := Some ''mod-filter-path'', value_name := Some ''REGEXP'',
      help_text := ''Filter kernel modules by path <REGEXP>'', takes_value := True, required := False\<rparr>,
    (with_name ''mod-filter-nopath'')\<lparr>short := Some (CHR ''P''), long := Some ''mod-filter-nopath'', value_name := Some ''REGEXP'',
      help_text := ''Exclude kernel modules by path <REGEXP>'', takes_value := True, required := False\<rparr>,
    (with_name ''mod-filter-symbol'')\<lparr>short := Some (CHR ''s''), long := Some ''mod-filter-symbol'', value_name := Some ''REGEXP'',
      help_text := ''Filter kernel modules by symbol <REGEXP>'', takes_value := True, required := False\<rparr>,
    (with_name ''mod-filter-nosymbol'')\<lparr>short := Some (CHR ''S''), long := Some ''mod-filter-nosymbol'', value_name := Some ''REGEXP'',
      help_text := ''Exclude kernel modules by symbol <REGEXP>'', takes_value := True, required := False\<rparr>,
    (with_name ''mod-filter-noname'')\<lparr>short := Some (CHR ''N''), long := Some ''mod-filter-noname'', value_name := Some ''REGEXP'',
      help_text := ''Exclude kernel modules by name <REGEXP>'', takes_value := True, required := False\<rparr>,
    (with_name ''kerneldir'')\<lparr>long := Some ''kerneldir'', value_name := Some ''DIR'',
      help_text := ''Specify the kernel module directory'', takes_value := True, required := False\<rparr>,
    (with_name ''firmwaredirs'')\<lparr>long := Some ''firmwaredirs'', value_name := Some ''DIRS'',
      help_text := ''Specify the firmware directory search path with : separation'', takes_value := True, required := False\<rparr>,
    (with_name ''arg'')\<lparr>help_text := ''files, directories or kernel modules'', takes_value := True,
      multiple := True, required := False\<rparr>]"

definition app_args :: "app_arg list" where
  "app_args = flag_args @ value_args"

text \<open>What the parser has found on the command line.\<close>

record arg_matches =
  value_of_os :: "string \<Rightarrow> bytes option"
  values_of_os :: "string \<Rightarrow> bytes list option"
  is_present :: "string \<Rightarrow> bool"
  occurrences_of :: "string \<Rightarrow> nat"

section \<open>The context\<close>

abbreviation colon :: u8 where "colon \<equiv> 58"

definition verbosity :: "arg_matches \<Rightarrow> level" where
  "verbosity M =
    (if is_present M ''debug'' then Debug
     else
       let n = occurrences_of M ''verbose'' in
       if n = 0 then Warning else if n = 1 then Info else if n = 2 then Debug else Trace)"

text \<open>The root of the destination; \<open>None\<close> when the program exits with status 1.\<close>

definition dest_of :: "arg_matches \<Rightarrow> (string \<Rightarrow> bytes option) \<Rightarrow> path option" where
  "dest_of M env = (case value_of_os M ''destrootdir'' of
      Some dir \<Rightarrow> Some dir
    | None \<Rightarrow> (case env ''DESTROOTDIR'' of
        Some d \<Rightarrow> Some d
      | None \<Rightarrow> if is_present M ''modalias'' then Some [] else None))"

text \<open>An option whose value is a regular expression; \<open>None\<close> when it is none and the program exits.\<close>

definition regex_of :: "arg_matches \<Rightarrow> (bytes \<Rightarrow> regex option) \<Rightarrow> string \<Rightarrow> regex option option" where
  "regex_of M regex_new n = (case value_of_os M n of
      None \<Rightarrow> Some None
    | Some s \<Rightarrow> map_option Some (regex_new (from_utf8_lossy s)))"

text \<open>A list of directories with colons in between.\<close>

definition dirs_of :: "bytes option \<Rightarrow> bytes list" where
  "dirs_of v = (case v of None \<Rightarrow> [] | Some s \<Rightarrow> split_on colon s)"

definition run_context_of ::
  "arg_matches \<Rightarrow> (string \<Rightarrow> bytes option) \<Rightarrow> (bytes \<Rightarrow> regex option) \<Rightarrow> run_context option" where
  "run_context_of M env regex_new =
    Option.bind (dest_of M env) (\<lambda>dest.
    Option.bind (regex_of M regex_new ''mod-filter-path'') (\<lambda>fpath.
    Option.bind (regex_of M regex_new ''mod-filter-nopath'') (\<lambda>fnopath.
    Option.bind (regex_of M regex_new ''mod-filter-symbol'') (\<lambda>fsymbol.
    Option.bind (regex_of M regex_new ''mod-filter-nosymbol'') (\<lambda>fnosymbol.
    Option.bind (regex_of M regex_new ''mod-filter-noname'') (\<lambda>fnoname.
    Some \<lparr>hmac = is_present M ''hmac'', createdir = is_present M ''createdir'',
      optional = is_present M ''optional'', silent = is_present M ''silent'',
      all_sources = is_present M ''all'', kernel_module = is_present M ''module'',
      modalias = is_present M ''modalias'', resolvelazy = is_present M ''resolvelazy'',
      resolvedeps = is_present M ''resolvedeps'', hostonly = is_present M ''hostonly'',
      loglevel = verbosity M, destrootdir = dest,
      kerneldir = value_of_os M ''kerneldir'', logdir = value_of_os M ''logdir'',
      mod_filter_path = fpath, mod_filter_nopath = fnopath, mod_filter_symbol = fsymbol,
      mod_filter_nosymbol = fnosymbol, mod_filter_noname = fnoname,
      firmwaredirs = dirs_of (value_of_os M ''firmwaredirs''), pathdirs = dirs_of (env ''PATH'')\<rparr>))))))"

section \<open>The dispatch\<close>

text \<open>The system and the libraries, with the choices the search and the sets leave open.\<close>

record ('s, 'k) world =
  w_paths :: "'s path_sys"
  w_fs :: "'s \<Rightarrow> fs"
  w_walk :: "'s walk_dir"
  w_open_append :: "path \<Rightarrow> 's \<Rightarrow> (io_error + unit) \<times> 's"
  w_uname :: "io_error + bytes"
  w_getpid :: nat
  w_kmod :: "'k kmod_sys"
  w_zip_longest :: zip_longest
  w_byteorder :: byteorder
  w_native :: endianness
  w_order :: "nat \<Rightarrow> path set \<Rightarrow> path list"
  w_pick :: "nat \<Rightarrow> nat"
  w_drain :: "path set \<Rightarrow> path list"

text \<open>\<open>Display\<close> of a number.\<close>

fun decimal :: "nat \<Rightarrow> bytes" where
  "decimal n = (if n < 10 then [of_nat (48 + n)] else decimal (n div 10) @ [of_nat (48 + n mod 10)])"

declare decimal.simps [simp del]

datatype main_error =
    LogFile io_error
  | Uname io_error
  | ModaliasFailed modalias_error
  | ModulesFailed modules_error
  | FilesFailed clone_error

text \<open>The file of the log is opened when a directory for it is given.\<close>

definition open_log :: "('s, 'k) world \<Rightarrow> run_context \<Rightarrow> 's \<Rightarrow> (main_error, unit) res \<times> 's" where
  "open_log W ctx s = (case logdir ctx of
      None \<Rightarrow> (Inr (), s)
    | Some dir \<Rightarrow> (case w_open_append W (push dir (decimal (w_getpid W) @ bstr ''.log'')) s of
        (Inl e, s) \<Rightarrow> (Inl (Fail (LogFile e)), s)
      | (Inr _, s) \<Rightarrow> (Inr (), s)))"

text \<open>The directory of the modules is that of the running kernel unless it is given.\<close>

definition set_kerneldir :: "('s, 'k) world \<Rightarrow> run_context \<Rightarrow> (main_error, run_context) res" where
  "set_kerneldir W ctx = (case kerneldir ctx of
      Some _ \<Rightarrow> Inr ctx
    | None \<Rightarrow> (case w_uname W of
        Inl e \<Rightarrow> Inl (Fail (Uname e))
      | Inr release \<Rightarrow> Inr (ctx\<lparr>kerneldir := Some (bstr ''/lib/modules/'' @ release)\<rparr>)))"

text \<open>The result holds the names that are printed.\<close>

definition do_main ::
  "('s, 'k) world \<Rightarrow> nat \<Rightarrow> run_context \<Rightarrow> bytes list \<Rightarrow> 's \<Rightarrow> ((main_error, bytes list) res \<times> 's) option" where
  "do_main W fuel ctx args s = (case open_log W ctx s of
      (Inl e, s) \<Rightarrow> Some (Inl e, s)
    | (Inr _, s) \<Rightarrow> (case set_kerneldir W ctx of
        Inl e \<Rightarrow> Some (Inl e, s)
      | Inr ctx \<Rightarrow>
          if modalias ctx then
            map_option (\<lambda>r. (map_fail ModaliasFailed (map_sum id (w_drain W) r), s))
              (modalias_list (w_fs W s) (w_walk W) (w_kmod W) s)
          else if kernel_module ctx then
            map_option (\<lambda>(r, s). (map_fail ModulesFailed (map_sum id (\<lambda>_. []) r), s))
              (install_modules fuel (w_zip_longest W) (w_paths W) (w_walk W) (w_kmod W) (w_drain W) ctx args s)
          else
            map_option (\<lambda>(r, s). (map_fail FilesFailed (map_sum id (\<lambda>_. []) r), s))
              (install_files_ldd (w_byteorder W) (w_native W) (w_zip_longest W) (w_paths W) (w_fs W) (w_order W)
                (w_pick W) fuel (destrootdir ctx) args s)))"

text \<open>The status the program ends with, and what it prints; an unwinding panic has status 101.\<close>

definition main ::
  "('s, 'k) world \<Rightarrow> nat \<Rightarrow> arg_matches \<Rightarrow> (string \<Rightarrow> bytes option) \<Rightarrow> (bytes \<Rightarrow> regex option) \<Rightarrow> 's \<Rightarrow>
    ((nat \<times> bytes list) \<times> 's) option" where
  "main W fuel M env regex_new s = (case run_context_of M env regex_new of
      None \<Rightarrow> Some ((1, []), s)
    | Some ctx \<Rightarrow>
        let files = (case values_of_os M ''arg'' of Some v \<Rightarrow> v | None \<Rightarrow> []) in
        map_option (\<lambda>(r, s). (case r of
            Inl Panic \<Rightarrow> (101, [])
          | Inl (Fail _) \<Rightarrow> (1, [])
          | Inr printed \<Rightarrow> (0, printed), s))
          (do_main W fuel ctx files s))"

section \<open>The options in the context\<close>

text \<open>Lists with a separator in between.\<close>

fun join_with :: "'a \<Rightarrow> 'a list list \<Rightarrow> 'a list" where
  "join_with sep [] = []"
| "join_with sep [x] = x"
| "join_with sep (x # xs) = x @ sep # join_with sep xs"

lemma join_with_Cons: "xs \<noteq> [] \<Longrightarrow> join_with sep (x # xs) = x @ sep # join_with sep xs"
  by (cases xs) auto

lemma join_split_on: "join_with sep (split_on sep s) = s"
proof (induction s)
  case (Cons c s)
  show ?case
  proof (cases "c = sep")
    case True
    with Cons show ?thesis by (simp add: join_with_Cons)
  next
    case False
    obtain p ps where ps: "split_on sep s = p # ps" by (cases "split_on sep s") auto
    with False Cons show ?thesis by (cases ps) auto
  qed
qed simp

lemma dirs_of_value: "case v of None \<Rightarrow> dirs_of v = [] | Some s \<Rightarrow>
    join_with colon (dirs_of v) = s \<and> list_all (\<lambda>d. colon \<notin> set d) (dirs_of v)"
  by (auto simp: dirs_of_def join_split_on list_all_iff split_on_no_sep split: option.split)

lemma undeclared: "n \<in> {''hmac'', ''createdir'', ''resolvedeps''} \<Longrightarrow> n \<notin> set (map arg_name app_args)"
  by (auto simp: app_args_def flag_args_def value_args_def with_name_def)

text \<open>
  C37: What a context holds when the parser only reports options that are declared. Three of the
  options that are asked for are not declared, so their fields are never set; the two lists of
  directories are the pieces of what was given, none of them with a colon; warnings are always logged.
\<close>

theorem run_context_options:
  assumes "\<forall>n. is_present M n \<longrightarrow> n \<in> set (map arg_name app_args)"
    and "run_context_of M env regex_new = Some ctx"
  shows "\<not> hmac ctx \<and> \<not> createdir ctx \<and> \<not> resolvedeps ctx \<and>
    loglevel ctx \<noteq> Critical \<and> loglevel ctx \<noteq> Error \<and>
    (case value_of_os M ''firmwaredirs'' of None \<Rightarrow> firmwaredirs ctx = [] | Some s \<Rightarrow>
      join_with colon (firmwaredirs ctx) = s \<and> list_all (\<lambda>d. colon \<notin> set d) (firmwaredirs ctx)) \<and>
    (case env ''PATH'' of None \<Rightarrow> pathdirs ctx = [] | Some s \<Rightarrow>
      join_with colon (pathdirs ctx) = s \<and> list_all (\<lambda>d. colon \<notin> set d) (pathdirs ctx))"
proof -
  have fields: "hmac ctx = is_present M ''hmac''" "createdir ctx = is_present M ''createdir''"
    "resolvedeps ctx = is_present M ''resolvedeps''" "loglevel ctx = verbosity M"
    "firmwaredirs ctx = dirs_of (value_of_os M ''firmwaredirs'')" "pathdirs ctx = dirs_of (env ''PATH'')"
    using assms(2) by (auto simp: run_context_of_def bind_eq_Some_conv)
  have "\<not> is_present M ''hmac''" "\<not> is_present M ''createdir''" "\<not> is_present M ''resolvedeps''"
    using assms(1) undeclared by blast+
  moreover have "verbosity M \<noteq> Critical" "verbosity M \<noteq> Error" by (simp_all add: verbosity_def Let_def)
  ultimately show ?thesis unfolding fields by (intro conjI dirs_of_value) simp_all
qed

definition ex_matches :: arg_matches where
  "ex_matches = \<lparr>value_of_os = (\<lambda>n. if n = ''destrootdir'' then Some (bstr ''/dest'')
      else if n = ''firmwaredirs'' then Some (bstr ''/a:/b'') else None),
    values_of_os = (\<lambda>n. if n = ''arg'' then Some [bstr ''a''] else None),
    is_present = (\<lambda>n. n \<in> {''module'', ''verbose''}), occurrences_of = (\<lambda>n. if n = ''verbose'' then 2 else 0)\<rparr>"

theorem run_context_options_witness:
  "map_option (\<lambda>ctx. \<not> hmac ctx \<and> \<not> createdir ctx \<and> \<not> resolvedeps ctx \<and>
    loglevel ctx \<noteq> Critical \<and> loglevel ctx \<noteq> Error \<and>
    (case Some (bstr ''/a:/b'') of None \<Rightarrow> firmwaredirs ctx = [] | Some s \<Rightarrow>
      join_with colon (firmwaredirs ctx) = s \<and> list_all (\<lambda>d. colon \<notin> set d) (firmwaredirs ctx)))
    (run_context_of ex_matches (\<lambda>_. None) (\<lambda>_. None)) = Some True"
proof -
  have declared: "\<forall>n. is_present ex_matches n \<longrightarrow> n \<in> set (map arg_name app_args)"
    by (simp add: ex_matches_def app_args_def flag_args_def value_args_def with_name_def)
  obtain ctx where ctx: "run_context_of ex_matches (\<lambda>_. None) (\<lambda>_. None) = Some ctx"
    by (simp add: run_context_of_def dest_of_def regex_of_def ex_matches_def)
  have "value_of_os ex_matches ''firmwaredirs'' = Some (bstr ''/a:/b'')" by (simp add: ex_matches_def)
  with run_context_options[OF declared ctx] ctx show ?thesis by simp
qed

end
