(* ===== verification/ElfWrite.thy ===== *)
theory ElfWrite
  imports ElfRead
begin

text \<open>
  The rest of \<open>src/elfkit/utils.rs\<close>: the macros \<open>elf_dispatch_endianness\<close> and \<open>elf_dispatch_uclass\<close>,
  which choose the readers once for a block of code, and the macros that write. What a block has at
  hand is its argument. The encoding functions of the crate \<open>byteorder\<close> are the parameter \<open>bw\<close>, and a
  writer takes the bytes that \<open>write_all\<close> is given.
\<close>

section \<open>Dispatching once\<close>

record dispatched =
  d_read_u16 :: "(io_error, u16) reader"
  d_read_u32 :: "(io_error, u32) reader"
  d_read_u64 :: "(io_error, u64) reader"

definition elf_dispatch_endianness :: "byteorder \<Rightarrow> endianness \<Rightarrow> (dispatched \<Rightarrow> 'a) \<Rightarrow> 'a" where
  "elf_dispatch_endianness bo e block = (case e of
      LittleEndian \<Rightarrow> block \<lparr>
        d_read_u16 = rd_bind (read_exact 2) (\<lambda>b. rd_return (bo_le_u16 bo b)),
        d_read_u32 = rd_bind (read_exact 4) (\<lambda>b. rd_return (bo_le_u32 bo b)),
        d_read_u64 = rd_bind (read_exact 8) (\<lambda>b. rd_return (bo_le_u64 bo b))\<rparr>
    | BigEndian \<Rightarrow> block \<lparr>
        d_read_u16 = rd_bind (read_exact 2) (\<lambda>b. rd_return (bo_be_u16 bo b)),
        d_read_u32 = rd_bind (read_exact 4) (\<lambda>b. rd_return (bo_be_u32 bo b)),
        d_read_u64 = rd_bind (read_exact 8) (\<lambda>b. rd_return (bo_be_u64 bo b))\<rparr>)"

definition elf_dispatch_uclass ::
  "dispatched \<Rightarrow> elf_class \<Rightarrow> ((io_error, u64) reader \<Rightarrow> 'a) \<Rightarrow> 'a" where
  "elf_dispatch_uclass d c block = (case c of
      Class32 \<Rightarrow> block (rd_bind (d_read_u32 d) (\<lambda>v. rd_return (ucast v)))
    | Class64 \<Rightarrow> block (d_read_u64 d))"

text \<open>The readers of a block are those of the macros that choose at every read.\<close>

lemma elf_dispatch_endianness_eq:
  "elf_dispatch_endianness bo e block =
    block \<lparr>d_read_u16 = elf_read_u16 bo e, d_read_u32 = elf_read_u32 bo e, d_read_u64 = elf_read_u64 bo e\<rparr>"
  by (cases e) (simp_all add: elf_dispatch_endianness_def elf_read_u16_def elf_read_u32_def elf_read_u64_def)

lemma elf_dispatch_eq:
  "elf_dispatch_endianness bo e (\<lambda>d. elf_dispatch_uclass d c (block d)) =
    block \<lparr>d_read_u16 = elf_read_u16 bo e, d_read_u32 = elf_read_u32 bo e, d_read_u64 = elf_read_u64 bo e\<rparr>
      (elf_read_uclass bo e c)"
  by (cases c) (simp_all add: elf_dispatch_endianness_eq elf_dispatch_uclass_def elf_read_uclass_def)

section \<open>Writing\<close>

record byteorder_write =
  bw_le_u16 :: "u16 \<Rightarrow> bytes"
  bw_be_u16 :: "u16 \<Rightarrow> bytes"
  bw_le_u32 :: "u32 \<Rightarrow> bytes"
  bw_be_u32 :: "u32 \<Rightarrow> bytes"
  bw_le_u64 :: "u64 \<Rightarrow> bytes"
  bw_be_u64 :: "u64 \<Rightarrow> bytes"

text \<open>What the documentation promises: the bytes of the integer in the order of the name.\<close>

definition byteorder_write_ok :: "byteorder_write \<Rightarrow> bool" where
  "byteorder_write_ok bw \<longleftrightarrow>
    (\<forall>w. bw_le_u16 bw w = to_le 2 (unat w) \<and> bw_be_u16 bw w = rev (to_le 2 (unat w))) \<and>
    (\<forall>w. bw_le_u32 bw w = to_le 4 (unat w) \<and> bw_be_u32 bw w = rev (to_le 4 (unat w))) \<and>
    (\<forall>w. bw_le_u64 bw w = to_le 8 (unat w) \<and> bw_be_u64 bw w = rev (to_le 8 (unat w)))"

type_synonym 's writer = "bytes \<Rightarrow> 's \<Rightarrow> (io_error, unit) res \<times> 's"

definition elf_write_u16 :: "byteorder_write \<Rightarrow> 's writer \<Rightarrow> endianness \<Rightarrow> u16 \<Rightarrow> 's \<Rightarrow> (io_error, unit) res \<times> 's" where
  "elf_write_u16 bw write_all e val = write_all
    (case e of LittleEndian \<Rightarrow> bw_le_u16 bw val | BigEndian \<Rightarrow> bw_be_u16 bw val)"

definition elf_write_u32 :: "byteorder_write \<Rightarrow> 's writer \<Rightarrow> endianness \<Rightarrow> u32 \<Rightarrow> 's \<Rightarrow> (io_error, unit) res \<times> 's" where
  "elf_write_u32 bw write_all e val = write_all
    (case e of LittleEndian \<Rightarrow> bw_le_u32 bw val | BigEndian \<Rightarrow> bw_be_u32 bw val)"

definition elf_write_u64 :: "byteorder_write \<Rightarrow> 's writer \<Rightarrow> endianness \<Rightarrow> u64 \<Rightarrow> 's \<Rightarrow> (io_error, unit) res \<times> 's" where
  "elf_write_u64 bw write_all e val = write_all
    (case e of LittleEndian \<Rightarrow> bw_le_u64 bw val | BigEndian \<Rightarrow> bw_be_u64 bw val)"

text \<open>In a file of class 32 the value is cut to 32 bits.\<close>

definition elf_write_uclass ::
  "byteorder_write \<Rightarrow> 's writer \<Rightarrow> endianness \<Rightarrow> elf_class \<Rightarrow> u64 \<Rightarrow> 's \<Rightarrow> (io_error, unit) res \<times> 's" where
  "elf_write_uclass bw write_all e c val = (case c of
      Class32 \<Rightarrow> elf_write_u32 bw write_all e (ucast val)
    | Class64 \<Rightarrow> elf_write_u64 bw write_all e val)"

text \<open>A writer that appends to a vector, which never fails.\<close>

definition vec_write :: "bytes writer" where
  "vec_write b v = (Inr (), v @ b)"

lemma elf_write_enc:
  assumes "byteorder_write_ok bw"
  shows "elf_write_u16 bw vec_write e w16 v = (Inr (), v @ enc_u16 e w16)"
    and "elf_write_u32 bw vec_write e w32 v = (Inr (), v @ enc_u32 e w32)"
    and "elf_write_u64 bw vec_write e w64 v = (Inr (), v @ enc_u64 e w64)"
    and "elf_write_uclass bw vec_write e c w v = (Inr (), v @ enc_uclass e c w)"
proof -
  show u: "elf_write_u16 bw vec_write e w16 v = (Inr (), v @ enc_u16 e w16)"
    "elf_write_u32 bw vec_write e w32 v = (Inr (), v @ enc_u32 e w32)"
    "elf_write_u64 bw vec_write e w64 v = (Inr (), v @ enc_u64 e w64)" for w32 w64
    using assms
    by (cases e; simp add: byteorder_write_ok_def elf_write_u16_def elf_write_u32_def elf_write_u64_def
        enc_u16_def enc_u32_def enc_u64_def in_order_def vec_write_def)+
  show "elf_write_uclass bw vec_write e c w v = (Inr (), v @ enc_uclass e c w)"
    by (cases c) (simp_all add: elf_write_uclass_def enc_uclass_def u)
qed

lemma elf_read_uclass_enc_cut:
  assumes "byteorder_ok bo"
  shows "elf_read_uclass bo e c (enc_uclass e c w @ rest) =
    Inr (case c of Class32 \<Rightarrow> take_bit 32 w | Class64 \<Rightarrow> w, rest)"
proof (cases c)
  case Class32
  have "(ucast (ucast w :: u32) :: u64) = take_bit 32 w"
    by (rule word_unat_eq_iff[THEN iffD2]) (simp add: unsigned_ucast_eq unsigned_take_bit_eq)
  with Class32 assms show ?thesis
    by (simp add: elf_read_uclass_def enc_uclass_def elf_read_enc rd_bind_apply)
qed (use assms in \<open>simp add: elf_read_uclass_def enc_uclass_def elf_read_enc\<close>)

text \<open>
  C29: What is written to a vector is read back by the readers of a dispatched block. The write has the
  width of the class, and a value that does not fit comes back modulo \<open>2 ^ 32\<close> in a file of class 32.
\<close>

theorem elf_write_read:
  assumes "byteorder_ok bo" and "byteorder_write_ok bw"
  shows "\<exists>out. elf_write_uclass bw vec_write e c w v = (Inr (), v @ out) \<and> length out = uclass_size c \<and>
    elf_dispatch_endianness bo e (\<lambda>d. elf_dispatch_uclass d c (\<lambda>read_uclass. read_uclass (out @ rest))) =
      Inr (case c of Class32 \<Rightarrow> word_of_int (uint w mod 2 ^ 32) | Class64 \<Rightarrow> w, rest)"
proof -
  have "take_bit 32 w = word_of_int (uint w mod 2 ^ 32)"
    by (simp add: take_bit_eq_mod word_mod_def)
  then show ?thesis
    using elf_write_enc(4)[OF assms(2)] elf_read_uclass_enc_cut[OF assms(1), of e c w rest]
    by (intro exI[of _ "enc_uclass e c w"]) (simp add: elf_dispatch_eq cong: elf_class.case_cong)
qed

definition byteorder_write_std :: byteorder_write where
  "byteorder_write_std = \<lparr>
    bw_le_u16 = (\<lambda>w. to_le 2 (unat w)), bw_be_u16 = (\<lambda>w. rev (to_le 2 (unat w))),
    bw_le_u32 = (\<lambda>w. to_le 4 (unat w)), bw_be_u32 = (\<lambda>w. rev (to_le 4 (unat w))),
    bw_le_u64 = (\<lambda>w. to_le 8 (unat w)), bw_be_u64 = (\<lambda>w. rev (to_le 8 (unat w)))\<rparr>"

theorem elf_write_read_witness:
  "\<exists>out. elf_write_uclass byteorder_write_std vec_write BigEndian Class32 0x100000002 [7] = (Inr (), [7] @ out) \<and>
    length out = 4 \<and>
    elf_dispatch_endianness byteorder_std BigEndian
      (\<lambda>d. elf_dispatch_uclass d Class32 (\<lambda>read_uclass. read_uclass (out @ [9]))) = Inr (2, [9])"
proof -
  have "byteorder_write_ok byteorder_write_std" by (simp add: byteorder_write_ok_def byteorder_write_std_def)
  from elf_write_read[OF byteorder_std_ok this, of BigEndian Class32 "0x100000002" "[7]" "[9]"]
  show ?thesis by (simp add: uclass_size_def)
qed

end
