(* ===== verification/ElfDefaults.thy ===== *)
theory ElfDefaults
  imports ElfData
begin

text \<open>
  The smaller implementations of \<open>src/elfkit/types.rs\<close>, \<open>section.rs\<close>, \<open>dynamic.rs\<close> and \<open>error.rs\<close>: the
  \<open>Default\<close> values, the access to the content of a section, and the \<open>Display\<close> of segment flags.
\<close>

section \<open>Defaults\<close>

definition endianness_default :: endianness where "endianness_default = LittleEndian"
definition class_default :: elf_class where "class_default = Class64"
definition section_type_default :: section_type where "section_type_default = SHT_NULL"
definition abi_default :: abi where "abi_default = ABI_SYSV"
definition elf_type_default :: elf_type where "elf_type_default = ET_NONE"
definition symbol_type_default :: symbol_type where "symbol_type_default = STT_NOTYPE"
definition symbol_bind_default :: symbol_bind where "symbol_bind_default = STB_LOCAL"
definition symbol_vis_default :: symbol_vis where "symbol_vis_default = STV_DEFAULT"
definition machine_default :: machine where "machine_default = Machine 0"
definition segment_type_default :: segment_type where "segment_type_default = PT_NULL"
definition dynamic_type_default :: dynamic_type where "dynamic_type_default = DynamicType 0"
definition dynamic_content_default :: dynamic_content where "dynamic_content_default = DC_None"

text \<open>A zero discriminant is read as the default, apart from the byte order and the class, which zero is not.\<close>

lemma zero_is_default:
  "from_prim abi_table 0 = Some abi_default" "from_prim elf_type_table 0 = Some elf_type_default"
  "from_prim symbol_type_table 0 = Some symbol_type_default"
  "from_prim symbol_bind_table 0 = Some symbol_bind_default"
  "from_prim symbol_vis_table 0 = Some symbol_vis_default"
  "from_prim segment_type_table 0 = Some segment_type_default"
  "from_prim machine_table 0 = Some machine_default"
  "from_prim dynamic_type_table 0 = Some dynamic_type_default"
  "from_prim endianness_table 0 = None" "from_prim class_table 0 = None"
  by code_simp+

lemma derived_defaults:
  "ident_class header_default = class_default" "ident_endianness header_default = endianness_default"
  "ident_abi header_default = abi_default" "e_type header_default = elf_type_default"
  "e_machine header_default = machine_default" "sh_type section_header_default = section_type_default"
  by (simp_all add: header_default_def section_header_default_def class_default_def endianness_default_def
      abi_default_def elf_type_default_def machine_default_def section_type_default_def)

section \<open>The content of a section\<close>

fun into_dynamic :: "section_content \<Rightarrow> dynamic list option" where
  "into_dynamic (SC_Dynamic v) = Some v"
| "into_dynamic _ = None"

text \<open>A mutable borrow is the value, and the content with another value in its place.\<close>

fun as_dynamic_mut :: "section_content \<Rightarrow> (dynamic list \<times> (dynamic list \<Rightarrow> section_content)) option" where
  "as_dynamic_mut (SC_Dynamic v) = Some (v, SC_Dynamic)"
| "as_dynamic_mut _ = None"

lemma into_dynamic_eq: "into_dynamic c = as_dynamic c"
  by (cases c) simp_all

lemma as_dynamic_mut_lens:
  "as_dynamic_mut c = Some (v, put) \<Longrightarrow> as_dynamic c = Some v \<and> put v = c \<and> as_dynamic (put w) = Some w"
  by (cases c) auto

text \<open>\<open>impl From<io::Error> for Error\<close>, which \<open>?\<close> applies.\<close>

definition elf_error_of_io :: "io_error \<Rightarrow> elf_error" where
  "elf_error_of_io error = Io error"

section \<open>Segment flags\<close>

text \<open>\<open>str::trim\<close> on ASCII text.\<close>

definition is_space :: "u8 \<Rightarrow> bool" where
  "is_space c \<longleftrightarrow> c = 32 \<or> 9 \<le> c \<and> c \<le> 13"

definition trim_ascii :: "bytes \<Rightarrow> bytes" where
  "trim_ascii s = rev (dropWhile is_space (rev (dropWhile is_space s)))"

text \<open>\<open>&s[0..1]\<close>, which panics on an empty string.\<close>

definition first_byte :: "bytes \<Rightarrow> ('e, bytes) res" where
  "first_byte s = (case s of [] \<Rightarrow> Inl Panic | c # _ \<Rightarrow> Inr [c])"

text \<open>The \<open>Debug\<close> text that \<open>bitflags!\<close> makes is a parameter.\<close>

definition segment_flags_fmt :: "(u64 \<Rightarrow> bytes) \<Rightarrow> u64 \<Rightarrow> ('e, bytes) res" where
  "segment_flags_fmt debug bits =
    (let dstr = debug bits in
     if dstr = bstr ''(empty)'' then Inr []
     else map_sum id concat (map_res (\<lambda>s. first_byte (trim_ascii s)) (split_on 0x7c dstr)))"

text \<open>What \<open>bitflags!\<close> documents: the names of the flags that are set, in the order of the declaration.\<close>

fun join_bar :: "bytes list \<Rightarrow> bytes" where
  "join_bar [] = []"
| "join_bar [n] = n"
| "join_bar (n # ns) = n @ bstr '' | '' @ join_bar ns"

definition flags_debug :: "(string \<times> u64) list \<Rightarrow> u64 \<Rightarrow> bytes" where
  "flags_debug flags bits = (case filter (\<lambda>(n, b). bits AND b = b) flags of
      [] \<Rightarrow> bstr ''(empty)'' | set_flags \<Rightarrow> join_bar (map (\<lambda>(n, b). bstr n) set_flags))"

text \<open>Each combination of the declared flags is shown by one letter for each flag.\<close>

lemma segment_flags_letters:
  "list_all (\<lambda>(bits, s). segment_flags_fmt (flags_debug segment_flags) bits = (Inr (bstr s) :: (unit, bytes) res))
    [(0, ''''), (1, ''E''), (2, ''W''), (3, ''WE''), (4, ''R''), (5, ''RE''), (6, ''RW''), (7, ''RWE'')]"
  by code_simp

end
