(* ===== verification/KmodRefs.thy ===== *)
theory KmodRefs
  imports Kmod "HOL-Library.Multiset"
begin

text \<open>
  The references that the wrappers of \<open>kmod/src/ctx.rs\<close> and \<open>kmod/src/modules.rs\<close> hold, and their \<open>Drop\<close>
  implementations. Here the calls of libkmod work on a state, and the laws say what its documentation
  promises of references: who receives one, and which call gives it back. The clients are all the
  programs of safe Rust: a value is used while it is there, and it is dropped once.
\<close>

section \<open>The library with its state\<close>

record 'l kmod_live =
  lib_new :: "bytes option \<Rightarrow> bytes list option \<Rightarrow> 'l \<Rightarrow> ptr \<times> 'l"
  lib_new_from_loaded :: "ptr \<Rightarrow> 'l \<Rightarrow> list_ret \<times> 'l"
  lib_new_from_lookup :: "ptr \<Rightarrow> bytes \<Rightarrow> 'l \<Rightarrow> list_ret \<times> 'l"
  lib_new_from_path :: "ptr \<Rightarrow> bytes \<Rightarrow> 'l \<Rightarrow> list_ret \<times> 'l"
  lib_new_from_name :: "ptr \<Rightarrow> bytes \<Rightarrow> 'l \<Rightarrow> list_ret \<times> 'l"
  lib_get_holders :: "ptr \<Rightarrow> 'l \<Rightarrow> ptr \<times> 'l"
  lib_get_dependencies :: "ptr \<Rightarrow> 'l \<Rightarrow> ptr \<times> 'l"
  lib_get_softdeps :: "ptr \<Rightarrow> 'l \<Rightarrow> (int \<times> nat \<times> ptr \<times> ptr) \<times> 'l"
  lib_get_dependency_symbols :: "ptr \<Rightarrow> 'l \<Rightarrow> list_ret \<times> 'l"
  lib_get_module :: "ptr \<Rightarrow> 'l \<Rightarrow> ptr \<times> 'l"
  lib_symbol :: "ptr \<Rightarrow> 'l \<Rightarrow> bytes option"
  lib_list_next :: "ptr \<Rightarrow> ptr \<Rightarrow> 'l \<Rightarrow> ptr"
  lib_unref :: "ptr \<Rightarrow> 'l \<Rightarrow> 'l"
  lib_module_unref :: "ptr \<Rightarrow> 'l \<Rightarrow> 'l"
  lib_module_unref_list :: "ptr \<Rightarrow> 'l \<Rightarrow> 'l"
  lib_module_symbols_free_list :: "ptr \<Rightarrow> 'l \<Rightarrow> 'l"

section \<open>The wrappers\<close>

text \<open>A value of one of the structs \<open>Context\<close>, \<open>Module\<close>, \<open>ModuleIterator\<close> and \<open>SymbolIterator\<close>.\<close>

datatype owned = OContext ptr | OModule ptr | OModules list_iter | OSymbols list_iter

definition symbol_iterator_new :: "ptr \<Rightarrow> list_iter" where
  "symbol_iterator_new l = \<lparr>li_list = l, li_iter = l\<rparr>"

definition drop_context :: "'l kmod_live \<Rightarrow> ptr \<Rightarrow> 'l \<Rightarrow> 'l" where
  "drop_context L c s = lib_unref L c s"

definition drop_module :: "'l kmod_live \<Rightarrow> ptr \<Rightarrow> 'l \<Rightarrow> 'l" where
  "drop_module L m s = lib_module_unref L m s"

definition drop_module_iterator :: "'l kmod_live \<Rightarrow> list_iter \<Rightarrow> 'l \<Rightarrow> 'l" where
  "drop_module_iterator L it s = lib_module_unref_list L (li_list it) s"

definition drop_symbol_iterator :: "'l kmod_live \<Rightarrow> list_iter \<Rightarrow> 'l \<Rightarrow> 'l" where
  "drop_symbol_iterator L it s = lib_module_symbols_free_list L (li_list it) s"

fun drop_value :: "'l kmod_live \<Rightarrow> owned \<Rightarrow> 'l \<Rightarrow> 'l" where
  "drop_value L (OContext c) s = drop_context L c s"
| "drop_value L (OModule m) s = drop_module L m s"
| "drop_value L (OModules it) s = drop_module_iterator L it s"
| "drop_value L (OSymbols it) s = drop_symbol_iterator L it s"

text \<open>The methods that make new values, with their arguments; \<open>self\<close> is the first one.\<close>

datatype request =
    Context_new "bytes option" "bytes list option"
  | Modules_loaded ptr
  | From_lookup ptr bytes
  | From_path ptr bytes
  | From_name ptr bytes
  | Holders ptr
  | Dependencies ptr
  | Soft_dependencies ptr
  | Dependency_symbols ptr

definition unchecked_opt :: "bytes option \<Rightarrow> bytes option kmod_result" where
  "unchecked_opt d = (case d of None \<Rightarrow> Inr None | Some d \<Rightarrow> map_sum id Some (cstring_unchecked d))"

definition unchecked_list :: "bytes list option \<Rightarrow> bytes list option kmod_result" where
  "unchecked_list d = (case d of None \<Rightarrow> Inr None | Some cp \<Rightarrow> map_sum id Some (map_res cstring_unchecked cp))"

text \<open>A call once its string was converted, and the value that is made of what it returns.\<close>

definition with_string :: "bytes \<Rightarrow> (bytes \<Rightarrow> 'l \<Rightarrow> 'a kmod_result \<times> 'l) \<Rightarrow> 'l \<Rightarrow> 'a kmod_result \<times> 'l" where
  "with_string b call s = (case cstring b of Inl e \<Rightarrow> (Inl e, s) | Inr c \<Rightarrow> call c s)"

definition made :: "('a \<Rightarrow> owned) \<Rightarrow> ('r \<Rightarrow> 'a kmod_result) \<Rightarrow> 'r \<times> 'l \<Rightarrow> owned list kmod_result \<times> 'l" where
  "made value check r = (case r of (r, s) \<Rightarrow> (map_sum id (\<lambda>x. [value x]) (check r), s))"

definition symbols_of :: "list_ret \<Rightarrow> list_iter kmod_result" where
  "symbols_of r = (case r of (ret, errno, l) \<Rightarrow>
    if ret < 0 then Inl (Fail (Errno errno)) else Inr (symbol_iterator_new l))"

fun perform :: "'l kmod_live \<Rightarrow> request \<Rightarrow> 'l \<Rightarrow> owned list kmod_result \<times> 'l" where
  "perform L (Context_new d cp) s =
    (case bind_res (unchecked_opt d) (\<lambda>d. map_sum id (Pair d) (unchecked_list cp)) of
      Inl e \<Rightarrow> (Inl e, s)
    | Inr (d, cp) \<Rightarrow> made OContext context_of (lib_new L d cp s))"
| "perform L (Modules_loaded c) s = made OModules iterator_of (lib_new_from_loaded L c s)"
| "perform L (From_lookup c alias) s =
    with_string alias (\<lambda>alias s. made OModules iterator_of (lib_new_from_lookup L c alias s)) s"
| "perform L (From_path c filename) s =
    with_string filename (\<lambda>filename s. made OModule module_of (lib_new_from_path L c filename s)) s"
| "perform L (From_name c name) s =
    with_string name (\<lambda>name s. made OModule module_of (lib_new_from_name L c name s)) s"
| "perform L (Holders m) s = made OModules (\<lambda>l. Inr (iterator_new l)) (lib_get_holders L m s)"
| "perform L (Dependencies m) s = made OModules (\<lambda>l. Inr (iterator_new l)) (lib_get_dependencies L m s)"
| "perform L (Soft_dependencies m) s = (case lib_get_softdeps L m s of ((ret, errno, pre, post), s) \<Rightarrow>
    (if ret < 0 then Inl (Fail (Errno errno))
     else Inr [OModules (iterator_new pre), OModules (iterator_new post)], s))"
| "perform L (Dependency_symbols m) s = made OSymbols symbols_of (lib_get_dependency_symbols L m s)"

text \<open>The value that a method borrows.\<close>

fun borrowed :: "request \<Rightarrow> owned option" where
  "borrowed (Context_new _ _) = None"
| "borrowed (Modules_loaded c) = Some (OContext c)"
| "borrowed (From_lookup c _) = Some (OContext c)"
| "borrowed (From_path c _) = Some (OContext c)"
| "borrowed (From_name c _) = Some (OContext c)"
| "borrowed (Holders m) = Some (OModule m)"
| "borrowed (Dependencies m) = Some (OModule m)"
| "borrowed (Soft_dependencies m) = Some (OModule m)"
| "borrowed (Dependency_symbols m) = Some (OModule m)"

definition next_module :: "'l kmod_live \<Rightarrow> list_iter \<Rightarrow> 'l \<Rightarrow> (kmod_error, ptr option \<times> list_iter) res \<times> 'l" where
  "next_module L it s =
    (if li_iter it = 0 then (Inr (None, it), s)
     else (case lib_get_module L (li_iter it) s of (m, t) \<Rightarrow>
       (bind_res (module_new m) (\<lambda>m. Inr (Some m, it\<lparr>li_iter := lib_list_next L (li_list it) (li_iter it) t\<rparr>)), t)))"

definition next_symbol :: "'l kmod_live \<Rightarrow> list_iter \<Rightarrow> 'l \<Rightarrow> (kmod_error, bytes option \<times> list_iter) res" where
  "next_symbol L it s =
    (if li_iter it = 0 then Inr (None, it)
     else (case lib_symbol L (li_iter it) s of
         None \<Rightarrow> Inl Panic
       | Some b \<Rightarrow> Inr (Some (from_utf8_lossy b), it\<lparr>li_iter := lib_list_next L (li_list it) (li_iter it) s\<rparr>)))"

text \<open>
  On a library whose answers do not depend on the state, the methods are the functions of \<open>Kmod\<close>, which
  the rest of the development uses.
\<close>

definition stateless :: "'s kmod_sys \<Rightarrow> 'l kmod_live" where
  "stateless K = \<lparr>lib_new = \<lambda>d cp s. (kmod_new K d cp, s),
    lib_new_from_loaded = \<lambda>c s. (kmod_module_new_from_loaded K c, s),
    lib_new_from_lookup = \<lambda>c a s. (kmod_module_new_from_lookup K c a, s),
    lib_new_from_path = \<lambda>c a s. (kmod_module_new_from_path K c a, s),
    lib_new_from_name = \<lambda>c a s. (kmod_module_new_from_name K c a, s),
    lib_get_holders = \<lambda>m s. (kmod_module_get_holders K m, s),
    lib_get_dependencies = \<lambda>m s. (kmod_module_get_dependencies K m, s),
    lib_get_softdeps = \<lambda>m s. (kmod_module_get_softdeps K m, s),
    lib_get_dependency_symbols = \<lambda>m s. (kmod_module_get_dependency_symbols K m, s),
    lib_get_module = \<lambda>p s. (kmod_module_get_module K p, s),
    lib_symbol = \<lambda>p s. kmod_module_dependency_symbol_get_symbol K p,
    lib_list_next = \<lambda>l p s. kmod_list_next K l p, lib_unref = \<lambda>_ s. s, lib_module_unref = \<lambda>_ s. s,
    lib_module_unref_list = \<lambda>_ s. s, lib_module_symbols_free_list = \<lambda>_ s. s\<rparr>"

lemma perform_stateless_new:
  "perform (stateless K) (Context_new d cp) s = (map_sum id (\<lambda>c. [OContext c]) (context_new_with K d cp), s)"
  by (cases d; cases cp; cases "cstring_unchecked (the d)"; cases "map_res cstring_unchecked (the cp)")
    (simp_all add: stateless_def made_def context_new_with_def unchecked_opt_def unchecked_list_def)

lemma perform_stateless:
  "perform (stateless K) (Modules_loaded c) s = (map_sum id (\<lambda>it. [OModules it]) (modules_loaded K c), s)"
  "perform (stateless K) (From_lookup c a) s = (map_sum id (\<lambda>it. [OModules it]) (module_new_from_lookup K c a), s)"
  "perform (stateless K) (From_path c a) s = (map_sum id (\<lambda>m. [OModule m]) (module_new_from_path K c a), s)"
  "perform (stateless K) (From_name c a) s = (map_sum id (\<lambda>m. [OModule m]) (module_new_from_name K c a), s)"
  "perform (stateless K) (Holders m) s = (Inr [OModules (module_holders K m)], s)"
  "perform (stateless K) (Dependencies m) s = (Inr [OModules (module_dependencies K m)], s)"
  "perform (stateless K) (Soft_dependencies m) s =
    (map_sum id (\<lambda>(pre, post). [OModules pre, OModules post]) (soft_dependencies K m), s)"
  "perform (stateless K) (Dependency_symbols m) s = (map_sum id (\<lambda>it. [OSymbols it]) (dependency_symbols K m), s)"
  by (simp_all add: stateless_def made_def with_string_def modules_loaded_def module_new_from_lookup_def module_new_from_path_def module_new_from_name_def
      module_holders_def module_dependencies_def soft_dependencies_def dependency_symbols_def symbols_of_def
      iterator_of_def symbol_iterator_new_def iterator_new_def split: sum.split option.split prod.split)

lemma next_stateless:
  "next_module (stateless K) it s = (module_next K it, s)" "next_symbol (stateless K) it s = symbol_next K it"
  by (simp_all add: stateless_def next_module_def next_symbol_def module_next_def symbol_next_def Let_def
      split: option.split)

section \<open>The clients\<close>

text \<open>
  A client of the crate owns values. It calls a method of one it owns, which may fail, takes the next
  element of an iterator, or drops a value; after a panic only drops follow, which this allows as well.
\<close>

inductive client_step :: "'l kmod_live \<Rightarrow> owned multiset \<times> 'l \<Rightarrow> owned multiset \<times> 'l \<Rightarrow> bool" for L where
  call: "set_option (borrowed r) \<subseteq> set_mset own \<Longrightarrow> perform L r s = (Inr new, t) \<Longrightarrow>
    client_step L (own, s) (own + mset new, t)"
| fail: "set_option (borrowed r) \<subseteq> set_mset own \<Longrightarrow> perform L r s = (Inl e, t) \<Longrightarrow>
    client_step L (own, s) (own, t)"
| next_item: "next_module L it s = (Inr (x, it'), t) \<Longrightarrow>
    client_step L (add_mset (OModules it) own, s) (add_mset (OModules it') own + image_mset OModule (mset_set (set_option x)), t)"
| next_panic: "next_module L it s = (Inl e, t) \<Longrightarrow>
    client_step L (add_mset (OModules it) own, s) (add_mset (OModules it) own, t)"
| next_sym: "next_symbol L it s = Inr (x, it') \<Longrightarrow>
    client_step L (add_mset (OSymbols it) own, s) (add_mset (OSymbols it') own, s)"
| drop: "client_step L (add_mset v own, s) (own, drop_value L v s)"

section \<open>What the library promises\<close>

text \<open>
  A reference that was handed out and not given back: to a context, to a module, or a list that was
  allocated, with the references of its entries.
\<close>

datatype handle = HContext ptr | HModule ptr | HModuleList ptr | HSymbolList ptr

text \<open>
  What can be observed of the library: the references that are out, and the entries of the lists.
\<close>

record 'l observer =
  handed :: "'l \<Rightarrow> handle multiset"
  entries :: "'l \<Rightarrow> ptr \<Rightarrow> ptr set"

definition live_list :: "'l observer \<Rightarrow> 'l \<Rightarrow> ptr \<Rightarrow> bool" where
  "live_list V s l \<longleftrightarrow> HModuleList l \<in># handed V s \<or> HSymbolList l \<in># handed V s"

definition grants :: "'l observer \<Rightarrow> 'l \<Rightarrow> 'l \<Rightarrow> handle multiset \<Rightarrow> bool" where
  "grants V s t hs \<longleftrightarrow> handed V t = handed V s + hs \<and>
    (\<forall>l. live_list V s l \<longrightarrow> entries V t l = entries V s l)"

definition releases :: "'l observer \<Rightarrow> 'l \<Rightarrow> 'l \<Rightarrow> handle \<Rightarrow> bool" where
  "releases V s t h \<longleftrightarrow> handed V s = add_mset h (handed V t) \<and>
    (\<forall>l. live_list V t l \<longrightarrow> entries V t l = entries V s l)"

text \<open>A pointer that was returned: nothing for null.\<close>

definition handle_of :: "(ptr \<Rightarrow> handle) \<Rightarrow> ptr \<Rightarrow> handle multiset" where
  "handle_of h p = (if p = 0 then {#} else {#h p#})"

definition starts :: "'l observer \<Rightarrow> 'l \<Rightarrow> ptr \<Rightarrow> bool" where
  "starts V t l \<longleftrightarrow> l = 0 \<or> l \<in> entries V t l"

text \<open>
  What a call returns: a pointer with its reference; a list with its first entry; either of them
  unless the status is negative.
\<close>

definition gives_pointer :: "(ptr \<Rightarrow> handle) \<Rightarrow> 'l observer \<Rightarrow> 'l \<Rightarrow> ptr \<times> 'l \<Rightarrow> bool" where
  "gives_pointer h V s r \<longleftrightarrow> (case r of (p, t) \<Rightarrow> grants V s t (handle_of h p))"

definition gives_list :: "(ptr \<Rightarrow> handle) \<Rightarrow> 'l observer \<Rightarrow> 'l \<Rightarrow> ptr \<times> 'l \<Rightarrow> bool" where
  "gives_list h V s r \<longleftrightarrow> (case r of (l, t) \<Rightarrow> grants V s t (handle_of h l) \<and> starts V t l)"

definition gives_status ::
  "('l \<Rightarrow> ptr \<times> 'l \<Rightarrow> bool) \<Rightarrow> 'l observer \<Rightarrow> 'l \<Rightarrow> list_ret \<times> 'l \<Rightarrow> bool" where
  "gives_status gives V s r \<longleftrightarrow> (case r of ((ret, e, p), t) \<Rightarrow>
    if ret < 0 then grants V s t {#} else gives s (p, t))"

definition gives_two_lists :: "'l observer \<Rightarrow> 'l \<Rightarrow> (int \<times> nat \<times> ptr \<times> ptr) \<times> 'l \<Rightarrow> bool" where
  "gives_two_lists V s r \<longleftrightarrow> (case r of ((ret, e, p, q), t) \<Rightarrow>
    if ret < 0 then grants V s t {#}
    else grants V s t (handle_of HModuleList p + handle_of HModuleList q) \<and> starts V t p \<and> starts V t q)"

text \<open>The documentation of libkmod: what the calls hand out, for arguments that are referenced.\<close>

definition grant_laws :: "'l kmod_live \<Rightarrow> 'l observer \<Rightarrow> bool" where
  "grant_laws L V \<longleftrightarrow> (\<forall>s. (\<forall>d cp. gives_pointer HContext V s (lib_new L d cp s)) \<and>
    (\<forall>c. HContext c \<in># handed V s \<longrightarrow>
      gives_status (gives_list HModuleList V) V s (lib_new_from_loaded L c s) \<and>
      (\<forall>a. gives_status (gives_list HModuleList V) V s (lib_new_from_lookup L c a s) \<and>
        gives_status (gives_pointer HModule V) V s (lib_new_from_path L c a s) \<and>
        gives_status (gives_pointer HModule V) V s (lib_new_from_name L c a s))) \<and>
    (\<forall>m. HModule m \<in># handed V s \<longrightarrow>
      gives_list HModuleList V s (lib_get_holders L m s) \<and>
      gives_list HModuleList V s (lib_get_dependencies L m s) \<and>
      gives_two_lists V s (lib_get_softdeps L m s) \<and>
      gives_status (gives_list HSymbolList V) V s (lib_get_dependency_symbols L m s)))"

text \<open>How a list is walked, and which call gives a reference back; a null list is ignored.\<close>

definition list_laws :: "'l kmod_live \<Rightarrow> 'l observer \<Rightarrow> bool" where
  "list_laws L V \<longleftrightarrow> (\<forall>l p s. p \<in> entries V s l \<longrightarrow>
    (HModuleList l \<in># handed V s \<longrightarrow> gives_pointer HModule V s (lib_get_module L p s)) \<and>
    (live_list V s l \<longrightarrow> lib_list_next L l p s \<in> insert 0 (entries V s l)))"

definition release_laws :: "'l kmod_live \<Rightarrow> 'l observer \<Rightarrow> bool" where
  "release_laws L V \<longleftrightarrow>
    (\<forall>p s. (HContext p \<in># handed V s \<longrightarrow> releases V s (lib_unref L p s) (HContext p)) \<and>
      (HModule p \<in># handed V s \<longrightarrow> releases V s (lib_module_unref L p s) (HModule p)) \<and>
      (p \<noteq> 0 \<longrightarrow> HModuleList p \<in># handed V s \<longrightarrow> releases V s (lib_module_unref_list L p s) (HModuleList p)) \<and>
      (p \<noteq> 0 \<longrightarrow> HSymbolList p \<in># handed V s \<longrightarrow> releases V s (lib_module_symbols_free_list L p s) (HSymbolList p))) \<and>
    (\<forall>s. lib_module_unref_list L 0 s = s \<and> lib_module_symbols_free_list L 0 s = s)"

definition library_laws :: "'l kmod_live \<Rightarrow> 'l observer \<Rightarrow> bool" where
  "library_laws L V \<longleftrightarrow> grant_laws L V \<and> list_laws L V \<and> release_laws L V"

section \<open>The invariant\<close>

text \<open>The references of a value, and what the library needs of it when it is used.\<close>

fun holds :: "owned \<Rightarrow> handle multiset" where
  "holds (OContext c) = {#HContext c#}"
| "holds (OModule m) = {#HModule m#}"
| "holds (OModules it) = handle_of HModuleList (li_list it)"
| "holds (OSymbols it) = handle_of HSymbolList (li_list it)"

fun position_ok :: "'l observer \<Rightarrow> 'l \<Rightarrow> owned \<Rightarrow> bool" where
  "position_ok V s (OModules it) \<longleftrightarrow> li_iter it = 0 \<or> li_list it \<noteq> 0 \<and> li_iter it \<in> entries V s (li_list it)"
| "position_ok V s (OSymbols it) \<longleftrightarrow> li_iter it = 0 \<or> li_list it \<noteq> 0 \<and> li_iter it \<in> entries V s (li_list it)"
| "position_ok V s _ \<longleftrightarrow> True"

definition accounts :: "'l observer \<Rightarrow> owned multiset \<times> 'l \<Rightarrow> bool" where
  "accounts V x \<longleftrightarrow> (case x of (own, s) \<Rightarrow>
    handed V s = (\<Sum>v \<in># own. holds v) \<and> (\<forall>v \<in># own. position_ok V s v))"

lemma live_of_owned:
  assumes "accounts V (own, s)" and "v \<in># own"
  shows "holds v \<subseteq># handed V s"
proof -
  obtain rest where "own = add_mset v rest" using assms(2) by (metis multi_member_split)
  with assms(1) show ?thesis by (simp add: accounts_def)
qed

lemma live_list_of_owned:
  assumes "accounts V (own, s)" and "v \<in># own" and "v = OModules it \<or> v = OSymbols it" and "li_list it \<noteq> 0"
  shows "live_list V s (li_list it)"
  using live_of_owned[OF assms(1,2)] assms(3,4) by (auto simp: live_list_def handle_of_def)

lemma position_ok_keep:
  assumes "accounts V (own, s)" and "v \<in># own" and "\<And>l. live_list V s l \<Longrightarrow> entries V t l = entries V s l"
  shows "position_ok V t v"
proof -
  have "position_ok V s v" using assms(1,2) by (simp add: accounts_def)
  with live_list_of_owned[OF assms(1,2)] assms(3) show ?thesis by (cases v) auto
qed

text \<open>What a call adds is added on both sides.\<close>

lemma accounts_grant:
  assumes "accounts V (own, s)" and "grants V s t (\<Sum>v \<in># new. holds v)" and "\<forall>v \<in># new. position_ok V t v"
  shows "accounts V (own + new, t)"
proof -
  have "position_ok V t v" if "v \<in># own" for v
    using assms(2) by (intro position_ok_keep[OF assms(1) that]) (simp add: grants_def)
  with assms show ?thesis by (auto simp: accounts_def grants_def)
qed

lemma accounts_release:
  assumes "accounts V (add_mset v own, s)" and "holds v = {#h#}" and "releases V s t h"
  shows "accounts V (own, t)"
proof -
  have handed: "handed V t = (\<Sum>v \<in># own. holds v)"
    using assms by (simp add: accounts_def releases_def)
  have "position_ok V t u" if "u \<in># own" for u
  proof -
    have "position_ok V s u" using assms(1) that by (simp add: accounts_def)
    moreover have "holds u \<subseteq># handed V t"
      using that unfolding handed by (metis image_mset_add_mset mset_add mset_subset_eq_add_left sum_mset.insert)
    then have "live_list V t (li_list it)" if "u = OModules it \<or> u = OSymbols it" "li_list it \<noteq> 0" for it
      using that by (auto simp: live_list_def handle_of_def)
    ultimately show ?thesis using assms(3) by (cases u) (auto simp: releases_def)
  qed
  with handed show ?thesis by (simp add: accounts_def)
qed

text \<open>The calls that make a value.\<close>

definition grants_result :: "'l observer \<Rightarrow> 'l \<Rightarrow> owned list kmod_result \<times> 'l \<Rightarrow> bool" where
  "grants_result V s x \<longleftrightarrow> (case x of
      (Inr new, t) \<Rightarrow> grants V s t (\<Sum>v \<in># mset new. holds v) \<and> (\<forall>v \<in> set new. position_ok V t v)
    | (Inl _, t) \<Rightarrow> grants V s t {#})"

lemma grants_none: "grants V s s {#}"
  by (simp add: grants_def)

lemma grants_with_string:
  "(\<And>c. grants_result V s (call c s)) \<Longrightarrow> grants_result V s (with_string b call s)"
  by (auto simp: with_string_def grants_result_def grants_none split: sum.split)

lemmas gives_defs = gives_status_def gives_list_def gives_pointer_def gives_two_lists_def

lemmas made_defs = grants_result_def made_def iterator_of_def symbols_of_def module_of_def module_new_def
  context_of_def iterator_new_def symbol_iterator_new_def starts_def handle_of_def

lemma grants_made:
  "gives_status (gives_list HModuleList V) V s r \<Longrightarrow> grants_result V s (made OModules iterator_of r)"
  "gives_status (gives_list HSymbolList V) V s r \<Longrightarrow> grants_result V s (made OSymbols symbols_of r)"
  "gives_status (gives_pointer HModule V) V s r \<Longrightarrow> grants_result V s (made OModule module_of r)"
  by (auto simp: gives_defs made_defs split: prod.splits if_splits)

lemma grants_made_pointer:
  "gives_list HModuleList V s x \<Longrightarrow> grants_result V s (made OModules (\<lambda>l. Inr (iterator_new l)) x)"
  "gives_pointer HContext V s x \<Longrightarrow> grants_result V s (made OContext context_of x)"
  by (auto simp: gives_defs made_defs split: prod.splits if_splits)

lemma grants_two_lists:
  "gives_two_lists V s (lib_get_softdeps L m s) \<Longrightarrow> grants_result V s (perform L (Soft_dependencies m) s)"
  by (auto simp: gives_defs made_defs add_mset_commute split: prod.splits if_splits)

lemma perform_grants_new:
  assumes "grant_laws L V"
  shows "grants_result V s (perform L (Context_new d cp) s)"
  using assms by (auto simp: grant_laws_def grants_result_def[of _ _ "(Inl e, s)" for e] grants_none
      intro: grants_made_pointer split: sum.split)

lemma perform_grants:
  assumes laws: "grant_laws L V" and acc: "accounts V (own, s)" and own: "set_option (borrowed r) \<subseteq> set_mset own"
  shows "grants_result V s (perform L r s)"
proof -
  have "holds v \<subseteq># handed V s" if "borrowed r = Some v" for v
    using live_of_owned[OF acc] own that by simp
  then show ?thesis
    using laws
    by (cases r) (auto simp: grant_laws_def simp del: perform.simps(1,8)
        intro!: grants_with_string intro: perform_grants_new[OF laws] grants_two_lists grants_made grants_made_pointer)
qed

text \<open>The iterators.\<close>

lemma next_module_grants:
  assumes laws: "library_laws L V" and acc: "accounts V (add_mset (OModules it) own, s)"
    and "next_module L it s = (r, t)"
  shows "case r of
      Inr (x, it') \<Rightarrow> accounts V (add_mset (OModules it') own + image_mset OModule (mset_set (set_option x)), t)
    | Inl _ \<Rightarrow> accounts V (add_mset (OModules it) own, t)"
proof (cases "li_iter it = 0")
  case True
  with assms(2,3) show ?thesis by (auto simp: next_module_def)
next
  case False
  let ?l = "li_list it"
  have at: "?l \<noteq> 0" "li_iter it \<in> entries V s ?l" using acc False by (auto simp: accounts_def)
  then have held: "HModuleList ?l \<in># handed V s"
    using live_of_owned[OF acc, of "OModules it"] by (simp add: handle_of_def)
  obtain m where call: "lib_get_module L (li_iter it) s = (m, t)"
    using assms(3) False by (auto simp: next_module_def split: prod.splits)
  have g: "grants V s t (handle_of HModule m)" 
    using laws held at(2) unfolding library_laws_def list_laws_def gives_pointer_def by (metis call case_prod_conv)
  have keep: "entries V t ?l = entries V s ?l" "live_list V t ?l"
    using g held by (auto simp: grants_def live_list_def)
  show ?thesis
  proof (cases "m = 0")
    case True
    with g have "accounts V (add_mset (OModules it) own + {#}, t)"
      by (intro accounts_grant[OF acc]) (simp_all add: handle_of_def)
    with True assms(3) False call show ?thesis by (auto simp: next_module_def module_new_def)
  next
    case m: False
    let ?it = "it\<lparr>li_iter := lib_list_next L ?l (li_iter it) t\<rparr>"
    from m g have "accounts V (add_mset (OModules it) own + {#OModule m#}, t)"
      by (intro accounts_grant[OF acc]) (simp_all add: handle_of_def)
    moreover have "lib_list_next L ?l (li_iter it) t \<in> insert 0 (entries V t ?l)"
      using laws keep at(2) unfolding library_laws_def list_laws_def by metis
    ultimately have "accounts V (add_mset (OModules ?it) own + {#OModule m#}, t)"
      using at(1) by (auto simp: accounts_def)
    with m assms(3) False call show ?thesis by (auto simp: next_module_def module_new_def add_mset_commute)
  qed
qed

lemma next_symbol_accounts:
  assumes laws: "library_laws L V" and acc: "accounts V (add_mset (OSymbols it) own, s)"
    and "next_symbol L it s = Inr (x, it')"
  shows "accounts V (add_mset (OSymbols it') own, s)"
proof (cases "li_iter it = 0")
  case True
  with assms(2,3) show ?thesis by (auto simp: next_symbol_def)
next
  case False
  let ?l = "li_list it"
  have at: "?l \<noteq> 0" "li_iter it \<in> entries V s ?l" using acc False by (auto simp: accounts_def)
  have "live_list V s ?l" using live_list_of_owned[OF acc, of "OSymbols it"] at(1) by simp
  with laws at(2) have "lib_list_next L ?l (li_iter it) s \<in> insert 0 (entries V s ?l)"
    unfolding library_laws_def list_laws_def by blast
  with acc at(1) False assms(3) show ?thesis by (auto simp: next_symbol_def accounts_def split: option.splits)
qed

lemma library_releases:
  assumes "library_laws L V"
  shows "HContext c \<in># handed V s \<Longrightarrow> releases V s (lib_unref L c s) (HContext c)"
    "HModule m \<in># handed V s \<Longrightarrow> releases V s (lib_module_unref L m s) (HModule m)"
    "l \<noteq> 0 \<Longrightarrow> HModuleList l \<in># handed V s \<Longrightarrow> releases V s (lib_module_unref_list L l s) (HModuleList l)"
    "l \<noteq> 0 \<Longrightarrow> HSymbolList l \<in># handed V s \<Longrightarrow> releases V s (lib_module_symbols_free_list L l s) (HSymbolList l)"
    "lib_module_unref_list L 0 s = s" "lib_module_symbols_free_list L 0 s = s"
  using assms unfolding library_laws_def release_laws_def by blast+

lemma drop_accounts:
  assumes laws: "library_laws L V" and acc: "accounts V (add_mset v own, s)"
  shows "accounts V (own, drop_value L v s)"
proof -
  note held = live_of_owned[OF acc, of v] and release = library_releases[OF laws]
  have empty: "accounts V (own, s)" if "holds v = {#}" using acc that by (simp add: accounts_def)
  show ?thesis
  proof (cases v)
    case (OContext c)
    with held release(1) show ?thesis
      by (intro accounts_release[OF acc]) (simp_all add: drop_context_def)
  next
    case (OModule m)
    with held release(2) show ?thesis
      by (intro accounts_release[OF acc]) (simp_all add: drop_module_def)
  next
    case (OModules it)
    show ?thesis
    proof (cases "li_list it = 0")
      case True
      with OModules release(5) empty show ?thesis by (simp add: drop_module_iterator_def handle_of_def)
    next
      case False
      with OModules held release(3) show ?thesis
        by (intro accounts_release[OF acc]) (simp_all add: drop_module_iterator_def handle_of_def)
    qed
  next
    case (OSymbols it)
    show ?thesis
    proof (cases "li_list it = 0")
      case True
      with OSymbols release(6) empty show ?thesis by (simp add: drop_symbol_iterator_def handle_of_def)
    next
      case False
      with OSymbols held release(4) show ?thesis
        by (intro accounts_release[OF acc]) (simp_all add: drop_symbol_iterator_def handle_of_def)
    qed
  qed
qed

lemma accounts_step:
  assumes "client_step L x y" and "library_laws L V" and "accounts V x"
  shows "accounts V y"
  using assms
proof (induction rule: client_step.induct)
  case (call r own s new t)
  have "grants_result V s (perform L r s)"
    using perform_grants[OF _ call.prems(2) call.hyps(1)] call.prems(1) by (simp add: library_laws_def)
  with call.hyps(2) show ?case by (intro accounts_grant[OF call.prems(2)]) (simp_all add: grants_result_def)
next
  case (fail r own s e t)
  have "grants_result V s (perform L r s)"
    using perform_grants[OF _ fail.prems(2) fail.hyps(1)] fail.prems(1) by (simp add: library_laws_def)
  with fail.hyps(2) have "accounts V (own + {#}, t)"
    by (intro accounts_grant[OF fail.prems(2)]) (simp_all add: grants_result_def)
  then show ?case by simp
next
  case (next_item it s x it' t own)
  from next_module_grants[OF next_item.prems next_item.hyps] show ?case by simp
next
  case (next_panic it s e t own)
  from next_module_grants[OF next_panic.prems next_panic.hyps] show ?case by simp
next
  case (next_sym it s x it' own)
  from next_symbol_accounts[OF next_sym.prems next_sym.hyps] show ?case .
next
  case (drop v own s)
  from drop_accounts[OF drop.prems] show ?case .
qed

lemma accounts_reachable:
  "(client_step L)\<^sup>*\<^sup>* x y \<Longrightarrow> library_laws L V \<Longrightarrow> accounts V x \<Longrightarrow> accounts V y"
  by (induction rule: rtranclp_induct) (auto intro: accounts_step)

section \<open>An example\<close>

text \<open>A library whose state is the references that are out; a lookup finds one module.\<close>

definition ex_live :: "handle multiset kmod_live" where
  "ex_live = \<lparr>lib_new = \<lambda>_ _ s. (1, add_mset (HContext 1) s),
    lib_new_from_loaded = \<lambda>_ s. ((0, 0, 0), s),
    lib_new_from_lookup = \<lambda>_ _ s. ((0, 0, 7), add_mset (HModuleList 7) s),
    lib_new_from_path = \<lambda>_ _ s. ((-1, 2, 0), s), lib_new_from_name = \<lambda>_ _ s. ((-1, 2, 0), s),
    lib_get_holders = \<lambda>_ s. (0, s), lib_get_dependencies = \<lambda>_ s. (0, s),
    lib_get_softdeps = \<lambda>_ s. ((0, 0, 0, 0), s),
    lib_get_dependency_symbols = \<lambda>_ s. ((0, 0, 5), add_mset (HSymbolList 5) s),
    lib_get_module = \<lambda>_ s. (3, add_mset (HModule 3) s), lib_symbol = \<lambda>_ _. Some (bstr ''s''),
    lib_list_next = \<lambda>_ _ _. 0, lib_unref = \<lambda>c s. s - {#HContext c#},
    lib_module_unref = \<lambda>m s. s - {#HModule m#},
    lib_module_unref_list = \<lambda>l s. if l = 0 then s else s - {#HModuleList l#},
    lib_module_symbols_free_list = \<lambda>l s. if l = 0 then s else s - {#HSymbolList l#}\<rparr>"

definition ex_observer :: "handle multiset observer" where
  "ex_observer = \<lparr>handed = id, entries = \<lambda>_ l. {l}\<rparr>"

lemma ex_live_laws: "library_laws ex_live ex_observer"
  by (simp add: library_laws_def grant_laws_def list_laws_def release_laws_def gives_defs grants_def releases_def
      handle_of_def starts_def ex_live_def ex_observer_def)

text \<open>A context, a lookup, the first module, and the end of the iterator.\<close>

lemma ex_client:
  "(client_step ex_live)\<^sup>*\<^sup>* ({#}, {#}) ({#OContext 1, OModule 3#}, {#HContext 1, HModule 3#})"
proof -
  let ?it = "\<lparr>li_list = 7, li_iter = 7\<rparr>" and ?at_last = "\<lparr>li_list = 7, li_iter = 0\<rparr>"
  have 1: "client_step ex_live ({#}, {#}) ({#} + mset [OContext 1], {#HContext 1#})"
    by (rule client_step.call[where r = "Context_new None None"])
      (simp_all add: ex_live_def unchecked_opt_def unchecked_list_def made_def context_of_def)
  have 2: "client_step ex_live ({#OContext 1#}, {#HContext 1#})
      ({#OContext 1#} + mset [OModules ?it], {#HModuleList 7, HContext 1#})"
    by (rule client_step.call[where r = "From_lookup 1 []"])
      (simp_all add: ex_live_def with_string_def cstring_def made_def iterator_of_def iterator_new_def)
  have 3: "client_step ex_live (add_mset (OModules ?it) {#OContext 1#}, {#HModuleList 7, HContext 1#})
      (add_mset (OModules ?at_last) {#OContext 1#} + image_mset OModule (mset_set (set_option (Some 3))),
        {#HModule 3, HModuleList 7, HContext 1#})"
    by (rule client_step.next_item) (simp add: next_module_def ex_live_def module_new_def)
  have 4: "client_step ex_live (add_mset (OModules ?at_last) {#OContext 1, OModule 3#},
        {#HModule 3, HModuleList 7, HContext 1#})
      ({#OContext 1, OModule 3#}, drop_value ex_live (OModules ?at_last) {#HModule 3, HModuleList 7, HContext 1#})"
    by (rule client_step.drop)
  have dropped: "drop_value ex_live (OModules ?at_last) {#HModule 3, HModuleList 7, HContext 1#} = {#HContext 1, HModule 3#}"
    by (simp add: drop_module_iterator_def ex_live_def add_mset_commute)
  have "(client_step ex_live)\<^sup>+\<^sup>+ ({#}, {#}) ({#OContext 1#}, {#HContext 1#})" using 1 by auto
  also have "client_step ex_live ({#OContext 1#}, {#HContext 1#})
      (add_mset (OModules ?it) {#OContext 1#}, {#HModuleList 7, HContext 1#})" using 2 by simp
  also have "client_step ex_live (add_mset (OModules ?it) {#OContext 1#}, {#HModuleList 7, HContext 1#})
      (add_mset (OModules ?at_last) {#OContext 1, OModule 3#}, {#HModule 3, HModuleList 7, HContext 1#})"
    using 3 by (simp add: add_mset_commute)
  also have "client_step ex_live (add_mset (OModules ?at_last) {#OContext 1, OModule 3#},
        {#HModule 3, HModuleList 7, HContext 1#}) ({#OContext 1, OModule 3#}, {#HContext 1, HModule 3#})"
    using 4 unfolding dropped .
  finally show ?thesis by (rule tranclp_into_rtranclp)
qed

section \<open>Property\<close>

text \<open>
  C8: Whatever a client of the crate does with contexts, modules and iterators, the references that
  libkmod has handed out are exactly those of the values that are there: none is given back twice or
  while it is used, and none is left when all values are dropped; an iterator stands in its list.
\<close>

theorem references_balanced:
  assumes "library_laws L V" and "handed V s0 = {#}" and "(client_step L)\<^sup>*\<^sup>* ({#}, s0) (own, s)"
  shows "handed V s = (\<Sum>v \<in># own. holds v) \<and> (\<forall>v. v \<in># own \<longrightarrow> position_ok V s v)"
proof -
  have "accounts V ({#}, s0)" using assms(2) by (simp add: accounts_def)
  from accounts_reachable[OF assms(3,1) this] show ?thesis by (simp add: accounts_def)
qed

theorem references_balanced_witness:
  "handed ex_observer {#HContext 1, HModule 3#} = (\<Sum>v \<in># {#OContext 1, OModule 3#}. holds v) \<and>
    position_ok ex_observer {#HContext 1, HModule 3#} (OModule 3)"
  using references_balanced[OF ex_live_laws _ ex_client] by (simp add: ex_observer_def)

end
