(* ===== verification/KmodExamples.thy ===== *)
theory KmodExamples
  imports Kmod FileSystem
begin

text \<open>
  The programs \<open>lsmod\<close>, \<open>insmod\<close> and \<open>rmmod\<close> of \<open>kmod/examples/\<close>, and the \<open>Display\<close> of the errors of the
  crate. What they print is given by its fields; the padding of the columns is left out.
\<close>

text \<open>\<open>impl Display for ErrorKind\<close>; the text of an error number is the one of the \<open>errno\<close> crate.\<close>

fun kmod_error_fmt :: "(nat \<Rightarrow> string) \<Rightarrow> kmod_error \<Rightarrow> string" where
  "kmod_error_fmt errno_fmt (Generic s) = s"
| "kmod_error_fmt errno_fmt (Errno e) = errno_fmt e"
| "kmod_error_fmt errno_fmt NulError = ''NulError''"

section \<open>lsmod\<close>

text \<open>\<open>name().unwrap_or_default().to_string_lossy()\<close>.\<close>

definition shown_name :: "'s kmod_sys \<Rightarrow> ptr \<Rightarrow> bytes" where
  "shown_name K m = from_utf8_lossy (case mod_name K m of None \<Rightarrow> [] | Some n \<Rightarrow> n)"

record lsmod_row =
  row_name :: bytes
  row_size :: int
  row_refcount :: int
  row_holders :: "bytes list"

definition row_of :: "'s kmod_sys \<Rightarrow> ptr \<Rightarrow> bytes list \<Rightarrow> lsmod_row" where
  "row_of K m holders = \<lparr>row_name = shown_name K m, row_size = module_size K m,
    row_refcount = module_refcount K m, row_holders = holders\<rparr>"

definition lsmod_body ::
  "'s kmod_sys \<Rightarrow> ptr \<Rightarrow> lsmod_row list \<Rightarrow> ((kmod_error, unit option) res \<times> lsmod_row list) option" where
  "lsmod_body K module rows =
    (case for_iter (module_next K)
        (\<lambda>x names. Some ((Inr None :: (kmod_error, unit option) res), names @ [shown_name K x]))
        (module_holders K module) [] of
      None \<Rightarrow> None
    | Some (Inl e, _) \<Rightarrow> Some (Inl e, rows)
    | Some (Inr _, holders) \<Rightarrow> Some (Inr None, rows @ [row_of K module holders]))"

definition lsmod :: "'s kmod_sys \<Rightarrow> ((kmod_error, unit option) res \<times> lsmod_row list) option" where
  "lsmod K = (case context_new K of
      Inl _ \<Rightarrow> Some (Inl Panic, [])
    | Inr ctx \<Rightarrow> (case modules_loaded K ctx of
        Inl _ \<Rightarrow> Some (Inl Panic, [])
      | Inr it \<Rightarrow> for_iter (module_next K) (lsmod_body K) it []))"

text \<open>One row for each loaded module, in their order, with the names of its holders in theirs.\<close>

lemma holders_listed:
  "for_list (\<lambda>x names. Some ((Inr None :: (kmod_error, unit option) res), names @ [shown_name K x]))
    (map Inr hs) names = Some (Inr None, names @ map (shown_name K) hs)"
  by (induction hs arbitrary: names) simp_all

lemma lsmod_body_row:
  assumes "module_items K (module_holders K m) (map (Inr :: ptr \<Rightarrow> (kmod_error, ptr) res) hs)"
  shows "lsmod_body K m rows = Some (Inr None, rows @ [row_of K m (map (shown_name K) hs)])"
  unfolding lsmod_body_def module_list.for_iter_items[OF assms] holders_listed by simp

lemma rows_listed:
  assumes "\<forall>m \<in> set ms. module_items K (module_holders K m) (map (Inr :: ptr \<Rightarrow> (kmod_error, ptr) res) (holders m))"
  shows "for_list (lsmod_body K) (map Inr ms) rows =
    Some (Inr None, rows @ map (\<lambda>m. row_of K m (map (shown_name K) (holders m))) ms)"
  using assms by (induction ms arbitrary: rows) (simp_all add: lsmod_body_row[where hs = "holders m" and m = m for m])

lemma lsmod_rows:
  assumes "context_new K = Inr ctx" and "modules_loaded K ctx = Inr it"
    and "module_items K it (map (Inr :: ptr \<Rightarrow> (kmod_error, ptr) res) ms)"
    and "\<forall>m \<in> set ms. module_items K (module_holders K m) (map (Inr :: ptr \<Rightarrow> (kmod_error, ptr) res) (holders m))"
  shows "lsmod K = Some (Inr None, map (\<lambda>m. row_of K m (map (shown_name K) (holders m))) ms)"
  unfolding lsmod_def assms(1,2) sum.case module_list.for_iter_items[OF assms(3)] rows_listed[OF assms(4)]
  by simp

section \<open>insmod and rmmod\<close>

text \<open>\<open>expect\<close> and \<open>unwrap\<close>.\<close>

definition expect :: "'a kmod_result \<Rightarrow> 'a kmod_result" where
  "expect r = (case r of Inl _ \<Rightarrow> Inl Panic | Inr x \<Rightarrow> Inr x)"

text \<open>\<open>args\<close> is the command line without the name of the program.\<close>

definition insmod :: "'s kmod_sys \<Rightarrow> bytes list \<Rightarrow> 's \<Rightarrow> unit kmod_result \<times> 's" where
  "insmod K args s =
    (case bind_res (expect (context_new K)) (\<lambda>ctx. case args of
        [] \<Rightarrow> Inl Panic
      | filename # args \<Rightarrow> bind_res (expect (module_new_from_path K ctx filename)) (\<lambda>m. Inr (m, args))) of
      Inl e \<Rightarrow> (Inl e, s)
    | Inr (m, args) \<Rightarrow> (case insert_module K m 0 args s of (r, s) \<Rightarrow> (expect r, s)))"

definition rmmod :: "'s kmod_sys \<Rightarrow> fs \<Rightarrow> bytes list \<Rightarrow> 's \<Rightarrow> unit kmod_result \<times> 's" where
  "rmmod K F args s =
    (case bind_res (expect (context_new K)) (\<lambda>ctx. case args of
        [] \<Rightarrow> Inl Panic
      | filename # _ \<Rightarrow>
          if fs_exists F filename then expect (module_new_from_path K ctx filename)
          else expect (module_new_from_name K ctx filename)) of
      Inl e \<Rightarrow> (Inl e, s)
    | Inr m \<Rightarrow> (case remove_module K m 0 s of (r, s) \<Rightarrow> (expect r, s)))"

text \<open>
  They end without a panic exactly when every call succeeds, and nothing is changed before the last one.
\<close>

lemma expect_Inr [simp]: "expect r = Inr x \<longleftrightarrow> r = Inr x"
  "expect (Inr x) = Inr x"
  by (simp_all add: expect_def split: sum.split)

lemma insmod_success:
  "insmod K args s = (Inr (), t) \<longleftrightarrow> (\<exists>ctx filename opts m. args = filename # opts \<and>
    context_new K = Inr ctx \<and> module_new_from_path K ctx filename = Inr m \<and>
    insert_module K m 0 opts s = (Inr (), t))"
  by (cases args) (auto simp: insmod_def bind_res_eq_Inr split: sum.splits prod.splits)

lemma rmmod_success:
  "rmmod K F args s = (Inr (), t) \<longleftrightarrow> (\<exists>ctx filename rest m. args = filename # rest \<and> context_new K = Inr ctx \<and>
    (if fs_exists F filename then module_new_from_path K ctx filename else module_new_from_name K ctx filename) = Inr m \<and>
    remove_module K m 0 s = (Inr (), t))"
  by (cases args) (auto simp: rmmod_def bind_res_eq_Inr split: sum.splits prod.splits if_splits)

end
