(* ===== verification/RepoTests.thy ===== *)
theory RepoTests
  imports ReplaceSlice RelPath
begin

text \<open>
  The unit tests of the repository that check pure functions, as statements about the model.
\<close>

text \<open>\<open>test_replace_slice\<close> of \<open>src/elfkit/ldd.rs\<close>.\<close>

definition test_replace_slice :: bool where
  "test_replace_slice \<longleftrightarrow>
    replace_slice (bstr ''test'') (bstr ''$ORIGIN'') (bstr ''TEST'') = Some (bstr ''test'') \<and>
    replace_slice (bstr ''$ORIGIN'') (bstr ''$ORIGIN'') (bstr ''TEST'') = Some (bstr ''TEST'') \<and>
    replace_slice (bstr ''/$ORIGIN/'') (bstr ''$ORIGIN'') (bstr ''TEST'') = Some (bstr ''/TEST/'') \<and>
    replace_slice (bstr ''/_ORIGIN/'') (bstr ''$ORIGIN'') (bstr ''TEST'') = Some (bstr ''/_ORIGIN/'') \<and>
    replace_slice (bstr ''/_ORIGIN//'') (bstr ''$ORIGIN'') (bstr ''TEST'') = Some (bstr ''/_ORIGIN//'')"

lemma test_replace_slice_passes: test_replace_slice
proof -
  have ne: "bstr ''$ORIGIN'' \<noteq> []" by simp
  show ?thesis unfolding test_replace_slice_def replace_slice_subst[OF ne] by code_simp
qed

text \<open>
  \<open>test_convert_abs_rel\<close> of \<open>src/file/mod.rs\<close>. \<open>tmp_dir\<close> is where the temporary directory was made.
\<close>

definition test_convert_abs_rel :: "zip_longest \<Rightarrow> fs \<Rightarrow> path \<Rightarrow> bool" where
  "test_convert_abs_rel zl F tmp_dir \<longleftrightarrow>
    (let lib64 = push (push tmp_dir (bstr ''usr'')) (bstr ''lib64'');
         libexec = push (push tmp_dir (bstr ''usr'')) (bstr ''libexec'');
         libc_so_6 = push lib64 (bstr ''libc.so.6'')
     in bind_res (file_canonicalize_dir F libc_so_6) (\<lambda>p. convert_abs_rel zl p (push libexec (bstr ''libc.so''))) =
          Inr (bstr ''../lib64/libc.so.6'')) \<and>
    convert_abs_rel zl (bstr ''/lib64/libc.so.6'') (bstr ''/var/libc.so'') = Inr (bstr ''../lib64/libc.so.6'') \<and>
    convert_abs_rel zl (bstr ''/lib64/libc.so.6'') (bstr ''/libc.so'') = Inr (bstr ''lib64/libc.so.6'')"

lemma test_convert_abs_rel_passes:
  "test_convert_abs_rel zip_longest_std (plain_fs []) (bstr ''/tmp/.tmpA'')"
  by code_simp

end
