(* ===== verification/Spec2Isabelle.thy ===== *)
theory Spec2Isabelle
  imports DracutMain ElfWrite ElfDefaults LddPool KmodRefs KmodExamples RepoTests
begin

text \<open>
  dracut-install copies files, the libraries they need, and kernel modules with their dependencies
  into the root of an initial RAM disk. This development models the program as it is written in
  Rust and proves what its parts and a run of the whole achieve. Paths below are relative to the root
  of the repository.

  \<^bold>\<open>Parts and theories.\<close>
  \<^item> \<open>Prelude\<close>, \<open>RustStd\<close>, \<open>Utf8\<close>, \<open>RustPath\<close>, \<open>FileSystem\<close>: outcomes with errors and panics, byte
    readers, text, \<open>std::path\<close>, and the questions asked of the file system.
  \<^item> \<open>Primitive\<close>, \<open>ElfTypes\<close>, \<open>ElfMachines\<close>, \<open>DynamicTypes\<close>: the enums and flags of
    \<open>src/elfkit/types.rs\<close>, each with the table of its discriminants.
  \<^item> \<open>ElfRead\<close>, \<open>ElfData\<close>, \<open>ElfHeader\<close>, \<open>ElfTables\<close>, \<open>ElfContent\<close>, \<open>ElfFile\<close>: the reader of ELF files in
    \<open>src/elfkit/\<close> (\<open>utils.rs\<close>, \<open>header.rs\<close>, \<open>segment.rs\<close>, \<open>section.rs\<close>, \<open>strtab.rs\<close>, \<open>dynamic.rs\<close>,
    \<open>elf.rs\<close>), with encoders that the files are written with in the round trips; \<open>ElfWrite\<close>: the macros
    of \<open>utils.rs\<close> that dispatch once for a block, and those that write; \<open>ElfDefaults\<close>: the \<open>Default\<close> values, the
    access to section contents and the \<open>Display\<close> of segment flags.
  \<^item> \<open>ReadStruct\<close>, \<open>CStrVIter\<close>: \<open>src/readstruct/mod.rs\<close> and \<open>src/cstrviter/mod.rs\<close>.
  \<^item> \<open>LdSoCache\<close>: the cache of the dynamic linker, \<open>src/elfkit/ld_so_cache.rs\<close> and \<open>dl_cache.rs\<close>.
  \<^item> \<open>ReplaceSlice\<close>, \<open>Ldd\<close>, \<open>LddSearch\<close>, \<open>LddCorrect\<close>: the search for the libraries of one binary,
    \<open>src/elfkit/ldd.rs\<close>, with its shared state as the record \<open>ldd_state\<close>.
  \<^item> \<open>LddQueue\<close>: \<open>ldd\<close> of \<open>src/lib.rs\<close>, the parallel work queue. A step of the relation \<open>ldd_step\<close> lets a
    worker handle any job of the queue; \<open>ldd_loop\<close> is one schedule, given by a function.
  \<^item> \<open>LddInterleave\<close>, \<open>LddPool\<close>: the same search and the same queue with the workers at work at the same
    time: a step of \<open>search_step\<close> is one operation on the shared state, and \<open>pool_step\<close> lets any worker do
    one. A search that is not disturbed is the function (\<open>runs_alone_recurse\<close>), and every schedule of
    whole searches is an interleaving (\<open>ldd_pooled\<close>).
  \<^item> \<open>RelPath\<close>, \<open>Syscalls\<close>, \<open>AclCopy\<close>, \<open>CopyData\<close>, \<open>CopyCorrect\<close>, \<open>CopyProps\<close>, \<open>FileCopy\<close>,
    \<open>ClonePath\<close>: \<open>src/file/mod.rs\<close> and \<open>src/acl/mod.rs\<close>: relative links, the repeated system calls,
    attributes, the transfer of the data, the copy of a file, and the cloning of a path with its
    parents and the targets of links.
  \<^item> \<open>Kmod\<close>: the wrappers of \<open>kmod/src/\<close> around libkmod; \<open>KmodRefs\<close>: the references they hold, with their
    \<open>Drop\<close> implementations; \<open>KmodExamples\<close>: the programs of \<open>kmod/examples/\<close>.
  \<^item> \<open>RunContext\<close>, \<open>InstallModules\<close>, \<open>ModuleArgs\<close>,
    \<open>Install\<close>: the rest of \<open>src/lib.rs\<close>; \<open>Modalias\<close>: \<open>src/modules/mod.rs\<close>.
  \<^item> \<open>DracutMain\<close>: \<open>src/main.rs\<close>, and this theory: what a run of the program has done.
  \<^item> \<open>RepoTests\<close>: the unit tests of pure functions, evaluated on the model.

  \<^bold>\<open>How the parts interact.\<close> \<open>main\<close> makes a \<open>run_context\<close> of the command line and calls \<open>do_main\<close>, which
  lists the modules in use (\<open>modalias_list\<close>), installs modules (\<open>install_modules\<close>), or installs files
  (\<open>install_files_ldd\<close>). The last one asks \<open>ldd\<close> for the files and their libraries; \<open>ldd\<close> runs \<open>recurse\<close>
  for every binary of the queue, which reads it with \<open>elf_from_reader\<close> and \<open>elf_load\<close> and looks its needed
  names up in run paths, the linker cache and the default directories. Both installations end in
  \<open>install_files\<close>, which clones each path (\<open>clone_path\<close>), and that copies files with \<open>copy\<close>, whose data
  goes through \<open>copy_data\<close> and whose attributes through \<open>acl_copy_fd\<close>.

  \<^bold>\<open>How the code is shown.\<close> A struct is a record, an enum a datatype, an integer a word of its width
  (file positions are integers). A fallible function ends in \<open>Inr\<close>, in \<open>Inl (Fail e)\<close>, or in
  \<open>Inl Panic\<close> for an unwinding panic. State is passed on and returned. A loop or a recursion that may
  not end is a \<open>partial_function\<close> (\<open>copy_loop\<close>, \<open>clone_path\<close>, \<open>cvt_r\<close>, \<open>replace_loop\<close>, \<open>for_iter\<close>), where
  \<open>None\<close> means that it does not return, or has fuel, where \<open>None\<close> means that it was not enough:
  \<open>ldd\<close> needs one unit for each given file and each place a search can come upon (\<open>ldd_terminates\<close>),
  \<open>install_module\<close> one more than there are module paths not visited yet (\<open>install_module_total\<close>).

  \<^bold>\<open>What the lemmas show.\<close> The readers consume fixed widths and are inverse to the encoders (locales
  \<open>fixed_width\<close> and \<open>codec\<close>); an enum is determined by its table (\<open>primitive_enum\<close>); the canonicalisation
  cache cannot be observed (\<open>memo\<close>); the work queue terminates and its results are closed under the
  search, for all schedules (\<open>worklist\<close>, invariants of \<open>ldd_step\<close>) and all interleavings of the searches
  (\<open>pool_inv\<close>, a lexicographic measure on the places that are open and the steps that are left); the
  iterators over the lists of libkmod deliver what is in them (\<open>cursor\<close>), and a client of the wrappers holds exactly the references that libkmod
  has handed out (\<open>accounts\<close>); the copy loop keeps the target equal to the source up to the
  position (\<open>dst_inv\<close>); cloning only adds entries (\<open>creates\<close>) and makes the one it is for; the set of
  module paths is the closure of the accepted modules under dependencies. Properties that hold of
  errors, and the inputs on which the program fails to do what it is for, are stated as well.

  \<^bold>\<open>Parameters.\<close> What is not in the repository is an argument of the definitions: the byte order
  conversions (\<open>byteorder\<close>), \<open>zip_longest\<close>, \<open>walkdir\<close>, \<open>clap\<close>, \<open>regex\<close>, libkmod (\<open>kmod_sys\<close>), the system
  calls and the file system (\<open>fs\<close>, \<open>path_sys\<close> and the records of \<open>CopyData\<close> and \<open>FileCopy\<close>), the order in
  which hash sets are iterated, and the schedule of the workers. Theorems name what they assume of
  them, and their witnesses give each a concrete function.

  \<^bold>\<open>Not modelled.\<close> Log records and messages; as in a release build, the arguments of debug records are
  not evaluated. \<open>Debug\<close> implementations; limits of memory and stack; the number of worker threads (the
  pool starts as many as there are jobs); changes of the file system by others during a search; the
  overflow of file positions beyond 63 bits; the two process-wide flags after a copy that failed. The
  benchmarks and the tests that need the files of a machine only call the functions above.
\<close>

section \<open>A run of the program\<close>

text \<open>
  What a run leaves behind, for each of the three things the program does: the given files are below
  the destination with the libraries they need, the requested modules are there with all they need and
  nothing else, the printed names are those of the modules in use.
\<close>

definition files_installed :: "('s, 'k) world \<Rightarrow> run_context \<Rightarrow> path list \<Rightarrow> 's \<Rightarrow> 's \<Rightarrow> bool" where
  "files_installed W ctx files t s' \<longleftrightarrow>
    files_complete (w_byteorder W) (w_native W) (w_paths W) (w_fs W t) (destrootdir ctx) files s'"

definition modules_installed :: "('s, 'k) world \<Rightarrow> run_context \<Rightarrow> bytes list \<Rightarrow> 's \<Rightarrow> 's \<Rightarrow> bool" where
  "modules_installed W ctx args t s' \<longleftrightarrow>
    (\<exists>kmod_ctx V. context_new_with (w_kmod W) (kerneldir ctx) None = Inr kmod_ctx \<and>
      (\<forall>m. requested (w_paths W) (w_walk W) (w_kmod W) kmod_ctx t args m \<longrightarrow> accepted (w_kmod W) ctx m \<longrightarrow>
        settled_path (w_kmod W) m V) \<and>
      (\<forall>p \<in> V. complete_path (w_kmod W) kmod_ctx V p) \<and>
      (\<forall>p \<in> V. \<exists>m x. requested (w_paths W) (w_walk W) (w_kmod W) kmod_ctx t args m \<and> accepted (w_kmod W) ctx m \<and>
        (depends (w_kmod W) kmod_ctx)\<^sup>*\<^sup>* m x \<and> module_path (w_kmod W) x = Some p) \<and>
      (\<forall>p \<in> V. parent p = None \<or> lexists (w_paths W) (clone_target (destrootdir ctx) p) s'))"

definition names_listed :: "('s, 'k) world \<Rightarrow> 's \<Rightarrow> bytes set \<Rightarrow> bool" where
  "names_listed W t names \<longleftrightarrow>
    (\<exists>kmod_ctx it. context_new (w_kmod W) = Inr kmod_ctx \<and> modules_loaded (w_kmod W) kmod_ctx = Inr it \<and>
      names = (\<Union>m \<in> {m. entry_of (w_kmod W) it m}. {n. mod_name (w_kmod W) m = Some n}) \<union>
        (\<Union>m \<in> {m. entry_of (w_kmod W) it m}. {n. \<exists>a. mod_name (w_kmod W) m = Some a \<and> n \<in> stands_for (w_kmod W) kmod_ctx a}) \<union>
        {n. \<exists>p b. p \<in> set (alias_files (w_walk W (bstr ''/sys/devices'') t)) \<and> fs_read (w_fs W t) p = Inr b \<and>
          strip_newline b \<noteq> [] \<and> n \<in> stands_for (w_kmod W) kmod_ctx (strip_newline b)})"

lemma set_kerneldir_fields:
  "set_kerneldir W ctx = Inr ctx' \<Longrightarrow>
    modalias ctx' = modalias ctx \<and> kernel_module ctx' = kernel_module ctx \<and> destrootdir ctx' = destrootdir ctx"
  by (auto simp: set_kerneldir_def split: option.splits sum.splits)

lemma do_main_success:
  assumes "path_laws (w_paths W)" and "orders_ok (w_order W)" and "\<forall>V. finite V \<longrightarrow> set (w_drain W V) = V"
    and "\<forall>kmod_ctx. lists_end (w_kmod W) kmod_ctx"
    and "\<forall>kmod_ctx it. modules_loaded (w_kmod W) kmod_ctx = Inr it \<longrightarrow> finite_list (w_kmod W) it"
    and "finite (module_paths (w_kmod W))"
    and log: "open_log W ctx s = (Inr (), t)" and kerneldir: "set_kerneldir W ctx = Inr ctx'"
    and run: "do_main W fuel ctx args s = Some (Inr printed, s')"
  shows "if modalias ctx then s' = t \<and> (\<exists>names. printed = w_drain W names \<and> names_listed W t names)
    else printed = [] \<and>
      (if kernel_module ctx then modules_installed W ctx' args t s' else files_installed W ctx' args t s')"
proof -
  note run = run[unfolded do_main_def log kerneldir prod.case sum.case] and fields = set_kerneldir_fields[OF kerneldir]
  show ?thesis
  proof (cases "modalias ctx")
    case True
    with run fields obtain names where names: "printed = w_drain W names" "s' = t"
      and list: "modalias_list (w_fs W t) (w_walk W) (w_kmod W) t = Some (Inr names)"
      by (auto simp: map_sum_Inr)
    have "names_listed W t names"
      unfolding names_listed_def by (rule modalias_list_facts[OF assms(4,5) list])
    with True names show ?thesis by auto
  next
    case False
    show ?thesis
    proof (cases "kernel_module ctx")
      case True
      with False run fields have "install_modules fuel (w_zip_longest W) (w_paths W) (w_walk W) (w_kmod W) (w_drain W)
          ctx' args t = Some (Inr (), s')" and "printed = []"
        by (auto simp: map_sum_Inr)
      from install_modules_facts[OF assms(1,4,6,3) this(1)] this(2) False True
      show ?thesis by (simp add: modules_installed_def)
    next
      case files: False
      with False run fields have "install_files_ldd (w_byteorder W) (w_native W) (w_zip_longest W) (w_paths W) (w_fs W)
          (w_order W) (w_pick W) fuel (destrootdir ctx') args t = Some (Inr (), s')" and "printed = []"
        by (auto simp: map_sum_Inr)
      from install_files_ldd_facts[OF assms(1,2) this(1)] this(2) False files
      show ?thesis by (simp add: files_installed_def)
    qed
  qed
qed


definition ex_world :: "(tree, unit) world" where
  "ex_world = \<lparr>w_paths = ex_tree ex_root, w_fs = \<lambda>_. ex_fs, w_walk = \<lambda>_ _. [],
    w_open_append = \<lambda>_ t. (Inl (OsError ENOENT), t), w_uname = Inr (bstr ''5.1''), w_getpid = 42,
    w_kmod = ex_kmod, w_zip_longest = zip_longest_std, w_byteorder = byteorder_std, w_native = LittleEndian,
    w_order = ex_order, w_pick = \<lambda>_. 0, w_drain = sorted_list_of_set\<rparr>"

definition ex_file_matches :: arg_matches where
  "ex_file_matches = \<lparr>value_of_os = (\<lambda>_. None),
    values_of_os = (\<lambda>n. if n = ''arg'' then Some [bstr ''/bin/x''] else None),
    is_present = (\<lambda>_. False), occurrences_of = (\<lambda>_. 0)\<rparr>"

definition ex_file_env :: "string \<Rightarrow> bytes option" where
  "ex_file_env n = (if n = ''DESTROOTDIR'' then Some (bstr ''/dest'') else None)"

abbreviation ex_file_result :: tree where
  "ex_file_result \<equiv> [(bstr ''/dest/lib64/libc.so.6'', FileNode 0), (bstr ''/dest/bin/x'', FileNode 0)]"

lemma ex_main:
  "main ex_world 3 ex_file_matches ex_file_env (\<lambda>_. None) [] = Some ((0, []), ex_file_result)"
proof -
  obtain ctx where ctx: "run_context_of ex_file_matches ex_file_env (\<lambda>_. None) = Some ctx"
    and fields: "logdir ctx = None" "kerneldir ctx = None" "modalias ctx = False" "kernel_module ctx = False"
      "destrootdir ctx = bstr ''/dest''"
    by (simp add: run_context_of_def dest_of_def regex_of_def ex_file_matches_def ex_file_env_def del: bstr_Cons)
  have arg: "values_of_os ex_file_matches ''arg'' = Some [bstr ''/bin/x'']" by (simp add: ex_file_matches_def)
  show ?thesis
    unfolding main_def ctx option.case Let_def arg do_main_def open_log_def set_kerneldir_def fields
    by (simp add: ex_world_def fields ex_install_ldd del: bstr_Cons)
qed


end
